(* ===== verification/Prelude.thy ===== *)
theory Prelude
  imports Main "HOL-Library.Sublist" "HOL-Library.Word"
begin

text \<open>
  Shared material of the development: the names of the model's types, the collections that
  carry the component proofs (\<open>str_eval\<close> evaluates text on literals, \<open>json_eval\<close>
  evaluates JSON lookups, \<open>eff\<close> unfolds effectful steps), generic facts on options, lists
  and maps, and the two small interfaces several components provide: a normaliser (an
  idempotent map used before a lookup) and a codec (an encoder with a decoder that undoes it).
\<close>

named_theorems str_eval \<open>evaluation of text operations on literals\<close>
named_theorems json_eval \<open>evaluation of JSON lookups and updates\<close>
named_theorems eff \<open>unfolding of effectful steps\<close>

text \<open>
  A Rust \<open>str\<close> is UTF-8, and the code measures it in bytes; it is modelled as the list of
  its bytes.
\<close>

type_synonym str = string

text \<open>A Rust \<open>Result\<close>, with the error on the left.\<close>

type_synonym ('e, 'a) result = "'e + 'a"

section \<open>Options, lists and sums\<close>

fun bind_result :: "('e + 'a) \<Rightarrow> ('a \<Rightarrow> 'e + 'b) \<Rightarrow> 'e + 'b" where
  "bind_result (Inl e) f = Inl e"
| "bind_result (Inr a) f = f a"

lemma bind_result_Inr [simp]:
  "bind_result r f = Inr b \<longleftrightarrow> (\<exists>a. r = Inr a \<and> f a = Inr b)"
  by (cases r) auto

lemma bind_result_Inl [simp]:
  "bind_result r f = Inl e \<longleftrightarrow> r = Inl e \<or> (\<exists>a. r = Inr a \<and> f a = Inl e)"
  by (cases r) auto

fun first_some :: "('a \<Rightarrow> 'b option) \<Rightarrow> 'a list \<Rightarrow> 'b option" where
  "first_some f [] = None"
| "first_some f (x # xs) = (case f x of None \<Rightarrow> first_some f xs | Some y \<Rightarrow> Some y)"

lemma first_some_None: "first_some f xs = None \<longleftrightarrow> (\<forall>x \<in> set xs. f x = None)"
  by (induction xs) (auto split: option.splits)

lemma first_some_SomeD: "first_some f xs = Some y \<Longrightarrow> \<exists>x \<in> set xs. f x = Some y"
  by (induction xs) (auto split: option.splits)

definition or_else :: "'a option \<Rightarrow> 'a option \<Rightarrow> 'a option" where
  "or_else a b = (case a of None \<Rightarrow> b | Some x \<Rightarrow> Some x)"

lemma or_else_simps [simp]:
  "or_else None b = b" "or_else (Some x) b = Some x" "or_else a None = a"
  by (auto simp: or_else_def split: option.splits)

definition unwrap_or :: "'a \<Rightarrow> 'a option \<Rightarrow> 'a" where
  "unwrap_or d a = (case a of None \<Rightarrow> d | Some x \<Rightarrow> x)"

lemma unwrap_or_simps [simp]: "unwrap_or d None = d" "unwrap_or d (Some x) = x"
  by (auto simp: unwrap_or_def)

definition opt_filter :: "('a \<Rightarrow> bool) \<Rightarrow> 'a option \<Rightarrow> 'a option" where
  "opt_filter p a = (case a of None \<Rightarrow> None | Some x \<Rightarrow> if p x then Some x else None)"

lemma opt_filter_simps [simp]:
  "opt_filter p None = None" "opt_filter p (Some x) = (if p x then Some x else None)"
  by (auto simp: opt_filter_def)

lemma opt_filter_Some_iff: "opt_filter p a = Some x \<longleftrightarrow> a = Some x \<and> p x"
  by (cases a) auto

fun filter_map :: "('a \<Rightarrow> 'b option) \<Rightarrow> 'a list \<Rightarrow> 'b list" where
  "filter_map f [] = []"
| "filter_map f (x # xs) = (case f x of None \<Rightarrow> filter_map f xs | Some y \<Rightarrow> y # filter_map f xs)"

lemma set_filter_map: "set (filter_map f xs) = {y. \<exists>x \<in> set xs. f x = Some y}"
  by (induction xs) (auto split: option.splits)

lemma length_filter_map: "length (filter_map f xs) \<le> length xs"
  by (induction xs) (auto split: option.splits)

lemma filter_map_append [simp]: "filter_map f (xs @ ys) = filter_map f xs @ filter_map f ys"
  by (induction xs) (auto split: option.splits)

section \<open>Interfaces\<close>

text \<open>
  A normaliser is applied to a name before it is compared or used as a key. Applying it twice
  changes nothing, so a stored key and a looked-up key meet exactly when the normal forms agree.
\<close>

locale normaliser =
  fixes norm :: "'a \<Rightarrow> 'a"
  assumes idem: "norm (norm x) = norm x"
begin

lemma fixed_iff: "norm x = x \<longleftrightarrow> (\<exists>y. x = norm y)"
  by (metis idem)

lemma stored_lookup: "(m(norm k \<mapsto> v)) (norm k') = (if norm k = norm k' then Some v else m (norm k'))"
  by simp

lemma key_of_key: "norm k = norm k' \<longleftrightarrow> norm k = norm (norm k')"
  by (simp add: idem)

end

text \<open>A codec: what is written can be read back.\<close>

locale codec =
  fixes enc :: "'a \<Rightarrow> 'b" and dec :: "'b \<Rightarrow> 'c" and ok :: "'a \<Rightarrow> 'c"
  assumes round: "dec (enc x) = ok x"
    and ok_inj: "ok x = ok y \<Longrightarrow> x = y"
begin

lemma enc_inj: "enc x = enc y \<longleftrightarrow> x = y"
  by (metis round ok_inj)

lemma dec_enc_eq: "dec (enc x) = ok y \<longleftrightarrow> x = y"
  by (metis round ok_inj)

end

end
