(* ===== verification/Rust_Str.thy ===== *)
theory Rust_Str
  imports Prelude "HOL-Library.Char_ord" "HOL-Library.List_Lexorder"
begin

text \<open>
  The part of Rust's \<open>str\<close> the sources use, over UTF-8 bytes: ASCII case, Unicode white
  space trimming, splitting, searching, replacing and integer parsing. Everything computes.
  White space is the Unicode \<open>White_Space\<close> property, which \<open>str::trim\<close> and
  \<open>split_whitespace\<close> use: six ASCII characters, two two-byte and seventeen three-byte ones.
\<close>

section \<open>Characters\<close>

text \<open>A byte's bits are \<open>Char b0 \<dots> b7\<close>, lowest first.\<close>

fun is_upper :: "char \<Rightarrow> bool" where
  "is_upper (Char b0 b1 b2 b3 b4 b5 b6 b7) =
     (\<not> b7 \<and> b6 \<and> \<not> b5 \<and> (b0 \<or> b1 \<or> b2 \<or> b3 \<or> b4) \<and> \<not> (b4 \<and> b3 \<and> (b2 \<or> (b1 \<and> b0))))"

fun is_lower :: "char \<Rightarrow> bool" where
  "is_lower (Char b0 b1 b2 b3 b4 b5 b6 b7) =
     (\<not> b7 \<and> b6 \<and> b5 \<and> (b0 \<or> b1 \<or> b2 \<or> b3 \<or> b4) \<and> \<not> (b4 \<and> b3 \<and> (b2 \<or> (b1 \<and> b0))))"

fun is_digit :: "char \<Rightarrow> bool" where
  "is_digit (Char b0 b1 b2 b3 b4 b5 b6 b7) =
     (\<not> b7 \<and> \<not> b6 \<and> b5 \<and> b4 \<and> \<not> (b3 \<and> (b2 \<or> b1)))"

fun digit_val :: "char \<Rightarrow> nat" where
  "digit_val (Char b0 b1 b2 b3 b4 b5 b6 b7) =
     (if b0 then 1 else 0) + (if b1 then 2 else 0) + (if b2 then 4 else 0) + (if b3 then 8 else 0)"

fun lower_char :: "char \<Rightarrow> char" where
  "lower_char (Char b0 b1 b2 b3 b4 b5 b6 b7) =
     Char b0 b1 b2 b3 b4 (b5 \<or> is_upper (Char b0 b1 b2 b3 b4 b5 b6 b7)) b6 b7"

fun upper_char :: "char \<Rightarrow> char" where
  "upper_char (Char b0 b1 b2 b3 b4 b5 b6 b7) =
     Char b0 b1 b2 b3 b4 (b5 \<and> \<not> is_lower (Char b0 b1 b2 b3 b4 b5 b6 b7)) b6 b7"

definition is_alnum :: "char \<Rightarrow> bool" where
  "is_alnum c \<longleftrightarrow> is_upper c \<or> is_lower c \<or> is_digit c"

text \<open>A continuation byte \<open>10xxxxxx\<close> belongs to the character before it.\<close>

fun is_cont :: "char \<Rightarrow> bool" where
  "is_cont (Char b0 b1 b2 b3 b4 b5 b6 b7) = (b7 \<and> \<not> b6)"

lemma is_upper_code: "is_upper c \<longleftrightarrow> 65 \<le> (of_char c :: nat) \<and> (of_char c :: nat) \<le> 90"
  by (cases c) (auto simp: of_char_Char split: if_splits)

lemma is_digit_code: "is_digit c \<longleftrightarrow> 48 \<le> (of_char c :: nat) \<and> (of_char c :: nat) \<le> 57"
  by (cases c) (auto simp: of_char_Char split: if_splits)

lemma lower_char_idem [simp]: "lower_char (lower_char c) = lower_char c"
  by (cases c) auto

lemma upper_char_idem [simp]: "upper_char (upper_char c) = upper_char c"
  by (cases c) auto

lemma upper_lower_char [simp]: "upper_char (lower_char c) = upper_char c"
  by (cases c) auto

lemma lower_upper_char [simp]: "lower_char (upper_char c) = lower_char c"
  by (cases c) auto

lemma lower_char_not_upper [simp]: "\<not> is_upper (lower_char c)"
  by (cases c) auto

lemma is_alnum_lower [simp]: "is_alnum (lower_char c) = is_alnum c"
  by (cases c) (auto simp: is_alnum_def)

definition to_lower :: "str \<Rightarrow> str" where
  "to_lower s = map lower_char s"

definition to_upper :: "str \<Rightarrow> str" where
  "to_upper s = map upper_char s"

definition eq_ignore_case :: "str \<Rightarrow> str \<Rightarrow> bool" where
  "eq_ignore_case a b \<longleftrightarrow> to_lower a = to_lower b"

lemma to_lower_idem [simp]: "to_lower (to_lower s) = to_lower s"
  by (simp add: to_lower_def)

lemma to_upper_idem [simp]: "to_upper (to_upper s) = to_upper s"
  by (simp add: to_upper_def)

lemma to_upper_lower [simp]: "to_upper (to_lower s) = to_upper s"
  by (simp add: to_lower_def to_upper_def)

lemma to_lower_upper [simp]: "to_lower (to_upper s) = to_lower s"
  by (simp add: to_lower_def to_upper_def)

lemma to_lower_Nil_iff [simp]: "to_lower s = [] \<longleftrightarrow> s = []"
  by (simp add: to_lower_def)

lemma to_upper_Nil_iff [simp]: "to_upper s = [] \<longleftrightarrow> s = []"
  by (simp add: to_upper_def)

lemma to_lower_append [simp]: "to_lower (a @ b) = to_lower a @ to_lower b"
  by (simp add: to_lower_def)

lemma to_upper_append [simp]: "to_upper (a @ b) = to_upper a @ to_upper b"
  by (simp add: to_upper_def)

lemma eq_ignore_case_refl [simp]: "eq_ignore_case a a"
  by (simp add: eq_ignore_case_def)

lemma eq_ignore_case_upper: "eq_ignore_case a b \<longleftrightarrow> to_upper a = to_upper b"
  by (metis eq_ignore_case_def to_lower_upper to_upper_lower)

section \<open>White space\<close>

definition ws1 :: "char \<Rightarrow> bool" where
  "ws1 a \<longleftrightarrow> List.member [CHR 0x09, CHR 0x0A, CHR 0x0B, CHR 0x0C, CHR 0x0D, CHR 0x20] a"

definition ws2 :: "char \<Rightarrow> char \<Rightarrow> bool" where
  "ws2 a b \<longleftrightarrow> a = CHR 0xC2 \<and> List.member [CHR 0x85, CHR 0xA0] b"

definition ws3 :: "char \<Rightarrow> char \<Rightarrow> char \<Rightarrow> bool" where
  "ws3 a b c \<longleftrightarrow>
     (a = CHR 0xE1 \<and> b = CHR 0x9A \<and> c = CHR 0x80) \<or>
     (a = CHR 0xE2 \<and> b = CHR 0x80 \<and>
        List.member [CHR 0x80, CHR 0x81, CHR 0x82, CHR 0x83, CHR 0x84, CHR 0x85, CHR 0x86,
          CHR 0x87, CHR 0x88, CHR 0x89, CHR 0x8A, CHR 0xA8, CHR 0xA9, CHR 0xAF] c) \<or>
     (a = CHR 0xE2 \<and> b = CHR 0x81 \<and> c = CHR 0x9F) \<or>
     (a = CHR 0xE3 \<and> b = CHR 0x80 \<and> c = CHR 0x80)"

text \<open>
  The rest after one leading white space character, where \<open>w2\<close>, \<open>w3\<close> decide the two- and
  three-byte ones. Trimming the end runs the same loop over the reversed bytes.
\<close>

fun skip_ws :: "(char \<Rightarrow> char \<Rightarrow> bool) \<Rightarrow> (char \<Rightarrow> char \<Rightarrow> char \<Rightarrow> bool) \<Rightarrow> str \<Rightarrow> str option" where
  "skip_ws w2 w3 [] = None"
| "skip_ws w2 w3 [a] = (if ws1 a then Some [] else None)"
| "skip_ws w2 w3 [a, b] =
     (if ws1 a then Some [b] else if w2 a b then Some [] else None)"
| "skip_ws w2 w3 (a # b # c # s) =
     (if ws1 a then Some (b # c # s) else if w2 a b then Some (c # s)
      else if w3 a b c then Some s else None)"

lemma skip_ws_length: "skip_ws w2 w3 s = Some t \<Longrightarrow> length t < length s"
  by (induction w2 w3 s rule: skip_ws.induct) (auto split: if_splits)

function trim_with :: "(char \<Rightarrow> char \<Rightarrow> bool) \<Rightarrow> (char \<Rightarrow> char \<Rightarrow> char \<Rightarrow> bool) \<Rightarrow> str \<Rightarrow> str" where
  "trim_with w2 w3 s = (case skip_ws w2 w3 s of None \<Rightarrow> s | Some t \<Rightarrow> trim_with w2 w3 t)"
  by pat_completeness auto
termination
  by (relation "measure (\<lambda>(w2, w3, s). length s)") (auto dest: skip_ws_length)

declare trim_with.simps [simp del]

definition trim_start :: "str \<Rightarrow> str" where
  "trim_start s = trim_with ws2 ws3 s"

definition trim_end :: "str \<Rightarrow> str" where
  "trim_end s = rev (trim_with (\<lambda>a b. ws2 b a) (\<lambda>a b c. ws3 c b a) (rev s))"

definition trim :: "str \<Rightarrow> str" where
  "trim s = trim_end (trim_start s)"

definition blank :: "str \<Rightarrow> bool" where
  "blank s \<longleftrightarrow> trim s = []"

lemma trim_with_skip [simp]: "skip_ws w2 w3 (trim_with w2 w3 s) = None"
  by (induction w2 w3 s rule: trim_with.induct)
    (subst trim_with.simps, auto split: option.splits)

lemma trim_with_id: "skip_ws w2 w3 s = None \<Longrightarrow> trim_with w2 w3 s = s"
  by (subst trim_with.simps) simp

lemma skip_ws_suffix: "skip_ws w2 w3 s = Some t \<Longrightarrow> suffix t s"
  by (induction w2 w3 s rule: skip_ws.induct) (auto simp: suffix_def split: if_splits)

lemma trim_with_suffix: "suffix (trim_with w2 w3 s) s"
proof (induction w2 w3 s rule: trim_with.induct)
  case (1 w2 w3 s)
  then show ?case
    by (subst trim_with.simps)
      (auto split: option.splits intro: suffix_order.trans dest: skip_ws_suffix)
qed

text \<open>Whether text starts with white space depends on its first three bytes only.\<close>

lemma skip_ws_prefix:
  assumes "prefix p s" "skip_ws w2 w3 s = None"
  shows "skip_ws w2 w3 p = None"
proof -
  obtain q where "s = p @ q" using assms(1) by (auto simp: prefix_def)
  with assms(2) show ?thesis
    by (induction w2 w3 p rule: skip_ws.induct)
      (auto split: if_splits elim!: skip_ws.elims)
qed

lemma trim_start_id: "skip_ws ws2 ws3 s = None \<Longrightarrow> trim_start s = s"
  by (simp add: trim_start_def trim_with_id)

lemma trim_end_prefix: "prefix (trim_end s) s"
  by (metis rev_rev_ident suffix_to_prefix trim_end_def trim_with_suffix)

lemma trim_start_trim [simp]: "trim_start (trim s) = trim s"
  unfolding trim_def
  by (rule trim_start_id, rule skip_ws_prefix [OF trim_end_prefix])
    (simp add: trim_start_def)

lemma trim_end_idem [simp]: "trim_end (trim_end s) = trim_end s"
  by (simp add: trim_end_def trim_with_id)

lemma trim_idem [simp]: "trim (trim s) = trim s"
  by (subst trim_def) (simp, simp add: trim_def)

lemma trim_Nil [simp]: "trim [] = []"
  by (simp add: trim_def trim_start_def trim_end_def trim_with_id)

lemma trim_length: "length (trim s) \<le> length s"
  unfolding trim_def trim_end_def trim_start_def
  by (metis (no_types) le_trans length_rev suffix_length_le trim_with_suffix)

lemma trim_with_length: "length (trim_with w2 w3 s) \<le> length s"
  using trim_with_suffix by (rule suffix_length_le)

lemma trim_set: "set (trim s) \<subseteq> set s"
  unfolding trim_def trim_end_def trim_start_def
  by (metis set_mono_suffix set_rev subset_trans trim_with_suffix)

text \<open>Trimming is a normaliser, and so is the toolkit-name form: trimmed, then lowercased.\<close>

definition name_key :: "str \<Rightarrow> str" where
  "name_key s = to_lower (trim s)"

lemma lower_ws [simp]: "ws1 (lower_char a) = ws1 a"
  by (cases a) (auto simp: ws1_def)

lemma lower_char_high: "lower_char a = Char b0 b1 b2 b3 b4 b5 b6 True \<longleftrightarrow> a = Char b0 b1 b2 b3 b4 b5 b6 True"
  by (cases a) auto

lemma lower_ws2 [simp]: "ws2 (lower_char a) (lower_char b) = ws2 a b"
  by (simp add: ws2_def lower_char_high)

lemma lower_ws3 [simp]: "ws3 (lower_char a) (lower_char b) (lower_char c) = ws3 a b c"
  by (simp add: ws3_def lower_char_high)

definition case_blind :: "(char \<Rightarrow> char \<Rightarrow> bool) \<Rightarrow> (char \<Rightarrow> char \<Rightarrow> char \<Rightarrow> bool) \<Rightarrow> bool" where
  "case_blind w2 w3 \<longleftrightarrow>
     (\<forall>a b. w2 (lower_char a) (lower_char b) = w2 a b) \<and>
     (\<forall>a b c. w3 (lower_char a) (lower_char b) (lower_char c) = w3 a b c)"

lemma skip_ws_lower:
  "case_blind w2 w3 \<Longrightarrow> skip_ws w2 w3 (to_lower s) = map_option to_lower (skip_ws w2 w3 s)"
  by (induction w2 w3 s rule: skip_ws.induct) (auto simp: to_lower_def case_blind_def)

lemma trim_with_lower:
  "case_blind w2 w3 \<Longrightarrow> trim_with w2 w3 (to_lower s) = to_lower (trim_with w2 w3 s)"
proof (induction w2 w3 s rule: trim_with.induct)
  case (1 w2 w3 s)
  show ?case
  proof (cases "skip_ws w2 w3 s")
    case None
    with skip_ws_lower [OF 1(2), of s] show ?thesis by (simp add: trim_with_id)
  next
    case (Some t)
    with 1 skip_ws_lower [OF 1(2), of s] show ?thesis
      by (simp add: trim_with.simps [of w2 w3 s] trim_with.simps [of w2 w3 "to_lower s"])
  qed
qed

lemma rev_to_lower: "rev (to_lower s) = to_lower (rev s)"
  by (simp add: to_lower_def rev_map)

lemma trim_lower: "trim (to_lower s) = to_lower (trim s)"
proof -
  have "case_blind ws2 ws3" "case_blind (\<lambda>a b. ws2 b a) (\<lambda>a b c. ws3 c b a)"
    by (simp_all add: case_blind_def)
  then show ?thesis
    by (simp add: trim_def trim_start_def trim_end_def trim_with_lower rev_to_lower)
qed

lemma name_key_idem [simp]: "name_key (name_key s) = name_key s"
  by (simp add: name_key_def trim_lower)

text \<open>
  A byte that is neither ASCII white space nor part of a multi-byte character stops trimming:
  everything behind it stays.
\<close>

fun is_high :: "char \<Rightarrow> bool" where
  "is_high (Char b0 b1 b2 b3 b4 b5 b6 b7) = b7"

definition solid :: "char \<Rightarrow> bool" where
  "solid c \<longleftrightarrow> \<not> is_high c \<and> \<not> ws1 c"

definition high_only :: "(char \<Rightarrow> char \<Rightarrow> bool) \<Rightarrow> (char \<Rightarrow> char \<Rightarrow> char \<Rightarrow> bool) \<Rightarrow> bool" where
  "high_only w2 w3 \<longleftrightarrow>
     (\<forall>a b. w2 a b \<longrightarrow> is_high a \<and> is_high b) \<and>
     (\<forall>a b c. w3 a b c \<longrightarrow> is_high a \<and> is_high b \<and> is_high c)"

lemma high_only_ws: "high_only ws2 ws3" "high_only (\<lambda>a b. ws2 b a) (\<lambda>a b c. ws3 c b a)"
  by (auto simp: high_only_def ws2_def ws3_def)

lemma skip_ws_solid:
  assumes "solid x" "high_only w2 w3"
  shows "skip_ws w2 w3 (x # t) = None"
  using assms by (induction w2 w3 "x # t" rule: skip_ws.induct) (auto simp: solid_def high_only_def)

lemma skip_ws_keeps_solid:
  assumes "solid x" "high_only w2 w3" "skip_ws w2 w3 (q @ x # t) = Some r"
  shows "suffix (x # t) r"
proof -
  have "q \<noteq> []" using assms skip_ws_solid [OF assms(1,2)] by auto
  with assms show ?thesis
    by (induction w2 w3 "q @ x # t" rule: skip_ws.induct)
      (auto simp: solid_def high_only_def suffix_def append_eq_Cons_conv Cons_eq_append_conv
        split: if_splits)
qed

lemma trim_with_solid:
  assumes "solid x" "high_only w2 w3" "suffix (x # t) s"
  shows "suffix (x # t) (trim_with w2 w3 s)"
  using assms
proof (induction w2 w3 s rule: trim_with.induct)
  case (1 w2 w3 s)
  from 1(4) obtain q where q: "s = q @ x # t" by (auto simp: suffix_def)
  show ?case
  proof (cases "skip_ws w2 w3 s")
    case None
    with 1 show ?thesis by (simp add: trim_with_id)
  next
    case (Some r)
    with 1 q have "suffix (x # t) r" by (blast intro: skip_ws_keeps_solid)
    with 1 Some show ?thesis by (simp add: trim_with.simps [of w2 w3 s])
  qed
qed

lemma trim_end_solid: "solid x \<Longrightarrow> prefix (p @ [x]) (trim_end (p @ x # r))"
proof -
  assume "solid x"
  then have "suffix (x # rev p) (trim_with (\<lambda>a b. ws2 b a) (\<lambda>a b c. ws3 c b a) (rev (p @ x # r)))"
    by (rule trim_with_solid [OF _ high_only_ws(2)]) (simp add: suffix_def)
  then show ?thesis by (simp add: trim_end_def suffix_to_prefix)
qed

lemma trim_solid_head:
  assumes "solid c" shows "trim (c # s) = trim_end (c # s)"
  using assms by (simp add: trim_def trim_start_id skip_ws_solid high_only_ws)

lemma trim_solid_prefix:
  assumes "solid c" "solid x" shows "prefix (c # p @ [x]) (trim (c # p @ x # r))"
  using trim_end_solid [OF assms(2), of "c # p" r] by (simp add: trim_solid_head [OF assms(1)])

section \<open>Searching\<close>

fun contains :: "str \<Rightarrow> str \<Rightarrow> bool" where
  "contains [] p = (p = [])"
| "contains (c # s) p = (prefix p (c # s) \<or> contains s p)"

lemma contains_sublist: "contains s p \<longleftrightarrow> sublist p s"
  by (induction s) (auto simp: sublist_Cons_right)

lemma contains_Nil [simp]: "contains s []"
  by (simp add: contains_sublist)

lemma contains_appendI1 [simp]: "contains s p \<Longrightarrow> contains (s @ t) p"
  by (simp add: contains_sublist sublist_appendI sublist_append)

lemma contains_appendI2: "contains t p \<Longrightarrow> contains (s @ t) p"
  by (simp add: contains_sublist sublist_append)

lemma contains_set: "contains s p \<Longrightarrow> set p \<subseteq> set s"
  by (simp add: contains_sublist set_mono_sublist)

lemma contains_trans: "contains s p \<Longrightarrow> contains p q \<Longrightarrow> contains s q"
  unfolding contains_sublist by (metis sublist_order.order_trans)

lemma prefix_contains: "prefix p s \<Longrightarrow> contains s p"
  by (simp add: contains_sublist)

definition contains_any :: "str \<Rightarrow> str list \<Rightarrow> bool" where
  "contains_any s ps = list_ex (contains s) ps"

lemma contains_any_iff: "contains_any s ps \<longleftrightarrow> (\<exists>p \<in> set ps. contains s p)"
  by (simp add: contains_any_def list_ex_iff)

definition strip_prefix :: "str \<Rightarrow> str \<Rightarrow> str option" where
  "strip_prefix p s = (if prefix p s then Some (drop (length p) s) else None)"

lemma strip_prefix_Some: "strip_prefix p s = Some t \<longleftrightarrow> s = p @ t"
  by (auto simp: strip_prefix_def prefix_def)

text \<open>\<open>str::replace\<close>: every non-overlapping occurrence, left to right.\<close>

function replace_str :: "str \<Rightarrow> str \<Rightarrow> str \<Rightarrow> str" where
  "replace_str p r s =
     (case s of [] \<Rightarrow> []
      | c # t \<Rightarrow> if p \<noteq> [] \<and> prefix p s then r @ replace_str p r (drop (length p) s)
                 else c # replace_str p r t)"
  by pat_completeness auto
termination
  by (relation "measure (\<lambda>(p, r, s). length s)") auto

declare replace_str.simps [simp del]

lemma replace_str_Nil [simp]: "replace_str p r [] = []"
  by (subst replace_str.simps) simp

section \<open>Splitting\<close>

text \<open>\<open>split(c)\<close> yields at least one piece; \<open>split(c).next()\<close> is the first.\<close>

fun split_on :: "char \<Rightarrow> str \<Rightarrow> str list" where
  "split_on d [] = [[]]"
| "split_on d (c # s) =
     (if c = d then [] # split_on d s
      else case split_on d s of p # ps \<Rightarrow> (c # p) # ps | [] \<Rightarrow> [[c]])"

definition first_piece :: "char \<Rightarrow> str \<Rightarrow> str" where
  "first_piece d s = takeWhile (\<lambda>c. c \<noteq> d) s"

lemma split_on_first: "\<exists>ps. split_on d s = first_piece d s # ps"
  by (induction s) (auto simp: first_piece_def)

definition split_once :: "char \<Rightarrow> str \<Rightarrow> (str \<times> str) option" where
  "split_once d s =
     (case dropWhile (\<lambda>c. c \<noteq> d) s of [] \<Rightarrow> None | _ # t \<Rightarrow> Some (first_piece d s, t))"

lemma split_once_Some: "split_once d s = Some (a, b) \<longleftrightarrow> s = a @ d # b \<and> d \<notin> set a"
proof
  assume "split_once d s = Some (a, b)"
  then obtain x where x: "dropWhile (\<lambda>c. c \<noteq> d) s = x # b" "a = takeWhile (\<lambda>c. c \<noteq> d) s"
    by (auto simp: split_once_def first_piece_def split: list.splits)
  moreover from x(1) have "x = d" by (simp add: dropWhile_eq_Cons_conv)
  moreover have "s = takeWhile (\<lambda>c. c \<noteq> d) s @ dropWhile (\<lambda>c. c \<noteq> d) s" by simp
  moreover have "d \<notin> set (takeWhile (\<lambda>c. c \<noteq> d) s)" by (auto dest: set_takeWhileD)
  ultimately show "s = a @ d # b \<and> d \<notin> set a" by simp
next
  assume "s = a @ d # b \<and> d \<notin> set a"
  then show "split_once d s = Some (a, b)"
    by (auto simp: split_once_def first_piece_def dropWhile_append takeWhile_append)
qed

fun join :: "str \<Rightarrow> str list \<Rightarrow> str" where
  "join sep [] = []"
| "join sep [x] = x"
| "join sep (x # y # xs) = x @ sep @ join sep (y # xs)"

text \<open>\<open>split_whitespace\<close>: the maximal runs of non-white-space.\<close>

function split_ws_aux :: "str \<Rightarrow> str \<Rightarrow> str list" where
  "split_ws_aux acc s =
     (case skip_ws ws2 ws3 s of
        Some t \<Rightarrow> (if acc = [] then [] else [rev acc]) @ split_ws_aux [] t
      | None \<Rightarrow> (case s of [] \<Rightarrow> (if acc = [] then [] else [rev acc])
                 | c # t \<Rightarrow> split_ws_aux (c # acc) t))"
  by pat_completeness auto
termination
  by (relation "measure (\<lambda>(acc, s). length s)") (auto dest: skip_ws_length)

declare split_ws_aux.simps [simp del]

definition split_whitespace :: "str \<Rightarrow> str list" where
  "split_whitespace s = split_ws_aux [] s"

section \<open>Numbers\<close>

fun digits_value :: "nat \<Rightarrow> str \<Rightarrow> nat option" where
  "digits_value acc [] = Some acc"
| "digits_value acc (c # s) = (if is_digit c then digits_value (10 * acc + digit_val c) s else None)"

text \<open>
  \<open>str::parse\<close> into a \<open>w\<close>-bit unsigned integer: an optional plus sign, then at least one
  digit, and the value must fit.
\<close>

definition parse_unsigned :: "nat \<Rightarrow> str \<Rightarrow> nat option" where
  "parse_unsigned w s =
     (let ds = (case s of c # t \<Rightarrow> if c = CHR ''+'' then t else s | [] \<Rightarrow> [])
      in if ds = [] then None else opt_filter (\<lambda>n. n < 2 ^ w) (digits_value 0 ds))"

definition parse_i64 :: "str \<Rightarrow> int option" where
  "parse_i64 s =
     (case s of
        [] \<Rightarrow> None
      | c # t \<Rightarrow>
          if c = CHR ''-'' then
            (if t = [] then None
             else map_option (\<lambda>n. - int n) (opt_filter (\<lambda>n. n \<le> 2 ^ 63) (digits_value 0 t)))
          else map_option int (parse_unsigned 63 s))"

lemma parse_unsigned_bound: "parse_unsigned w s = Some n \<Longrightarrow> n < 2 ^ w"
  by (auto simp: parse_unsigned_def Let_def opt_filter_Some_iff split: if_splits list.splits)

lemma parse_i64_bound: "parse_i64 s = Some n \<Longrightarrow> - (2 ^ 63) \<le> n \<and> n < 2 ^ 63"
  by (auto simp: parse_i64_def opt_filter_Some_iff split: if_splits list.splits
      dest: parse_unsigned_bound)

definition digit_char :: "nat \<Rightarrow> char" where
  "digit_char n = ''0123456789'' ! (n mod 10)"

function show_nat :: "nat \<Rightarrow> str" where
  "show_nat n = (if n < 10 then [digit_char n] else show_nat (n div 10) @ [digit_char n])"
  by pat_completeness auto
termination
  by (relation "measure id") auto

declare show_nat.simps [simp del]

section \<open>Characters as the unit of length\<close>

text \<open>
  \<open>chars().count()\<close> counts the bytes that start a character, and
  \<open>char_indices().nth(n)\<close> is the position of the one numbered \<open>n\<close>: \<open>take_chars\<close> is the
  text before it, when there is one.
\<close>

definition char_count :: "str \<Rightarrow> nat" where
  "char_count s = length (filter (\<lambda>c. \<not> is_cont c) s)"

fun take_chars :: "nat \<Rightarrow> str \<Rightarrow> str option" where
  "take_chars n [] = None"
| "take_chars n (c # s) =
     (if is_cont c then map_option ((#) c) (take_chars n s)
      else case n of 0 \<Rightarrow> Some [] | Suc m \<Rightarrow> map_option ((#) c) (take_chars m s))"

lemma char_count_append [simp]: "char_count (a @ b) = char_count a + char_count b"
  by (simp add: char_count_def)

lemma take_chars_Some: "take_chars n s = Some t \<Longrightarrow> prefix t s \<and> char_count t = n"
  by (induction n s arbitrary: t rule: take_chars.induct)
    (auto simp: char_count_def split: if_splits nat.splits)

lemma take_chars_None: "take_chars n s = None \<longleftrightarrow> char_count s \<le> n"
  by (induction n s rule: take_chars.induct)
    (auto simp: char_count_def split: nat.splits)

lemma char_count_prefix: "prefix t s \<Longrightarrow> char_count t \<le> char_count s"
  by (auto simp: prefix_def)

section \<open>Interfaces provided\<close>

interpretation trimming: normaliser trim
  by unfold_locales simp

interpretation lowering: normaliser to_lower
  by unfold_locales simp

interpretation naming: normaliser name_key
  by unfold_locales simp

lemmas [str_eval] =
  contains_any_def ws1_def ws2_def ws3_def trim_def trim_start_def trim_end_def
  trim_with.simps to_lower_def to_upper_def eq_ignore_case_def name_key_def
  strip_prefix_def first_piece_def parse_unsigned_def is_alnum_def

end
