(* ===== verification/Json.thy ===== *)
theory Json
  imports Rust_Str
begin

text \<open>
  \<open>serde_json\<close> values as the sources use them. An object is a \<open>BTreeMap\<close>: the list of its
  fields in ascending key order, which \<open>obj_insert\<close> keeps (\<open>wf_json\<close> states it). Floats are
  carried by their 64 bits and never computed with. Parsing and printing of JSON text belong to
  the library and are parameters of the definitions that use them.
\<close>

datatype number = PosInt "64 word" | NegInt "64 word" | Float "64 word"

datatype json =
    JNull
  | JBool bool
  | JNum number
  | JStr str
  | JArr "json list"
  | JObj "(str \<times> json) list"

type_synonym fields = "(str \<times> json) list"

section \<open>Reading\<close>

fun as_str :: "json \<Rightarrow> str option" where
  "as_str (JStr s) = Some s"
| "as_str _ = None"

fun as_bool :: "json \<Rightarrow> bool option" where
  "as_bool (JBool b) = Some b"
| "as_bool _ = None"

fun as_array :: "json \<Rightarrow> json list option" where
  "as_array (JArr xs) = Some xs"
| "as_array _ = None"

fun as_object :: "json \<Rightarrow> fields option" where
  "as_object (JObj m) = Some m"
| "as_object _ = None"

fun as_i64 :: "json \<Rightarrow> int option" where
  "as_i64 (JNum (PosInt n)) = (if uint n < 2 ^ 63 then Some (uint n) else None)"
| "as_i64 (JNum (NegInt n)) = Some (sint n)"
| "as_i64 _ = None"

definition is_null :: "json \<Rightarrow> bool" where
  "is_null v \<longleftrightarrow> v = JNull"

text \<open>\<open>Value::get\<close> on a key: absent on anything but an object.\<close>

fun jget :: "json \<Rightarrow> str \<Rightarrow> json option" where
  "jget (JObj m) k = map_of m k"
| "jget _ k = None"

fun jget_path :: "json \<Rightarrow> str list \<Rightarrow> json option" where
  "jget_path v [] = Some v"
| "jget_path v (k # ks) = (case jget v k of None \<Rightarrow> None | Some w \<Rightarrow> jget_path w ks)"

text \<open>
  Equality of values is structural but for floats, where the two zeros are equal; a JSON number
  is never a NaN. An object's entries are compared in key order.
\<close>

definition float_zero :: "64 word \<Rightarrow> bool" where
  "float_zero b \<longleftrightarrow> b = 0 \<or> b = 0x8000000000000000"

fun number_eq :: "number \<Rightarrow> number \<Rightarrow> bool" where
  "number_eq (PosInt a) (PosInt b) = (a = b)"
| "number_eq (NegInt a) (NegInt b) = (a = b)"
| "number_eq (Float a) (Float b) = (a = b \<or> (float_zero a \<and> float_zero b))"
| "number_eq _ _ = False"

fun json_eq :: "json \<Rightarrow> json \<Rightarrow> bool" where
  "json_eq JNull JNull = True"
| "json_eq (JBool a) (JBool b) = (a = b)"
| "json_eq (JNum a) (JNum b) = number_eq a b"
| "json_eq (JStr a) (JStr b) = (a = b)"
| "json_eq (JArr xs) (JArr ys) = list_all2 json_eq xs ys"
| "json_eq (JObj m) (JObj n) = list_all2 (\<lambda>(k, v) (l, w). k = l \<and> json_eq v w) m n"
| "json_eq _ _ = False"

lemma number_eq_refl [simp]: "number_eq a a"
  by (cases a) auto

lemma json_eq_refl [simp]: "json_eq v v"
  by (induction v) (auto simp: list.rel_refl_strong list_all2_refl intro!: list.rel_refl_strong)

section \<open>Writing\<close>

fun obj_insert :: "str \<Rightarrow> json \<Rightarrow> fields \<Rightarrow> fields" where
  "obj_insert k v [] = [(k, v)]"
| "obj_insert k v ((a, w) # m) =
     (if k = a then (k, v) # m
      else if k < a then (k, v) # (a, w) # m
      else (a, w) # obj_insert k v m)"

text \<open>\<open>entry(k).or_insert(v)\<close>.\<close>

definition obj_or_insert :: "str \<Rightarrow> json \<Rightarrow> fields \<Rightarrow> fields" where
  "obj_or_insert k v m = (if map_of m k = None then obj_insert k v m else m)"

fun obj_remove :: "str \<Rightarrow> fields \<Rightarrow> fields" where
  "obj_remove k [] = []"
| "obj_remove k ((a, w) # m) = (if k = a then m else (a, w) # obj_remove k m)"

definition obj_of :: "(str \<times> json) list \<Rightarrow> fields" where
  "obj_of kvs = fold (\<lambda>(k, v). obj_insert k v) kvs []"

fun sorted_keys :: "fields \<Rightarrow> bool" where
  "sorted_keys [] = True"
| "sorted_keys ((k, v) # m) = ((\<forall>(a, w) \<in> set m. k < a) \<and> sorted_keys m)"

fun wf_json :: "json \<Rightarrow> bool" where
  "wf_json (JArr xs) = (\<forall>x \<in> set xs. wf_json x)"
| "wf_json (JObj m) = (sorted_keys m \<and> (\<forall>kv \<in> set m. wf_json (snd kv)))"
| "wf_json _ = True"

text \<open>Replace what is found along a path of keys; nothing changes when the path is broken.\<close>

fun jset_path :: "json \<Rightarrow> str list \<Rightarrow> json \<Rightarrow> json" where
  "jset_path v [] new = new"
| "jset_path v (k # ks) new =
     (case v of
        JObj m \<Rightarrow> (case map_of m k of
                    None \<Rightarrow> JObj m
                  | Some w \<Rightarrow> JObj (map (\<lambda>(a, x). (a, if a = k then jset_path w ks new else x)) m))
      | _ \<Rightarrow> v)"

section \<open>Laws\<close>

lemma jget_obj_Some: "jget v k = Some w \<Longrightarrow> \<exists>m. v = JObj m \<and> map_of m k = Some w"
  by (cases v) auto

lemma map_of_obj_insert [simp]: "map_of (obj_insert k v m) = (map_of m)(k \<mapsto> v)"
  by (induction k v m rule: obj_insert.induct) auto

lemma map_of_obj_or_insert:
  "map_of (obj_or_insert k v m) = (if map_of m k = None then (map_of m)(k \<mapsto> v) else map_of m)"
  by (simp add: obj_or_insert_def)

lemma sorted_keys_Cons_iff: "sorted_keys (kv # m) \<longleftrightarrow> (\<forall>x \<in> set m. fst kv < fst x) \<and> sorted_keys m"
  by (cases kv) auto

lemma set_obj_insert: "set (obj_insert k v m) \<subseteq> insert (k, v) (set m)"
  by (induction k v m rule: obj_insert.induct) auto

lemma sorted_keys_insert: "sorted_keys m \<Longrightarrow> sorted_keys (obj_insert k v m)"
proof (induction m)
  case (Cons x m)
  obtain a w where x: "x = (a, w)" by (cases x)
  have old: "\<forall>y \<in> set m. a < fst y" and IH: "sorted_keys (obj_insert k v m)"
    using Cons x by (auto simp: sorted_keys_Cons_iff)
  consider "k = a" | "k < a" | "a < k" by (metis linorder_cases)
  then show ?case
  proof cases
    case 3
    then have "\<forall>y \<in> set (obj_insert k v m). a < fst y"
      using set_obj_insert [of k v m] old by auto
    with 3 x IH show ?thesis by (auto simp: sorted_keys_Cons_iff)
  next
    case 2
    then have "\<forall>y \<in> set m. k < fst y" using old order.strict_trans by blast
    with 2 x Cons.prems show ?thesis by (auto simp: sorted_keys_Cons_iff)
  qed (use x Cons.prems in \<open>auto simp: sorted_keys_Cons_iff\<close>)
qed simp

lemma wf_obj_insert: "wf_json (JObj m) \<Longrightarrow> wf_json v \<Longrightarrow> wf_json (JObj (obj_insert k v m))"
  using set_obj_insert [of k v m] by (auto simp: sorted_keys_insert)

lemma wf_obj_or_insert:
  "wf_json (JObj m) \<Longrightarrow> wf_json v \<Longrightarrow> wf_json (JObj (obj_or_insert k v m))"
  using wf_obj_insert [of m v k] by (simp add: obj_or_insert_def)

lemma sorted_keys_distinct: "sorted_keys m \<Longrightarrow> distinct (map fst m)"
  by (induction m) (auto simp: sorted_keys_Cons_iff image_iff)

lemma wf_jget: "wf_json v \<Longrightarrow> jget v k = Some w \<Longrightarrow> wf_json w"
  by (cases v) (fastforce dest: map_of_SomeD)+

lemma sorted_keys_ext:
  "sorted_keys m \<Longrightarrow> sorted_keys n \<Longrightarrow> map_of m = map_of n \<Longrightarrow> m = n"
proof (induction m arbitrary: n)
  case Nil
  then show ?case by (metis list.exhaust map_of_eq_empty_iff)
next
  case (Cons a m)
  note Cm = Cons
  show ?case
  proof (cases n)
    case Nil
    with Cm show ?thesis by (metis list.distinct(1) map_of_eq_empty_iff)
  next
    case (Cons b n')
    obtain k v l w where ab: "a = (k, v)" "b = (l, w)" by (cases a; cases b)
    have fresh: "map_of m k = None" "map_of n' l = None"
      using Cm(2,3) ab Cons by (auto simp: map_of_eq_None_iff)
    have "k = l"
    proof (rule ccontr)
      assume "k \<noteq> l"
      with Cm(4) ab Cons have "map_of n' k = Some v" "map_of m l = Some w"
        by (auto dest: fun_cong [of _ _ k] fun_cong [of _ _ l])
      then have "l < k" "k < l"
        using Cm(2,3) ab Cons by (auto dest!: map_of_SomeD)
      then show False by simp
    qed
    moreover have "v = w" using Cm(4) ab Cons \<open>k = l\<close> by (auto dest: fun_cong [of _ _ l])
    moreover have "map_of m = map_of n'"
    proof
      fix x
      have "map_of (a # m) x = map_of (b # n') x" by (simp only: Cm(4) Cons)
      then show "map_of m x = map_of n' x"
        using fresh unfolding ab \<open>k = l\<close> by (cases "x = l") simp_all
    qed
    ultimately show ?thesis using Cm(1) [of n'] Cm(2,3) ab Cons by auto
  qed
qed

lemma jget_path_Cons_Some:
  "jget_path v (k # ks) = Some x \<longleftrightarrow> (\<exists>w. jget v k = Some w \<and> jget_path w ks = Some x)"
  by (auto split: option.splits)

lemma map_of_map_upd:
  "map_of (map (\<lambda>(a, x). (a, if a = k then y else x)) m) j =
     (if j = k then map_option (\<lambda>_. y) (map_of m k) else map_of m j)"
  by (induction m) auto

lemma jget_set_path: "jget_path v ks = Some old \<Longrightarrow> jget_path (jset_path v ks new) ks = Some new"
proof (induction ks arbitrary: v)
  case (Cons k ks)
  then obtain w where "jget v k = Some w" "jget_path w ks = Some old"
    by (auto split: option.splits)
  then show ?case using Cons.IH by (cases v) (auto simp: map_of_map_upd)
qed simp

lemma jset_path_same: "jget_path v ks = Some old \<Longrightarrow> wf_json v \<Longrightarrow> jset_path v ks old = v"
proof (induction ks arbitrary: v)
  case (Cons k ks)
  then obtain m w where m: "v = JObj m" "map_of m k = Some w" "jget_path w ks = Some old"
    by (auto split: option.splits dest!: jget_obj_Some)
  have "wf_json w" using wf_jget [of v k w] Cons.prems(2) m by simp
  then have w: "jset_path w ks old = w" using Cons.IH m by blast
  have "map (\<lambda>(a, x). (a, if a = k then w else x)) m = m"
  proof (rule map_idI)
    fix kv assume "kv \<in> set m"
    moreover have "distinct (map fst m)"
      using Cons.prems(2) m(1) by (simp add: sorted_keys_distinct)
    ultimately show "(case kv of (a, x) \<Rightarrow> (a, if a = k then w else x)) = kv"
      using m(2) by (auto split: prod.splits dest: eq_key_imp_eq_value)
  qed
  then show ?case by (simp add: m w cong: if_cong)
qed simp

lemmas [json_eval] = obj_or_insert_def obj_of_def is_null_def

end
