(* ===== verification/Errors.thy ===== *)
theory Errors
  imports Json
begin

text \<open>
  The crate's error type (\<open>crates/tinyconnectors/src/error/mod.rs\<close>) with its rendered
  messages. Fields are positional, in the order the source declares them.
\<close>

datatype error =
    Authorize str str
  | Transport str str
  | Decode str str
  | InvalidArguments str str
  | Archive str str
  | UnsupportedByRoute str str
  | ConnectionNotOwned str
  | TriggerNotOwned str
  | ListingIncomplete str nat
  | DirectAuthGated str
  | InsecureBaseUrl str str
  | InvalidNetworkConfig str
  | OauthRateLimited str str

type_synonym 'a res = "error + 'a"

fun error_text :: "error \<Rightarrow> str" where
  "error_text (Authorize toolkit message) = ''authorize failed for '' @ toolkit @ '': '' @ message"
| "error_text (Transport path message) = ''request to '' @ path @ '' failed: '' @ message"
| "error_text (Decode path message) =
     ''response from '' @ path @ '' did not match the contract: '' @ message"
| "error_text (InvalidArguments tool message) =
     ''invalid arguments for `'' @ tool @ ''`: '' @ message"
| "error_text (Archive path message) = ''trigger archive at '' @ path @ '' failed: '' @ message"
| "error_text (UnsupportedByRoute route member_name) =
     member_name @ '' is not available over the '' @ route @ '' route''"
| "error_text (ConnectionNotOwned connection_id) =
     ''connection '' @ connection_id @ '' belongs to another user''"
| "error_text (TriggerNotOwned trigger_id) =
     ''trigger '' @ trigger_id @ '' is not a subscription of this user''"
| "error_text (ListingIncomplete path limit) =
     ''listing '' @ path @ '' has more pages than the '' @ show_nat limit @ '' this route follows''"
| "error_text (DirectAuthGated message) = message"
| "error_text (InsecureBaseUrl base_url reason) =
     ''refusing to send a credential to '' @ base_url @ '': '' @ reason"
| "error_text (InvalidNetworkConfig reason) = ''invalid network settings: '' @ reason"
| "error_text (OauthRateLimited toolkit message) = message"

text \<open>A rendered failure contains the message it carries.\<close>

lemma error_text_Transport_contains: "contains (error_text (Transport path message)) message"
  by (simp only: error_text.simps contains_sublist sublist_append sublist_order.order_refl simp_thms)

lemma error_text_Authorize_contains: "contains (error_text (Authorize toolkit message)) message"
  by (simp only: error_text.simps contains_sublist sublist_append sublist_order.order_refl simp_thms)

end
