(* ===== verification/Prepare.thy ===== *)
theory Prepare
  imports Errors
begin

text \<open>
  Argument preparation before an action runs:
  \<open>crates/tinyconnectors/src/execute/{prepare,calendar}.rs\<close>. The printed form of a rejected
  JSON value is the library's; it is the parameter \<open>show_json\<close>.
\<close>

section \<open>Dates\<close>

definition is_leap :: "nat \<Rightarrow> bool" where
  "is_leap year \<longleftrightarrow> year mod 4 = 0 \<and> (year mod 100 \<noteq> 0 \<or> year mod 400 = 0)"

definition days_in_month :: "nat \<Rightarrow> nat \<Rightarrow> nat" where
  "days_in_month year month =
     (if List.member [1, 3, 5, 7, 8, 10, 12] month then 31
      else if List.member [4, 6, 9, 11] month then 30
      else if month = 2 \<and> is_leap year then 29
      else if month = 2 then 28
      else 0)"

definition is_calendar_date :: "str \<Rightarrow> bool" where
  "is_calendar_date t =
     (if length t \<noteq> 10 \<or> t ! 4 \<noteq> CHR ''-'' \<or> t ! 7 \<noteq> CHR ''-'' then False
      else case (parse_unsigned 32 (take 4 t), parse_unsigned 32 (take 2 (drop 5 t)),
                 parse_unsigned 32 (take 2 (drop 8 t))) of
        (Some year, Some month, Some day) \<Rightarrow>
          (if month < 1 \<or> 12 < month \<or> day = 0 then False else day \<le> days_in_month year month)
      | _ \<Rightarrow> False)"

section \<open>Calendar time bounds\<close>

definition normalize_rfc3339_bound :: "json \<Rightarrow> str option" where
  "normalize_rfc3339_bound v =
     (case as_str v of
        None \<Rightarrow> None
      | Some raw \<Rightarrow>
          (let t = trim raw in
           if t = [] then None
           else if List.member t CHR ''T'' then Some t
           else if is_calendar_date t then Some (t @ ''T00:00:00Z'')
           else None))"

definition invalid :: "str \<Rightarrow> str \<Rightarrow> error" where
  "invalid tool message = InvalidArguments tool message"

definition bound_message :: "str \<Rightarrow> str" where
  "bound_message key =
     ''time bound `'' @ key @ ''` must be an RFC 3339 timestamp '' @
     ''(e.g. 2026-05-14T00:00:00Z), not a bare date''"

definition time_bound_keys :: "str list" where
  "time_bound_keys = [''timeMin'', ''timeMax'', ''time_min'', ''time_max'']"

fun normalize_bounds :: "str \<Rightarrow> str list \<Rightarrow> fields \<Rightarrow> fields res" where
  "normalize_bounds tool [] m = Inr m"
| "normalize_bounds tool (key # keys) m =
     (case map_of m key of
        None \<Rightarrow> normalize_bounds tool keys m
      | Some v \<Rightarrow>
          (case normalize_rfc3339_bound v of
             Some t \<Rightarrow> normalize_bounds tool keys (obj_insert key (JStr t) m)
           | None \<Rightarrow>
               (if as_str v \<noteq> None then Inl (invalid tool (bound_message key))
                else normalize_bounds tool keys m)))"

definition normalize_calendar_time_bounds :: "str \<Rightarrow> fields \<Rightarrow> fields res" where
  "normalize_calendar_time_bounds tool m = normalize_bounds tool time_bound_keys m"

section \<open>Notion and Gmail rules\<close>

text \<open>A present string that is not blank, trimmed.\<close>

definition filled :: "json option \<Rightarrow> str option" where
  "filled v = opt_filter (\<lambda>t. t \<noteq> []) (map_option trim (Option.bind v as_str))"

definition inferred_fetch_type :: "fields \<Rightarrow> str" where
  "inferred_fetch_type m =
     (case filled (Option.bind (map_of m ''filter'')
             (\<lambda>f. or_else (jget f ''value'') (jget f ''property''))) of
        None \<Rightarrow> ''pages''
      | Some v \<Rightarrow>
          (if List.member [''page'', ''pages''] v then ''pages''
           else if List.member [''database'', ''databases''] v then ''databases''
           else v))"

definition ensure_notion_fetch_type :: "fields \<Rightarrow> fields" where
  "ensure_notion_fetch_type m =
     (if filled (or_else (map_of m ''fetch_type'') (map_of m ''fetchType'')) \<noteq> None then m
      else obj_insert ''fetch_type'' (JStr (inferred_fetch_type m)) m)"

definition any_filled :: "fields \<Rightarrow> str list \<Rightarrow> bool" where
  "any_filled m keys = list_ex (\<lambda>k. filled (map_of m k) \<noteq> None) keys"

definition no_recipient_message :: str where
  "no_recipient_message = ''`to` (or `recipient_email`) is required '' @
     [CHR 0xE2, CHR 0x80, CHR 0x94] @ '' cannot send without a recipient''"

definition validate_gmail_send_email :: "str \<Rightarrow> fields \<Rightarrow> unit res" where
  "validate_gmail_send_email tool m =
     (if any_filled m [''to'', ''recipient_email'', ''recipientEmail''] then Inr ()
      else Inl (invalid tool no_recipient_message))"

fun has_non_empty_string :: "json option \<Rightarrow> bool" where
  "has_non_empty_string (Some (JArr items)) = list_ex (\<lambda>i. filled (Some i) \<noteq> None) items"
| "has_non_empty_string (Some (JStr t)) = (trim t \<noteq> [])"
| "has_non_empty_string _ = False"

definition validate_gmail_add_label :: "str \<Rightarrow> fields \<Rightarrow> unit res" where
  "validate_gmail_add_label tool m =
     (if \<not> any_filled m [''message_id'', ''messageId'']
      then Inl (invalid tool ''`message_id` is required'')
      else if list_ex (\<lambda>k. has_non_empty_string (map_of m k))
             [''add_label_ids'', ''addLabelIds'', ''remove_label_ids'', ''removeLabelIds'']
      then Inr ()
      else Inl (invalid tool
        ''provide at least one non-empty label in `add_label_ids` or `remove_label_ids`''))"

section \<open>The whole preparation\<close>

definition argument_object :: "(json \<Rightarrow> str) \<Rightarrow> str \<Rightarrow> json option \<Rightarrow> fields res" where
  "argument_object show_json tool arguments =
     (case arguments of
        None \<Rightarrow> Inr []
      | Some JNull \<Rightarrow> Inr []
      | Some (JObj m) \<Rightarrow> Inr m
      | Some other \<Rightarrow>
          Inl (invalid tool (''arguments must be a JSON object, got '' @ show_json other)))"

definition checked_fields :: "str \<Rightarrow> fields \<Rightarrow> json res" where
  "checked_fields tool m =
     (if tool = ''NOTION_FETCH_DATA'' then Inr (JObj (ensure_notion_fetch_type m))
      else if tool = ''GMAIL_SEND_EMAIL'' then
        bind_result (validate_gmail_send_email tool m) (\<lambda>_. Inr (JObj m))
      else if tool = ''GMAIL_ADD_LABEL_TO_EMAIL'' then
        bind_result (validate_gmail_add_label tool m) (\<lambda>_. Inr (JObj m))
      else Inr (JObj m))"

definition prepare_execute_arguments :: "(json \<Rightarrow> str) \<Rightarrow> str \<Rightarrow> json option \<Rightarrow> json res" where
  "prepare_execute_arguments show_json tool0 arguments =
     (let tool = trim tool0 in
      bind_result (argument_object show_json tool arguments)
        (\<lambda>m0. bind_result
           (if prefix ''GOOGLECALENDAR_'' tool then normalize_calendar_time_bounds tool m0 else Inr m0)
           (checked_fields tool)))"

section \<open>Calendar query defaults\<close>

definition tz_defaulting_slugs :: "str list" where
  "tz_defaulting_slugs = [''GOOGLECALENDAR_EVENTS_LIST'', ''GOOGLECALENDAR_FIND_EVENT'']"

definition apply_calendar_query_defaults :: "str \<Rightarrow> json option \<Rightarrow> str \<Rightarrow> json option" where
  "apply_calendar_query_defaults tool arguments iana =
     (if \<not> List.member tz_defaulting_slugs tool then arguments
      else case unwrap_or (JObj []) arguments of
        JObj m \<Rightarrow>
          Some (JObj (obj_or_insert ''singleEvents'' (JBool True)
                       (obj_or_insert ''timeZone'' (JStr iana) m)))
      | v \<Rightarrow> Some v)"

section \<open>Laws\<close>

lemma as_str_Some [simp]: "as_str v = Some t \<longleftrightarrow> v = JStr t"
  by (cases v) auto

lemma filled_iff: "filled v \<noteq> None \<longleftrightarrow> (\<exists>t. v = Some (JStr t) \<and> trim t \<noteq> [])"
  by (cases v) (auto simp: filled_def opt_filter_def split: option.splits)

lemma any_filled_iff:
  "any_filled m keys \<longleftrightarrow> (\<exists>k \<in> set keys. \<exists>t. map_of m k = Some (JStr t) \<and> trim t \<noteq> [])"
  by (simp add: any_filled_def list_ex_iff filled_iff del: not_None_eq)

text \<open>A trimmed text followed by ASCII that is not white space is trimmed.\<close>

lemma skip_ws_app:
  assumes "skip_ws w2 w3 t = None" "high_only w2 w3" "t \<noteq> []" "solid c"
  shows "skip_ws w2 w3 (t @ c # r) = None"
  using assms
  by (induction w2 w3 t rule: skip_ws.induct)
    (cases r; auto simp: solid_def high_only_def split: if_splits)+

lemma trim_solid_tail:
  assumes "trim t = t" "t \<noteq> []" "solid c" "solid x"
  shows "trim (t @ c # p @ [x]) = t @ c # p @ [x]"
proof -
  have "skip_ws ws2 ws3 t = None"
    by (metis assms(1) trim_start_def trim_start_trim trim_with_skip)
  then have "trim_start (t @ c # p @ [x]) = t @ c # p @ [x]"
    by (intro trim_start_id skip_ws_app high_only_ws assms)
  moreover have "prefix ((t @ c # p) @ [x]) (trim_end ((t @ c # p) @ x # []))"
    by (rule trim_end_solid [OF assms(4)])
  then have "trim_end (t @ c # p @ [x]) = t @ c # p @ [x]"
    using trim_end_prefix [of "t @ c # p @ [x]"] by (simp add: prefix_order.antisym)
  ultimately show ?thesis by (simp add: trim_def)
qed

text \<open>An accepted bound is a trimmed text with a time part, and accepting it again changes nothing.\<close>

lemma bound_shape:
  assumes "normalize_rfc3339_bound v = Some t"
  shows "t \<noteq> []" "CHR ''T'' \<in> set t" "trim t = t"
proof -
  from assms obtain raw where raw: "v = JStr raw" "trim raw \<noteq> []"
    "(CHR ''T'' \<in> set (trim raw) \<and> t = trim raw) \<or> t = trim raw @ ''T00:00:00Z''"
    by (auto simp: normalize_rfc3339_bound_def Let_def split: option.splits if_splits)
  have "trim (trim raw @ CHR ''T'' # ''00:00:00'' @ [CHR ''Z'']) =
      trim raw @ CHR ''T'' # ''00:00:00'' @ [CHR ''Z'']"
    by (rule trim_solid_tail) (simp_all add: raw(2) solid_def ws1_def)
  with raw(2,3) show "t \<noteq> []" "CHR ''T'' \<in> set t" "trim t = t" by auto
qed

lemma bound_stable:
  assumes "normalize_rfc3339_bound v = Some t"
  shows "normalize_rfc3339_bound (JStr t) = Some t"
  using bound_shape [OF assms] by (simp add: normalize_rfc3339_bound_def)

definition settled :: "json \<Rightarrow> json" where
  "settled v = (case normalize_rfc3339_bound v of None \<Rightarrow> v | Some t \<Rightarrow> JStr t)"

lemma settled_settled [simp]: "settled (settled v) = settled v"
  by (auto simp: settled_def bound_stable split: option.splits)

definition bad_bound :: "json \<Rightarrow> bool" where
  "bad_bound v \<longleftrightarrow> normalize_rfc3339_bound v = None \<and> as_str v \<noteq> None"

lemma bad_bound_settled [simp]: "bad_bound (settled v) = bad_bound v"
  by (auto simp: settled_def bad_bound_def bound_stable split: option.splits)

lemma normalize_bounds_Inr:
  assumes "normalize_bounds tool keys m = Inr m'"
  shows "map_of m' k = (if k \<in> set keys then map_option settled (map_of m k) else map_of m k)"
  using assms
  by (induction tool keys m rule: normalize_bounds.induct)
    (auto simp: settled_def bound_stable split: option.splits if_splits)

lemma normalize_bounds_ok_iff:
  "(\<exists>m'. normalize_bounds tool keys m = Inr m') \<longleftrightarrow>
     (\<forall>k \<in> set keys. \<forall>v. map_of m k = Some v \<longrightarrow> \<not> bad_bound v)"
proof (induction tool keys m rule: normalize_bounds.induct)
  case (2 tool key keys m)
  show ?case
  proof (cases "map_of m key")
    case None
    with 2 show ?thesis by auto
  next
    case (Some v)
    then show ?thesis
      using 2 by (cases "normalize_rfc3339_bound v")
        (auto simp: bad_bound_def bound_stable split: if_splits)
  qed
qed simp

lemma normalize_bounds_wf:
  assumes "normalize_bounds tool keys m = Inr m'" "wf_json (JObj m)"
  shows "wf_json (JObj m')"
  using assms
  by (induction tool keys m rule: normalize_bounds.induct)
    (auto simp del: wf_json.simps(2) simp: wf_obj_insert split: option.splits if_splits)

text \<open>Where every bound is already settled, nothing changes.\<close>

lemma normalize_bounds_stable:
  assumes "normalize_bounds tool keys m = Inr m'" "wf_json (JObj m)"
  shows "normalize_bounds tool' keys m' = Inr m'"
proof -
  note K = normalize_bounds_Inr [OF assms(1)]
  have "\<forall>k \<in> set keys. \<forall>v. map_of m' k = Some v \<longrightarrow> \<not> bad_bound v"
    using normalize_bounds_ok_iff [of tool keys m] assms(1) K by auto
  then obtain m'' where m'': "normalize_bounds tool' keys m' = Inr m''"
    using normalize_bounds_ok_iff by blast
  have "map_of m'' = map_of m'"
    by (rule ext) (auto simp: normalize_bounds_Inr [OF m''] K option.map_comp o_def)
  moreover have "wf_json (JObj m'')" "wf_json (JObj m')"
    using normalize_bounds_wf assms m'' by blast+
  ultimately have "m'' = m'" by (simp add: sorted_keys_ext)
  with m'' show ?thesis by simp
qed

lemma fetch_type_stable:
  assumes "filled (or_else (map_of m ''fetch_type'') (map_of m ''fetchType'')) \<noteq> None"
  shows "ensure_notion_fetch_type m = m"
  using assms by (simp add: ensure_notion_fetch_type_def)

lemma inferred_fetch_type_filled: "trim (inferred_fetch_type m) \<noteq> []"
proof -
  have "filled v = Some t \<Longrightarrow> trim t = t \<and> t \<noteq> []" for v t
    by (auto simp: filled_def opt_filter_Some_iff)
  moreover have "trim ''pages'' \<noteq> []" "trim ''databases'' \<noteq> []" by code_simp+
  ultimately show ?thesis
    by (auto simp: inferred_fetch_type_def split: option.splits)
qed

lemma ensure_notion_idem [simp]:
  "ensure_notion_fetch_type (ensure_notion_fetch_type m) = ensure_notion_fetch_type m"
proof (cases "filled (or_else (map_of m ''fetch_type'') (map_of m ''fetchType'')) \<noteq> None")
  case False
  then have e: "ensure_notion_fetch_type m =
      obj_insert ''fetch_type'' (JStr (inferred_fetch_type m)) m"
    by (simp add: ensure_notion_fetch_type_def)
  show ?thesis
    by (rule fetch_type_stable) (simp add: e filled_iff inferred_fetch_type_filled del: not_None_eq)
qed (simp add: fetch_type_stable)

text \<open>
  The accepted part of a preparation: the fields the caller sent, and the object returned for
  them, one case per family of actions.
\<close>

definition sent_fields :: "json option \<Rightarrow> fields" where
  "sent_fields arguments = (case arguments of Some (JObj m) \<Rightarrow> m | _ \<Rightarrow> [])"

definition is_sendable :: "json option \<Rightarrow> bool" where
  "is_sendable arguments =
     (case arguments of None \<Rightarrow> True | Some JNull \<Rightarrow> True | Some (JObj m) \<Rightarrow> True | _ \<Rightarrow> False)"

lemma argument_object_sent:
  "is_sendable arguments \<Longrightarrow> argument_object show_json tool arguments = Inr (sent_fields arguments)"
  "\<not> is_sendable arguments \<Longrightarrow>
     \<exists>msg. argument_object show_json tool arguments = Inl (InvalidArguments tool msg)"
  by (auto simp: argument_object_def is_sendable_def sent_fields_def invalid_def
      split: option.splits json.splits)

lemma prepare_unfold:
  "is_sendable arguments \<Longrightarrow> prepare_execute_arguments show_json tool arguments =
     bind_result
       (if prefix ''GOOGLECALENDAR_'' (trim tool)
        then normalize_bounds (trim tool) time_bound_keys (sent_fields arguments)
        else Inr (sent_fields arguments))
       (checked_fields (trim tool))"
  unfolding prepare_execute_arguments_def Let_def
  by (simp only: argument_object_sent bind_result.simps normalize_calendar_time_bounds_def)

lemma refused_invalid:
  assumes "\<not> is_sendable arguments"
  shows "\<exists>msg. prepare_execute_arguments show_json tool arguments = Inl (InvalidArguments (trim tool) msg)"
proof -
  obtain msg where "argument_object show_json (trim tool) arguments = Inl (InvalidArguments (trim tool) msg)"
    using argument_object_sent(2) [OF assms] by blast
  then have "prepare_execute_arguments show_json tool arguments = Inl (InvalidArguments (trim tool) msg)"
    unfolding prepare_execute_arguments_def Let_def by (simp only: bind_result.simps)
  then show ?thesis by blast
qed

lemma prepare_sendable:
  "prepare_execute_arguments show_json tool arguments = Inr v \<Longrightarrow> is_sendable arguments"
  using refused_invalid [of arguments show_json tool] by fastforce

lemma calendar_checked: "prefix ''GOOGLECALENDAR_'' tool \<Longrightarrow> checked_fields tool m = Inr (JObj m)"
proof -
  assume "prefix ''GOOGLECALENDAR_'' tool"
  moreover have "\<not> prefix ''GOOGLECALENDAR_'' ''NOTION_FETCH_DATA''"
    "\<not> prefix ''GOOGLECALENDAR_'' ''GMAIL_SEND_EMAIL''"
    "\<not> prefix ''GOOGLECALENDAR_'' ''GMAIL_ADD_LABEL_TO_EMAIL''" by code_simp+
  ultimately have "tool \<noteq> ''NOTION_FETCH_DATA''" "tool \<noteq> ''GMAIL_SEND_EMAIL''"
    "tool \<noteq> ''GMAIL_ADD_LABEL_TO_EMAIL''" by blast+
  then show ?thesis by (simp only: checked_fields_def if_False)
qed

lemma sent_JObj [simp]: "sent_fields (Some (JObj m)) = m" "is_sendable (Some (JObj m))"
  by (simp_all add: sent_fields_def is_sendable_def)

lemma prepare_cases:
  assumes "prepare_execute_arguments show_json tool arguments = Inr v"
  obtains m where "v = JObj m" "prefix ''GOOGLECALENDAR_'' (trim tool)"
      "normalize_bounds (trim tool) time_bound_keys (sent_fields arguments) = Inr m"
  | "\<not> prefix ''GOOGLECALENDAR_'' (trim tool)"
      "checked_fields (trim tool) (sent_fields arguments) = Inr v"
proof -
  have "is_sendable arguments" using assms by (rule prepare_sendable)
  with assms that show thesis
    by (cases "prefix ''GOOGLECALENDAR_'' (trim tool)")
      (auto simp only: prepare_unfold if_True if_False bind_result.simps bind_result_Inr
        calendar_checked sum.inject)
qed

lemma checked_Inr:
  assumes "checked_fields tool m = Inr v"
  shows "v = JObj m \<or> v = JObj (ensure_notion_fetch_type m)"
  using assms by (auto simp: checked_fields_def split: if_splits)

lemma checked_again:
  assumes "checked_fields tool m = Inr v"
  shows "\<exists>n. v = JObj n \<and> checked_fields tool n = Inr v"
  using assms by (auto simp: checked_fields_def split: if_splits)

lemma prepare_again:
  assumes "prepare_execute_arguments show_json tool arguments = Inr v"
    and "wf_json (JObj (sent_fields arguments))"
  shows "prepare_execute_arguments show_json tool (Some v) = Inr v"
  using assms(1)
proof (cases rule: prepare_cases)
  case (1 m)
  then show ?thesis
    using normalize_bounds_stable [OF 1(3) assms(2)] by (simp add: prepare_unfold calendar_checked)
next
  case 2
  then show ?thesis using checked_again [OF 2(2)] by (auto simp: prepare_unfold)
qed

lemma ensure_notion_frame:
  "dom (map_of m) \<subseteq> dom (map_of (ensure_notion_fetch_type m))"
  "k \<noteq> ''fetch_type'' \<Longrightarrow> map_of (ensure_notion_fetch_type m) k = map_of m k"
  by (auto simp: ensure_notion_fetch_type_def)

lemma prepare_frame:
  assumes "prepare_execute_arguments show_json tool arguments = Inr v"
  shows "\<exists>m. v = JObj m \<and> dom (map_of (sent_fields arguments)) \<subseteq> dom (map_of m) \<and>
    (\<forall>k. k \<notin> set time_bound_keys \<longrightarrow> k \<noteq> ''fetch_type'' \<longrightarrow>
       map_of m k = map_of (sent_fields arguments) k)"
  using assms
proof (cases rule: prepare_cases)
  case (1 m)
  have "map_of m k = None \<longleftrightarrow> map_of (sent_fields arguments) k = None" for k
    using normalize_bounds_Inr [OF 1(3), of k] by simp
  then have "dom (map_of (sent_fields arguments)) \<subseteq> dom (map_of m)"
    unfolding dom_def by (simp del: not_None_eq)
  with 1 normalize_bounds_Inr [OF 1(3)] show ?thesis by auto
next
  case 2
  from checked_Inr [OF 2(2)] show ?thesis
    using ensure_notion_frame by (elim disjE) (blast | simp)+
qed

lemma ensure_notion_wf: "wf_json (JObj m) \<Longrightarrow> wf_json (JObj (ensure_notion_fetch_type m))"
  using wf_obj_insert [of m "JStr (inferred_fetch_type m)"]
  by (simp add: ensure_notion_fetch_type_def del: wf_json.simps(2))

lemma prepare_wf:
  assumes "prepare_execute_arguments show_json tool arguments = Inr v"
    and "wf_json (JObj (sent_fields arguments))"
  shows "wf_json v"
  using assms(1)
proof (cases rule: prepare_cases)
  case (1 m)
  then show ?thesis using normalize_bounds_wf assms(2) by blast
next
  case 2
  from checked_Inr [OF 2(2)] show ?thesis using assms(2) ensure_notion_wf by metis
qed

section \<open>Properties\<close>

text \<open>
  C34. Preparing arguments is safe to repeat and touches only what it says: an accepted call
  yields an object, keeps every key the caller sent, changes no field but the four time bounds
  and Notion's \<open>fetch_type\<close>, keeps the object's fields in key order, and preparing its own
  result again returns that result unchanged.
\<close>

theorem prepare_frame_idempotent:
  assumes "prepare_execute_arguments show_json tool arguments = Inr v"
    and "wf_json (JObj (sent_fields arguments))"
  shows "(\<exists>m. v = JObj m \<and> dom (map_of (sent_fields arguments)) \<subseteq> dom (map_of m) \<and>
      (\<forall>k. k \<notin> set time_bound_keys \<longrightarrow> k \<noteq> ''fetch_type'' \<longrightarrow>
         map_of m k = map_of (sent_fields arguments) k)) \<and>
    wf_json v \<and> prepare_execute_arguments show_json tool (Some v) = Inr v"
  using prepare_frame [OF assms(1)] prepare_wf [OF assms] prepare_again [OF assms] by blast

theorem prepare_frame_idempotent_witness:
  "prepare_execute_arguments (\<lambda>_. []) '' GOOGLECALENDAR_EVENTS_LIST ''
     (Some (JObj [(''q'', JNull), (''timeMin'', JStr '' 2026-05-14T00:00:00Z'')])) =
     Inr (JObj [(''q'', JNull), (''timeMin'', JStr ''2026-05-14T00:00:00Z'')]) \<and>
   prepare_execute_arguments (\<lambda>_. []) '' GOOGLECALENDAR_EVENTS_LIST ''
     (Some (JObj [(''q'', JNull), (''timeMin'', JStr ''2026-05-14T00:00:00Z'')])) =
     Inr (JObj [(''q'', JNull), (''timeMin'', JStr ''2026-05-14T00:00:00Z'')])"
proof -
  have a: "prepare_execute_arguments (\<lambda>_. []) '' GOOGLECALENDAR_EVENTS_LIST ''
     (Some (JObj [(''q'', JNull), (''timeMin'', JStr '' 2026-05-14T00:00:00Z'')])) =
     Inr (JObj [(''q'', JNull), (''timeMin'', JStr ''2026-05-14T00:00:00Z'')])" by code_simp
  have "wf_json (JObj (sent_fields
     (Some (JObj [(''q'', JNull), (''timeMin'', JStr '' 2026-05-14T00:00:00Z'')]))))" by code_simp
  from prepare_frame_idempotent [OF a this] a show ?thesis by blast
qed

text \<open>
  An e-mail is never sent without a recipient: \<open>GMAIL_SEND_EMAIL\<close> is accepted exactly
  when the arguments are an object in which one of the three recipient keys is a text that is
  not blank, the accepted arguments are the caller's own, and every refusal is
  \<open>InvalidArguments\<close> naming the action.
\<close>

lemma not_calendar_send: "\<not> prefix ''GOOGLECALENDAR_'' ''GMAIL_SEND_EMAIL''"
  "''GMAIL_SEND_EMAIL'' \<noteq> ''NOTION_FETCH_DATA''"
  by code_simp+

lemma checked_send:
  "checked_fields ''GMAIL_SEND_EMAIL'' m =
     (if any_filled m [''to'', ''recipient_email'', ''recipientEmail''] then Inr (JObj m)
      else Inl (InvalidArguments ''GMAIL_SEND_EMAIL'' no_recipient_message))"
  unfolding checked_fields_def validate_gmail_send_email_def invalid_def
  by (cases "any_filled m [''to'', ''recipient_email'', ''recipientEmail'']")
    (simp_all only: not_calendar_send if_False if_True refl bind_result.simps)

theorem gmail_send_needs_recipient:
  assumes "trim tool = ''GMAIL_SEND_EMAIL''"
  shows "(prepare_execute_arguments show_json tool arguments = Inr v \<longleftrightarrow>
      (\<exists>m. arguments = Some (JObj m) \<and> v = JObj m \<and>
        (\<exists>k \<in> {''to'', ''recipient_email'', ''recipientEmail''}. \<exists>t.
           map_of m k = Some (JStr t) \<and> trim t \<noteq> []))) \<and>
    (prepare_execute_arguments show_json tool arguments = Inl e \<longrightarrow>
      (\<exists>msg. e = InvalidArguments ''GMAIL_SEND_EMAIL'' msg))"
proof -
  let ?keys = "[''to'', ''recipient_email'', ''recipientEmail'']"
  have run: "prepare_execute_arguments show_json tool arguments =
      (if any_filled (sent_fields arguments) ?keys then Inr (JObj (sent_fields arguments))
       else Inl (InvalidArguments ''GMAIL_SEND_EMAIL'' no_recipient_message))"
    if "is_sendable arguments"
    using that
    by (simp only: prepare_unfold assms not_calendar_send if_False bind_result.simps checked_send)
  have keys: "set ?keys = {''to'', ''recipient_email'', ''recipientEmail''}" by simp
  have none: "\<not> any_filled [] ks" for ks by (simp add: any_filled_iff)
  have "prepare_execute_arguments show_json tool arguments = Inr v \<longleftrightarrow>
      (\<exists>m. arguments = Some (JObj m) \<and> v = JObj m \<and>
        (\<exists>k \<in> {''to'', ''recipient_email'', ''recipientEmail''}. \<exists>t.
           map_of m k = Some (JStr t) \<and> trim t \<noteq> []))"
  proof (cases "is_sendable arguments")
    case True
    then have "sent_fields arguments = [] \<or> arguments = Some (JObj (sent_fields arguments))"
      by (auto simp: is_sendable_def sent_fields_def split: option.splits json.splits)
    then show ?thesis
      unfolding run [OF True] keys [symmetric] any_filled_iff [symmetric] using none by auto
  next
    case False
    with prepare_sendable show ?thesis by fastforce
  qed
  moreover have "prepare_execute_arguments show_json tool arguments = Inl e \<Longrightarrow>
      \<exists>msg. e = InvalidArguments ''GMAIL_SEND_EMAIL'' msg"
    using refused_invalid [of arguments show_json tool] run assms
    by (cases "is_sendable arguments") (auto split: if_splits)
  ultimately show ?thesis by blast
qed

theorem gmail_send_needs_recipient_witness:
  "trim '' GMAIL_SEND_EMAIL'' = ''GMAIL_SEND_EMAIL'' \<and>
   prepare_execute_arguments (\<lambda>_. []) '' GMAIL_SEND_EMAIL'' (Some (JObj [(''to'', JStr ''a'')])) =
     Inr (JObj [(''to'', JStr ''a'')])"
proof -
  have t: "trim '' GMAIL_SEND_EMAIL'' = ''GMAIL_SEND_EMAIL''" by code_simp
  have "map_of [(''to'', JStr ''a'')] ''to'' = Some (JStr ''a'')" "trim ''a'' \<noteq> []" by code_simp+
  then have "\<exists>k \<in> {''to'', ''recipient_email'', ''recipientEmail''}. \<exists>t.
      map_of [(''to'', JStr ''a'')] k = Some (JStr t) \<and> trim t \<noteq> []" by blast
  then show ?thesis using gmail_send_needs_recipient [OF t] t by blast
qed

text \<open>
  The calendar defaults never override the caller: on the two listing actions the result has
  exactly the caller's fields plus \<open>singleEvents\<close> and \<open>timeZone\<close> where the caller left them out,
  on every other action the arguments are returned as they came, and a second application, with
  whatever time zone, changes nothing more.
\<close>

lemma or_insert_twice:
  "map_of m k \<noteq> None \<Longrightarrow> obj_or_insert k v m = m"
  by (auto simp add: obj_or_insert_def)

theorem calendar_defaults_yield:
  "\<exists>m'. apply_calendar_query_defaults tool (Some (JObj m)) iana = Some (JObj m') \<and>
     map_of m' =
       (if tool = ''GOOGLECALENDAR_EVENTS_LIST'' \<or> tool = ''GOOGLECALENDAR_FIND_EVENT''
        then [''singleEvents'' \<mapsto> JBool True, ''timeZone'' \<mapsto> JStr iana] else Map.empty) ++ map_of m \<and>
     apply_calendar_query_defaults tool (Some (JObj m')) iana' = Some (JObj m')"
proof (cases "List.member tz_defaulting_slugs tool")
  case False
  then show ?thesis
    by (simp add: apply_calendar_query_defaults_def)
      (simp add: tz_defaulting_slugs_def)
next
  case True
  then have t: "tool = ''GOOGLECALENDAR_EVENTS_LIST'' \<or> tool = ''GOOGLECALENDAR_FIND_EVENT''"
    by (simp add: tz_defaulting_slugs_def)
  let ?m = "obj_or_insert ''singleEvents'' (JBool True) (obj_or_insert ''timeZone'' (JStr iana) m)"
  have run: "apply_calendar_query_defaults tool (Some (JObj n)) z =
      Some (JObj (obj_or_insert ''singleEvents'' (JBool True) (obj_or_insert ''timeZone'' (JStr z) n)))"
    for n z using True by (simp add: apply_calendar_query_defaults_def)
  have m: "map_of ?m = [''singleEvents'' \<mapsto> JBool True, ''timeZone'' \<mapsto> JStr iana] ++ map_of m"
    by (rule ext) (auto simp: map_of_obj_or_insert map_add_def split: option.splits)
  have "map_of ?m ''timeZone'' \<noteq> None" "map_of ?m ''singleEvents'' \<noteq> None"
    unfolding m by (auto simp: map_add_def split: option.splits)
  then have "obj_or_insert ''singleEvents'' (JBool True) (obj_or_insert ''timeZone'' (JStr iana') ?m) = ?m"
    by (metis or_insert_twice)
  then show ?thesis using t m unfolding run by (intro exI [of _ ?m]) simp
qed

text \<open>
  A date is checked against the Gregorian calendar: for a text of four, two and two digits the
  test says exactly that the day exists, and the months of a year have 365 days together, 366 in
  a leap year. Signs are let through too: a plus sign is accepted in the place of a leading digit.
\<close>

lemma days_sum: "sum_list (map (days_in_month y) [1..<13]) = (if is_leap y then 366 else 365)"
  by (simp add: days_in_month_def upt_rec)

lemma plus_not_digit [simp]: "\<not> is_digit CHR ''+''" "is_digit c \<Longrightarrow> c \<noteq> CHR ''+''"
  by (auto)

lemma digit_val_bound: "is_digit c \<Longrightarrow> digit_val c < 10"
  by (cases c) auto

theorem calendar_date_exact:
  assumes "list_all is_digit [a, b, c, d, m1, m2, d1, d2]"
  shows "(let year = 1000 * digit_val a + 100 * digit_val b + 10 * digit_val c + digit_val d;
          month = 10 * digit_val m1 + digit_val m2; day = 10 * digit_val d1 + digit_val d2
      in is_calendar_date [a, b, c, d, CHR ''-'', m1, m2, CHR ''-'', d1, d2] \<longleftrightarrow>
           1 \<le> month \<and> month \<le> 12 \<and> 1 \<le> day \<and> day \<le> days_in_month year month) \<and>
    sum_list (map (days_in_month y) [1..<13]) = (if is_leap y then 366 else 365) \<and>
    is_calendar_date [CHR ''+'', b, c, d, CHR ''-'', CHR ''+'', m2, CHR ''-'', CHR ''+'', d2] =
      (digit_val m2 \<noteq> 0 \<and> digit_val d2 \<noteq> 0)"
proof -
  have bounds: "digit_val a < 10" "digit_val b < 10" "digit_val c < 10" "digit_val d < 10"
    "digit_val m1 < 10" "digit_val m2 < 10" "digit_val d1 < 10" "digit_val d2 < 10"
    using assms digit_val_bound by auto
  have two: "parse_unsigned 32 [x, y] = Some (10 * digit_val x + digit_val y)"
    if "is_digit x" "is_digit y" for x y
    using that digit_val_bound [of x] digit_val_bound [of y] by (auto simp: parse_unsigned_def)
  have four: "parse_unsigned 32 [a, b, c, d] =
      Some (1000 * digit_val a + 100 * digit_val b + 10 * digit_val c + digit_val d)"
    using assms bounds by (auto simp: parse_unsigned_def)
  have plus1: "parse_unsigned 32 [CHR ''+'', y] = Some (digit_val y)" if "is_digit y" for y
    using that digit_val_bound [of y] by (simp add: parse_unsigned_def)
  have plus3: "parse_unsigned 32 [CHR ''+'', b, c, d] =
      Some (100 * digit_val b + 10 * digit_val c + digit_val d)"
    using assms bounds by (simp add: parse_unsigned_def)
  have ge: "10 \<le> days_in_month y mo" if "1 \<le> mo" "mo \<le> 12" for mo y :: nat
  proof -
    from that have "mo = 1 \<or> mo = 2 \<or> mo = 3 \<or> mo = 4 \<or> mo = 5 \<or> mo = 6 \<or> mo = 7 \<or> mo = 8 \<or>
      mo = 9 \<or> mo = 10 \<or> mo = 11 \<or> mo = 12" by presburger
    then show ?thesis by (elim disjE) (simp_all add: days_in_month_def)
  qed
  have "is_calendar_date [a, b, c, d, CHR ''-'', m1, m2, CHR ''-'', d1, d2] \<longleftrightarrow>
      1 \<le> month \<and> month \<le> 12 \<and> 1 \<le> day \<and> day \<le> days_in_month year month"
    if "year = 1000 * digit_val a + 100 * digit_val b + 10 * digit_val c + digit_val d"
      "month = 10 * digit_val m1 + digit_val m2" "day = 10 * digit_val d1 + digit_val d2"
    for year month day
    using assms unfolding that by (auto simp: is_calendar_date_def two four)
  moreover have "is_calendar_date [CHR ''+'', b, c, d, CHR ''-'', CHR ''+'', m2, CHR ''-'', CHR ''+'', d2] =
      (digit_val m2 \<noteq> 0 \<and> digit_val d2 \<noteq> 0)"
    using assms bounds
      ge [of "digit_val m2" "100 * digit_val b + 10 * digit_val c + digit_val d"]
    by (auto simp: is_calendar_date_def plus1 plus3)
  ultimately show ?thesis using days_sum [of y] by (simp add: Let_def)
qed

theorem calendar_date_exact_witness:
  "list_all is_digit [CHR ''2'', CHR ''0'', CHR ''2'', CHR ''4'', CHR ''0'', CHR ''2'', CHR ''2'', CHR ''9''] \<and>
   is_calendar_date ''+024-+2-+9''"
proof -
  have d: "list_all is_digit [CHR ''2'', CHR ''0'', CHR ''2'', CHR ''4'', CHR ''0'', CHR ''2'', CHR ''2'', CHR ''9'']"
    by code_simp
  then show ?thesis using calendar_date_exact [OF d] by (simp add: Let_def)
qed

end
