(* ===== verification/Classify.thy ===== *)
theory Classify
  imports Rust_Str
begin

text \<open>
  Classifying a reported failure and rendering it for the user:
  \<open>crates/tinyconnectors/src/execute/classify.rs\<close>. The order of the tests is the design.
\<close>

datatype error_class =
    Validation | InsufficientScope | TriggerPermission | RateLimited | ActionNotFound
  | UpstreamProvider | ComposioPlatform | Gateway | Other

fun class_name :: "error_class \<Rightarrow> str" where
  "class_name Validation = ''validation''"
| "class_name InsufficientScope = ''insufficient_scope''"
| "class_name TriggerPermission = ''trigger_permission''"
| "class_name RateLimited = ''rate_limited''"
| "class_name ActionNotFound = ''action_not_found''"
| "class_name UpstreamProvider = ''upstream_provider''"
| "class_name ComposioPlatform = ''composio_platform''"
| "class_name Gateway = ''gateway''"
| "class_name Other = ''other''"

definition is_transient :: "error_class \<Rightarrow> bool" where
  "is_transient c \<longleftrightarrow> c = RateLimited \<or> c = Gateway"

definition is_validation :: "str \<Rightarrow> bool" where
  "is_validation lower = contains_any lower
     [''invalid arguments'', ''missing required'', ''must not be empty'', ''required field'',
      ''bad request'', ''invalid date'', ''rfc 3339'', ''timemax'', ''timemin'']"

definition is_insufficient_scope :: "str \<Rightarrow> bool" where
  "is_insufficient_scope lower \<longleftrightarrow>
     contains lower ''insufficient authentication scopes'' \<or>
     contains lower ''insufficient scope'' \<or>
     contains lower ''insufficient permissions'' \<or>
     contains lower ''invalid oauth scope'' \<or>
     (contains lower ''403'' \<and> contains lower ''scope'')"

definition is_trigger_permission :: "str \<Rightarrow> bool" where
  "is_trigger_permission lower \<longleftrightarrow>
     (contains lower ''403'' \<or> contains lower ''forbidden'') \<and>
     contains_any lower [''do not have permission'', ''not have permission'', ''permission denied'',
       ''not permitted'', ''not allowed''] \<and>
     contains lower ''trigger''"

definition is_rate_limited :: "str \<Rightarrow> bool" where
  "is_rate_limited lower = contains_any lower
     [''rate limit'', ''rate_limit'', ''ratelimited'', ''too many requests'', ''429'']"

definition is_action_not_found :: "str \<Rightarrow> bool" where
  "is_action_not_found lower \<longleftrightarrow> contains lower ''http 404'' \<or> contains lower ''http 410''"

definition is_composio_platform :: "str \<Rightarrow> bool" where
  "is_composio_platform lower = contains_any lower
     [''connection error, try to authenticate'', ''not enabled'', ''not connected'', ''token revoked'']"

definition is_gateway :: "str \<Rightarrow> bool" where
  "is_gateway lower \<longleftrightarrow>
     list_ex (\<lambda>code. contains lower (''backend returned '' @ code) \<or>
                     contains lower (''('' @ code @ '' '')) [''502'', ''503'', ''504''] \<or>
     contains lower ''502 bad gateway''"

definition is_embedded_provider_failure :: "str \<Rightarrow> bool" where
  "is_embedded_provider_failure lower \<longleftrightarrow>
     is_validation lower \<or> is_insufficient_scope lower \<or> is_trigger_permission lower \<or>
     is_rate_limited lower \<or> is_action_not_found lower \<or> is_composio_platform lower \<or>
     contains_any lower [''composio'', ''google'', ''slack'', ''notion'', ''gmail'', ''fetch_type'']"

definition is_known_toolkit_action :: "str \<Rightarrow> bool" where
  "is_known_toolkit_action tool =
     list_ex (\<lambda>p. prefix p tool) [''GMAIL_'', ''SLACK_'', ''NOTION_'', ''GOOGLECALENDAR_'']"

definition classify_composio_error :: "str \<Rightarrow> str \<Rightarrow> error_class" where
  "classify_composio_error tool message =
     (let lower = to_lower message in
      if is_action_not_found lower then ActionNotFound
      else if is_validation lower then Validation
      else if is_insufficient_scope lower then InsufficientScope
      else if is_trigger_permission lower then TriggerPermission
      else if is_rate_limited lower then RateLimited
      else if is_gateway lower \<and> \<not> is_embedded_provider_failure lower then Gateway
      else if is_composio_platform lower then ComposioPlatform
      else if is_known_toolkit_action tool then UpstreamProvider
      else Other)"

section \<open>Messages\<close>

definition toolkit_of :: "str \<Rightarrow> str" where
  "toolkit_of tool = to_lower (first_piece CHR ''_'' tool)"

definition arrow :: str where "arrow = [CHR 0xE2, CHR 0x86, CHR 0x92]"

definition dash :: str where "dash = [CHR 0xE2, CHR 0x80, CHR 0x94]"

definition tick :: "str \<Rightarrow> str" where "tick s = ''`'' @ s @ ''`''"

definition insufficient_scope_message :: "str \<Rightarrow> str \<Rightarrow> str" where
  "insufficient_scope_message tool detail =
     (let toolkit = toolkit_of tool in
      tick tool @ '' was rejected because the connected '' @ toolkit @
      '' account is missing required permissions ('' @ detail @
      ''). Reconnect the integration in Connections '' @ arrow @ '' '' @ toolkit @
      '' and grant the scopes requested during OAuth.'')"

definition trigger_permission_message :: "str \<Rightarrow> str" where
  "trigger_permission_message tool =
     (let toolkit = toolkit_of tool in
      ''Couldn'' @ [CHR 0x27] @ ''t enable this trigger: the connected '' @ toolkit @
      '' account doesn'' @ [CHR 0x27] @ ''t have permission to manage triggers. Reconnect '' @
      toolkit @ '' in Connections '' @ arrow @ '' '' @ toolkit @
      '' and grant the permissions requested during OAuth, then try again.'')"

definition action_not_found_message :: "str \<Rightarrow> str" where
  "action_not_found_message tool =
     (let toolkit = toolkit_of tool in
      tick tool @ '' couldn'' @ [CHR 0x27] @
      ''t run: Composio reported this action as not found. Your '' @ toolkit @
      '' integration is still connected and working '' @ dash @
      '' this is not a sign-in problem. The action name is likely out of date or Composio'' @
      [CHR 0x27] @
      ''s API changed; try again with the current action name, or report this if it keeps happening.'')"

definition rate_limited_message :: "str \<Rightarrow> str \<Rightarrow> str" where
  "rate_limited_message tool detail =
     tick tool @ '' hit an upstream rate limit ('' @ detail @
     ''). Wait a minute and retry, or reduce call frequency '' @ dash @
     '' this is not a gateway outage.''"

definition failure_body :: "str \<Rightarrow> error_class \<Rightarrow> str \<Rightarrow> str" where
  "failure_body tool cls detail =
     (case cls of
        Validation \<Rightarrow> ''Invalid arguments for '' @ tick tool @ '': '' @ detail
      | InsufficientScope \<Rightarrow> insufficient_scope_message tool detail
      | TriggerPermission \<Rightarrow> trigger_permission_message tool
      | RateLimited \<Rightarrow> rate_limited_message tool detail
      | ActionNotFound \<Rightarrow> action_not_found_message tool
      | UpstreamProvider \<Rightarrow> tick tool @ '' failed at the connected provider: '' @ detail
      | ComposioPlatform \<Rightarrow> ''Composio connection issue for '' @ tick tool @ '': '' @ detail
      | Gateway \<Rightarrow> ''Temporary gateway error while calling '' @ tick tool @ '': '' @ detail
      | Other \<Rightarrow> tick tool @ '' failed: '' @ detail)"

definition format_provider_error :: "str \<Rightarrow> str \<Rightarrow> str" where
  "format_provider_error tool raw =
     (let cls = classify_composio_error tool raw in
      ''[composio:error:'' @ class_name cls @ ''] '' @ failure_body tool cls (trim raw))"

section \<open>Laws\<close>

lemma classify_case_blind: "to_lower a = to_lower b \<Longrightarrow> classify_composio_error tool a = classify_composio_error tool b"
  by (simp add: classify_composio_error_def)

text \<open>The tests in order, as a table: the first that matches decides.\<close>

definition class_tests :: "str \<Rightarrow> str \<Rightarrow> (error_class \<times> bool) list" where
  "class_tests tool lower =
     [(ActionNotFound, is_action_not_found lower), (Validation, is_validation lower),
      (InsufficientScope, is_insufficient_scope lower), (TriggerPermission, is_trigger_permission lower),
      (RateLimited, is_rate_limited lower),
      (Gateway, is_gateway lower \<and> \<not> is_embedded_provider_failure lower),
      (ComposioPlatform, is_composio_platform lower), (UpstreamProvider, is_known_toolkit_action tool),
      (Other, True)]"

lemma classify_table:
  "classify_composio_error tool message = fst (the (find snd (class_tests tool (to_lower message))))"
  by (simp add: classify_composio_error_def class_tests_def Let_def)

lemma classify_not_found:
  "classify_composio_error tool message = ActionNotFound \<longleftrightarrow> is_action_not_found (to_lower message)"
  by (simp add: classify_composio_error_def Let_def)

lemma classify_transient:
  "is_transient (classify_composio_error tool message) \<longleftrightarrow>
     (let lower = to_lower message in
      \<not> is_action_not_found lower \<and> \<not> is_validation lower \<and> \<not> is_insufficient_scope lower \<and>
      \<not> is_trigger_permission lower \<and>
      (is_rate_limited lower \<or> is_gateway lower \<and> \<not> is_embedded_provider_failure lower))"
  by (simp add: classify_composio_error_def is_transient_def Let_def)

lemma class_name_inj: "class_name a = class_name b \<longleftrightarrow> a = b"
  by (cases a; cases b) simp_all

lemma sublist_middle: "sublist b (a @ b @ c)"
  by (simp add: sublist_append)

lemma failure_body_detail:
  assumes "cls \<noteq> ActionNotFound" "cls \<noteq> TriggerPermission"
  shows "contains (failure_body tool cls detail) detail"
proof -
  have e: "\<exists>a b. failure_body tool cls detail = a @ detail @ b"
  proof (cases cls)
    case InsufficientScope
    show ?thesis
      unfolding InsufficientScope failure_body_def error_class.case insufficient_scope_message_def Let_def
      by (rule exI [of _ "tick tool @ '' was rejected because the connected '' @ toolkit_of tool @
            '' account is missing required permissions (''"], rule exI) simp
  next
    case RateLimited
    show ?thesis
      unfolding RateLimited failure_body_def error_class.case rate_limited_message_def
      by (rule exI [of _ "tick tool @ '' hit an upstream rate limit (''"], rule exI) simp
  next
    case Validation
    show ?thesis unfolding Validation failure_body_def error_class.case
      by (rule exI [of _ "''Invalid arguments for '' @ tick tool @ '': ''"], rule exI [of _ "[]"]) simp
  next
    case UpstreamProvider
    show ?thesis unfolding UpstreamProvider failure_body_def error_class.case
      by (rule exI [of _ "tick tool @ '' failed at the connected provider: ''"], rule exI [of _ "[]"]) simp
  next
    case ComposioPlatform
    show ?thesis unfolding ComposioPlatform failure_body_def error_class.case
      by (rule exI [of _ "''Composio connection issue for '' @ tick tool @ '': ''"], rule exI [of _ "[]"]) simp
  next
    case Gateway
    show ?thesis unfolding Gateway failure_body_def error_class.case
      by (rule exI [of _ "''Temporary gateway error while calling '' @ tick tool @ '': ''"],
          rule exI [of _ "[]"]) simp
  next
    case Other
    show ?thesis unfolding Other failure_body_def error_class.case
      by (rule exI [of _ "tick tool @ '' failed: ''"], rule exI [of _ "[]"]) simp
  qed (use assms in auto)
  then show ?thesis by (metis contains_sublist sublist_middle)
qed

lemma failure_body_hides:
  "cls = ActionNotFound \<or> cls = TriggerPermission \<Longrightarrow> failure_body tool cls d = failure_body tool cls d'"
  by (auto simp: failure_body_def)

section \<open>Properties\<close>

text \<open>
  The class of a failure is decided by a fixed priority: the first test of the table that the
  lowercased message passes. A failure is called transient only if the message is none of:
  an unknown action, a validation error, a missing scope, a trigger permission error; so a caller
  that retries transient failures never retries one of those.
\<close>

theorem classify_by_priority:
  "classify_composio_error tool message = fst (the (find snd (class_tests tool (to_lower message)))) \<and>
   (\<not> (is_transient (classify_composio_error tool message) \<and>
     (let lower = to_lower message in is_action_not_found lower \<or> is_validation lower \<or>
        is_insufficient_scope lower \<or> is_trigger_permission lower)))"
  by (auto simp add: classify_table [symmetric] classify_transient Let_def)

text \<open>
  What the user reads: the message opens with the class tag. For an unknown action or a
  trigger permission failure it does not depend on what the provider said, so no raw text
  reaches the user; for the seven other classes it contains the provider's trimmed text.
\<close>

lemma format_shape:
  "format_provider_error tool raw =
     (''[composio:error:'' @ class_name (classify_composio_error tool raw) @ ''] '') @
     failure_body tool (classify_composio_error tool raw) (trim raw)"
  by (simp only: format_provider_error_def Let_def append_assoc)

theorem format_detail_policy:
  "prefix (''[composio:error:'' @ class_name (classify_composio_error tool raw) @ ''] '')
     (format_provider_error tool raw) \<and>
   (if List.member [ActionNotFound, TriggerPermission] (classify_composio_error tool raw)
    then \<forall>other. classify_composio_error tool other = classify_composio_error tool raw \<longrightarrow>
           format_provider_error tool other = format_provider_error tool raw
    else contains (format_provider_error tool raw) (trim raw))"
proof -
  let ?c = "classify_composio_error tool raw"
  let ?hidden = "?c = ActionNotFound \<or> ?c = TriggerPermission"
  have same: "format_provider_error tool other = format_provider_error tool raw"
    if "?hidden" "classify_composio_error tool other = ?c" for other
    unfolding format_shape that(2) failure_body_hides [OF that(1), of tool "trim other" "trim raw"] ..
  have shown: "contains (format_provider_error tool raw) (trim raw)" if "\<not> ?hidden"
    unfolding format_shape
    by (rule contains_appendI2, rule failure_body_detail) (use that in blast)+
  have tag: "prefix (''[composio:error:'' @ class_name ?c @ ''] '') (format_provider_error tool raw)"
    unfolding format_shape by (rule prefixI) (rule refl)
  have hidden: "List.member [ActionNotFound, TriggerPermission] ?c \<longleftrightarrow> ?hidden" by simp
  show ?thesis
  proof (cases ?hidden)
    case True
    show ?thesis unfolding hidden if_P [OF True] using tag same [OF True] by blast
  next
    case False
    show ?thesis unfolding hidden if_not_P [OF False] using tag shown [OF False] by blast
  qed
qed

theorem format_detail_policy_witness:
  "classify_composio_error ''GMAIL_X'' ''HTTP 404 secret'' = ActionNotFound \<and>
   classify_composio_error ''GMAIL_X'' ''http 410'' = ActionNotFound \<and>
   format_provider_error ''GMAIL_X'' ''http 410'' = format_provider_error ''GMAIL_X'' ''HTTP 404 secret''"
proof -
  have c: "classify_composio_error ''GMAIL_X'' ''HTTP 404 secret'' = ActionNotFound"
    "classify_composio_error ''GMAIL_X'' ''http 410'' = ActionNotFound"
    by (simp_all add: classify_not_found is_action_not_found_def str_eval)
  have m: "List.member [ActionNotFound, TriggerPermission] ActionNotFound" by simp
  note f = format_detail_policy [of "''GMAIL_X''" "''HTTP 404 secret''", unfolded c(1) if_P [OF m]]
  show ?thesis using c f [THEN conjunct2, rule_format, OF c(2)] by (intro conjI)
qed

end
