(* ===== verification/Slugs.thy ===== *)
theory Slugs
  imports Rust_Str
begin

text \<open>
  Action slugs and scopes: \<open>crates/tinyconnectors-bus/src/vocabulary/{slug,scopes}.rs\<close> (the
  host's synchronous helpers) and \<open>crates/tinyconnectors-sync/src/scope/types.rs\<close> (the
  module's own classifier and toolkit split). Where both crates define a function of the same
  name, the model's name starts with the crate's.
\<close>

section \<open>Scopes and preferences\<close>

datatype tool_scope = Read | Write | Admin

instantiation tool_scope :: linorder
begin

fun scope_rank :: "tool_scope \<Rightarrow> nat" where
  "scope_rank Read = 0"
| "scope_rank Write = 1"
| "scope_rank Admin = 2"

definition less_eq_tool_scope :: "tool_scope \<Rightarrow> tool_scope \<Rightarrow> bool" where
  "less_eq_tool_scope a b \<longleftrightarrow> scope_rank a \<le> scope_rank b"

definition less_tool_scope :: "tool_scope \<Rightarrow> tool_scope \<Rightarrow> bool" where
  "less_tool_scope a b \<longleftrightarrow> scope_rank a < scope_rank b"

instance
proof
  fix a b :: tool_scope
  show "a \<le> b \<Longrightarrow> b \<le> a \<Longrightarrow> a = b"
    by (cases a; cases b) (simp_all add: less_eq_tool_scope_def)
qed (auto simp: less_eq_tool_scope_def less_tool_scope_def)

end

lemma scope_le_simps [simp]:
  "Read \<le> s" "s \<le> Admin" "\<not> Write \<le> Read" "\<not> Admin \<le> Read" "\<not> Admin \<le> Write"
  by (cases s; simp add: less_eq_tool_scope_def)+

fun scope_name :: "tool_scope \<Rightarrow> str" where
  "scope_name Read = ''read''"
| "scope_name Write = ''write''"
| "scope_name Admin = ''admin''"

definition is_allowed_by :: "tool_scope \<Rightarrow> tool_scope \<Rightarrow> bool" where
  "is_allowed_by s limit \<longleftrightarrow> s \<le> limit"

record scope_pref =
  pref_read :: bool
  pref_write :: bool
  pref_admin :: bool

definition default_pref :: scope_pref where
  "default_pref = \<lparr>pref_read = True, pref_write = True, pref_admin = False\<rparr>"

fun allows :: "scope_pref \<Rightarrow> tool_scope \<Rightarrow> bool" where
  "allows p Read = pref_read p"
| "allows p Write = pref_write p"
| "allows p Admin = pref_admin p"

definition pref_key :: "str \<Rightarrow> str" where
  "pref_key toolkit = to_lower (trim toolkit)"

lemma pref_key_name_key: "pref_key = name_key"
  by (rule ext) (simp add: pref_key_def name_key_def)

interpretation pref_keys: normaliser pref_key
  by (simp add: pref_key_name_key naming.normaliser_axioms)

section \<open>The host's classifier (bus crate)\<close>

definition admin_words :: "str list" where
  "admin_words = [''DELETE'', ''TRASH'', ''REMOVE'', ''MODIFY_LABELS'', ''SHARE'', ''REVOKE'', ''DESTROY'']"

definition write_words :: "str list" where
  "write_words = [''SEND'', ''CREATE'', ''UPDATE'', ''REPLY'', ''APPEND'', ''INSERT'', ''ADD'',
     ''POST'', ''PATCH'', ''WRITE'', ''DRAFT'']"

definition bus_classify_unknown :: "str \<Rightarrow> tool_scope" where
  "bus_classify_unknown slug =
     (let upper = to_upper slug in
      if contains_any upper admin_words then Admin
      else if contains_any upper write_words then Write
      else Read)"

text \<open>A curated catalog is a list of slugs with their scopes.\<close>

type_synonym catalog = "(str \<times> tool_scope) list"

definition find_curated :: "catalog \<Rightarrow> str \<Rightarrow> (str \<times> tool_scope) option" where
  "find_curated cat slug = find (\<lambda>t. eq_ignore_case (fst t) slug) cat"

section \<open>Which toolkit a slug belongs to (bus crate)\<close>

definition multi_segment_prefixes :: "(str \<times> str) list" where
  "multi_segment_prefixes =
     [(''MICROSOFT_TEAMS_'', ''microsoft_teams''), (''ONE_DRIVE_'', ''one_drive''),
      (''ZOHO_MAIL_'', ''zoho_mail''), (''GOOGLE_MAPS_'', ''google_maps'')]"

definition aliased_prefixes :: "(str \<times> str \<times> str) list" where
  "aliased_prefixes =
     [(''GOOGLE_DRIVE_'', ''googledrive'', ''GOOGLEDRIVE_''),
      (''GOOGLE_CALENDAR_'', ''googlecalendar'', ''GOOGLECALENDAR_''),
      (''GOOGLE_SHEETS_'', ''googlesheets'', ''GOOGLESHEETS_''),
      (''GOOGLE_DOCS_'', ''googledocs'', ''GOOGLEDOCS_''),
      (''GOOGLE_MEET_'', ''googlemeet'', ''GOOGLEMEET_''),
      (''GOOGLE_TASKS_'', ''googletasks'', ''GOOGLETASKS_''),
      (''GOOGLE_SLIDES_'', ''googleslides'', ''GOOGLESLIDES_''),
      (''GOOGLE_PHOTOS_'', ''googlephotos'', ''GOOGLEPHOTOS_''),
      (''MICROSOFT_OUTLOOK_'', ''outlook'', ''OUTLOOK_'')]"

definition bus_toolkit_from_slug :: "str \<Rightarrow> str option" where
  "bus_toolkit_from_slug slug =
     (let trimmed = trim slug; upper = to_upper trimmed in
      if trimmed = [] then None
      else case first_some (\<lambda>(p, t). if prefix p upper then Some t else None) multi_segment_prefixes of
        Some t \<Rightarrow> Some t
      | None \<Rightarrow>
         (case first_some (\<lambda>(a, t, c). if prefix a upper then Some t else None) aliased_prefixes of
            Some t \<Rightarrow> Some t
          | None \<Rightarrow> (let p = first_piece CHR ''_'' trimmed in if p = [] then None else Some (to_lower p))))"

definition canonical_action_slug :: "str \<Rightarrow> str option" where
  "canonical_action_slug slug =
     (let upper = to_upper (trim slug) in
      first_some (\<lambda>(a, t, c). map_option (\<lambda>rest. c @ rest) (strip_prefix a upper)) aliased_prefixes)"

definition action_slug_matches :: "str \<Rightarrow> str \<Rightarrow> bool" where
  "action_slug_matches candidate requested =
     (let r = trim requested in
      eq_ignore_case candidate r \<or>
      (case canonical_action_slug r of None \<Rightarrow> False | Some c \<Rightarrow> eq_ignore_case candidate c))"

section \<open>The module's classifier (sync crate)\<close>

definition read_verbs :: "str list" where
  "read_verbs = [''GET'', ''LIST'', ''FETCH'', ''SEARCH'', ''READ'', ''FIND'', ''QUERY'',
     ''RETRIEVE'', ''DOWNLOAD'', ''EXPORT'', ''COUNT'', ''CHECK'']"

definition sync_multi_segment :: "(str \<times> str) list" where
  "sync_multi_segment =
     [(''MICROSOFT_TEAMS_'', ''microsoft_teams''), (''ONE_DRIVE_'', ''one_drive''),
      (''ZOHO_MAIL_'', ''zoho_mail'')]"

definition sync_toolkit_from_slug :: "str \<Rightarrow> str option" where
  "sync_toolkit_from_slug slug =
     (let trimmed = trim slug; upper = to_upper trimmed in
      if trimmed = [] then None
      else case first_some (\<lambda>(p, t). if prefix p upper then Some t else None) sync_multi_segment of
        Some t \<Rightarrow> Some t
      | None \<Rightarrow> (let p = first_piece CHR ''_'' trimmed in if p = [] then None else Some (to_lower p)))"

text \<open>
  \<open>upper.get(toolkit.len()..)\<close>: the toolkit's name is as long as the first piece it was
  lowercased from, so the cut is inside the slug.
\<close>

definition leading_verb :: "str \<Rightarrow> str option" where
  "leading_verb upper =
     (case sync_toolkit_from_slug upper of
        None \<Rightarrow> None
      | Some toolkit \<Rightarrow>
          (if length toolkit \<le> length upper then
             opt_filter (\<lambda>v. v \<noteq> [])
               (Some (first_piece CHR ''_'' (dropWhile (\<lambda>c. c = CHR ''_'') (drop (length toolkit) upper))))
           else None))"

definition sync_classify_unknown :: "str \<Rightarrow> tool_scope" where
  "sync_classify_unknown slug =
     (let upper = to_upper (trim slug) in
      if contains_any upper admin_words then Admin
      else if (case leading_verb upper of None \<Rightarrow> False | Some v \<Rightarrow> List.member read_verbs v) then Read
      else if contains_any upper write_words then Write
      else Read)"

section \<open>Properties\<close>

lemma allows_default [simp]:
  "allows default_pref s \<longleftrightarrow> s \<le> Write"
  by (cases s) (auto simp: default_pref_def less_eq_tool_scope_def)

text \<open>Trimming only removes bytes from the ends, so a word of the trimmed slug is in the slug.\<close>

lemma trim_sublist: "sublist (trim s) s"
proof -
  have "suffix (trim_start s) s" by (simp add: trim_start_def trim_with_suffix)
  moreover have "prefix (trim s) (trim_start s)" by (simp add: trim_def trim_end_prefix)
  ultimately show ?thesis
    by (meson prefix_imp_sublist sublist_order.order_trans suffix_imp_sublist)
qed

lemma to_upper_sublist: "sublist a b \<Longrightarrow> sublist (to_upper a) (to_upper b)"
  unfolding to_upper_def sublist_def by (metis map_append)

lemma contains_any_trim:
  "contains_any (to_upper (trim s)) ps \<Longrightarrow> contains_any (to_upper s) ps"
  unfolding contains_any_iff contains_sublist
  by (meson sublist_order.order_trans to_upper_sublist trim_sublist)

lemma sync_below_bus: "sync_classify_unknown s \<le> bus_classify_unknown s"
  using contains_any_trim [of s admin_words] contains_any_trim [of s write_words]
  by (auto simp: sync_classify_unknown_def bus_classify_unknown_def Let_def)

lemma sync_admin_iff:
  "sync_classify_unknown s = Admin \<longleftrightarrow> contains_any (to_upper (trim s)) admin_words"
  by (simp add: sync_classify_unknown_def Let_def)

lemma bus_admin_iff: "bus_classify_unknown s = Admin \<longleftrightarrow> contains_any (to_upper s) admin_words"
  by (simp add: bus_classify_unknown_def Let_def)

text \<open>The facts about the two prefix tables the lookups rest on, checked by evaluation.\<close>

definition apart :: "str \<Rightarrow> str \<Rightarrow> bool" where
  "apart p q \<longleftrightarrow> \<not> prefix p q \<and> \<not> prefix q p"

lemma apart_append: "apart p q \<Longrightarrow> \<not> prefix p (q @ r)"
  unfolding apart_def by (metis prefix_same_cases prefixI)

definition alias_entry_ok :: "str \<times> str \<times> str \<Rightarrow> bool" where
  "alias_entry_ok e = (case e of (a, t, c) \<Rightarrow>
     list_all (\<lambda>(p, u). apart p a \<and> apart p c) multi_segment_prefixes \<and>
     list_all (\<lambda>(b, u, d). apart b c) aliased_prefixes \<and>
     list_all solid c \<and> 1 < length c \<and> to_upper c = c \<and>
     List.member c CHR ''_'' \<and> to_lower (first_piece CHR ''_'' c) = t \<and> t \<noteq> [])"

lemma alias_table_ok: "list_all alias_entry_ok aliased_prefixes"
  by code_simp

lemma first_some_alias:
  assumes "first_some (\<lambda>(a, t, c). map_option (\<lambda>r. c @ r) (strip_prefix a u)) L = Some x"
  shows "\<exists>a t c r. (a, t, c) \<in> set L \<and> u = a @ r \<and> x = c @ r \<and>
    first_some (\<lambda>(a, t, c). if prefix a u then Some t else None) L = Some t"
  using assms
  by (induction L) (fastforce simp: strip_prefix_def prefix_def split: prod.splits if_splits)+

lemma first_some_apart:
  "list_all (\<lambda>(p, u). apart p c) L \<Longrightarrow>
   first_some (\<lambda>(p, t). if prefix p (c @ r) then Some t else None) L = None"
  by (induction L) (auto simp: apart_append)

lemma first_some_apart3:
  "list_all (\<lambda>(b, u, d). apart b c) L \<Longrightarrow>
   first_some (\<lambda>(a, t, d). if prefix a (c @ r) then Some t else None) L = None"
  "list_all (\<lambda>(b, u, d). apart b c) L \<Longrightarrow>
   first_some (\<lambda>(a, t, d). map_option (\<lambda>rest. d @ rest) (strip_prefix a (c @ r))) L = None"
  by (induction L) (auto simp: apart_append strip_prefix_def)

text \<open>A canonical prefix survives trimming whatever follows it.\<close>

lemma trim_keeps_solid_prefix:
  assumes "list_all solid c" "1 < length c"
  shows "\<exists>r'. trim (c @ r) = c @ r'"
proof -
  obtain x p y where c: "c = x # p @ [y]"
    using assms(2) by (metis One_nat_def less_irrefl list.exhaust_sel list.size(3,4)
        not_less_zero plus_nat.add_0 rev_exhaust add.right_neutral add_Suc_right)
  then have "prefix (x # p @ [y]) (trim (x # p @ y # r))"
    using assms(1) by (intro trim_solid_prefix) auto
  then show ?thesis using c by (auto simp: prefix_def)
qed

lemma canonical_cases:
  assumes "canonical_action_slug s = Some x"
  obtains a t c r where "(a, t, c) \<in> set aliased_prefixes" "to_upper (trim s) = a @ r"
    "x = c @ r" "bus_toolkit_from_slug s = Some t"
proof -
  from assms first_some_alias obtain a t c r where
    e: "(a, t, c) \<in> set aliased_prefixes" "to_upper (trim s) = a @ r" "x = c @ r" and
    f: "first_some (\<lambda>(a, t, c). if prefix a (to_upper (trim s)) then Some t else None)
          aliased_prefixes = Some t"
    unfolding canonical_action_slug_def Let_def by blast
  from e(1) alias_table_ok have ok: "alias_entry_ok (a, t, c)" by (auto simp: list_all_iff)
  then have "list_all (\<lambda>(p, u). apart p a) multi_segment_prefixes"
    by (auto simp: alias_entry_ok_def list_all_iff)
  then have m: "first_some (\<lambda>(p, t). if prefix p (to_upper (trim s)) then Some t else None)
      multi_segment_prefixes = None"
    using e(2) by (simp add: first_some_apart)
  have "trim s \<noteq> []"
  proof
    assume "trim s = []"
    then have "a = []" using e(2) by (simp add: to_upper_def)
    then show False using ok
      by (auto simp: alias_entry_ok_def apart_def multi_segment_prefixes_def)
  qed
  then have "bus_toolkit_from_slug s = Some t"
    by (simp add: bus_toolkit_from_slug_def Let_def m f)
  with e show thesis by (rule that)
qed

lemma takeWhile_has: "d \<in> set c \<Longrightarrow> first_piece d (c @ r) = first_piece d c"
  unfolding first_piece_def by (rule takeWhile_append1) auto

lemma canonical_toolkit:
  assumes "canonical_action_slug s = Some x"
  shows "bus_toolkit_from_slug x = bus_toolkit_from_slug s" and "canonical_action_slug x = None"
proof -
  from assms obtain a t c r where
    e: "(a, t, c) \<in> set aliased_prefixes" "x = c @ r" "bus_toolkit_from_slug s = Some t"
    by (rule canonical_cases)
  from e(1) alias_table_ok have ok: "alias_entry_ok (a, t, c)" by (auto simp: list_all_iff)
  then obtain r' where r': "trim x = c @ r'"
    using trim_keeps_solid_prefix [of c r] e(2) by (auto simp: alias_entry_ok_def)
  have up: "to_upper (trim x) = c @ to_upper r'" and ne: "trim x \<noteq> []"
    using ok r' by (auto simp: alias_entry_ok_def)
  have multi: "list_all (\<lambda>(p, u). apart p c) multi_segment_prefixes"
    and alia: "list_all (\<lambda>(b, u, d). apart b c) aliased_prefixes"
    and piece: "to_lower (first_piece CHR ''_'' (trim x)) = t" "t \<noteq> []"
    using ok r' by (auto simp: alias_entry_ok_def list_all_iff takeWhile_has)
  have "bus_toolkit_from_slug x = Some t"
    using ne piece
    by (auto simp: bus_toolkit_from_slug_def Let_def up first_some_apart [OF multi]
        first_some_apart3 [OF alia])
  then show "bus_toolkit_from_slug x = bus_toolkit_from_slug s" by (simp add: e(3))
  show "canonical_action_slug x = None"
    by (simp add: canonical_action_slug_def Let_def up first_some_apart3 [OF alia])
qed

text \<open>A curated lookup ignores case, but not padding.\<close>

lemma find_curated_Some: "find_curated cat slug = Some t \<Longrightarrow> t \<in> set cat \<and> eq_ignore_case (fst t) slug"
  by (induction cat) (auto simp: find_curated_def split: if_splits)

lemma find_curated_case: "eq_ignore_case a b \<Longrightarrow> find_curated cat a = find_curated cat b"
  by (simp add: find_curated_def eq_ignore_case_def)

text \<open>
  The module's classifier never calls an action more invasive than the host's, and on a slug
  without padding the two agree on which actions are destructive; both call an action destructive
  whenever its name holds a destructive word, whatever else it holds.
\<close>

theorem classifiers_compare:
  "sync_classify_unknown s \<le> bus_classify_unknown s \<and>
   (sync_classify_unknown s = Admin) = contains_any (to_upper (trim s)) admin_words \<and>
   (bus_classify_unknown s = Admin) = contains_any (to_upper s) admin_words"
  by (intro conjI sync_below_bus sync_admin_iff bus_admin_iff)

text \<open>
  Rewriting an alias to the canonical slug changes neither the toolkit the action belongs to
  nor, when done again, the slug; and the canonical slug is what the alias is compared with.
\<close>

theorem canonical_slug_stable:
  assumes "canonical_action_slug s = Some x"
  shows "bus_toolkit_from_slug x = bus_toolkit_from_slug s \<and> canonical_action_slug x = None \<and>
    action_slug_matches x s"
proof (intro conjI)
  show "bus_toolkit_from_slug x = bus_toolkit_from_slug s" "canonical_action_slug x = None"
    using canonical_toolkit [OF assms] .
  have "canonical_action_slug (trim s) = Some x"
    using assms unfolding canonical_action_slug_def by simp
  then show "action_slug_matches x s" by (simp add: action_slug_matches_def)
qed

theorem canonical_slug_stable_witness:
  "canonical_action_slug '' google_drive_find_file'' = Some ''GOOGLEDRIVE_FIND_FILE'' \<and>
   bus_toolkit_from_slug ''GOOGLEDRIVE_FIND_FILE'' = bus_toolkit_from_slug '' google_drive_find_file'' \<and>
   canonical_action_slug ''GOOGLEDRIVE_FIND_FILE'' = None \<and>
   action_slug_matches ''GOOGLEDRIVE_FIND_FILE'' '' google_drive_find_file''"
proof -
  have c: "canonical_action_slug '' google_drive_find_file'' = Some ''GOOGLEDRIVE_FIND_FILE''" by code_simp
  show ?thesis using canonical_slug_stable [OF c] c by blast
qed

end
