(* ===== verification/Types.thy ===== *)
theory Types
  imports Errors
begin

text \<open>
  The payloads of the bus contract (\<open>crates/tinyconnectors-bus/src/composio\<close>): the responses
  and rows the operations exchange, the two predicates of a connection row, and the lenient
  string decoders of \<open>serde_compat.rs\<close>. A float is carried by its 64 bits.
\<close>

record execute_response =
  resp_data :: json
  successful :: bool
  resp_error :: "str option"
  cost_usd :: "64 word"
  markdown_formatted :: "str option"

record connection =
  conn_id :: str
  conn_toolkit :: str
  conn_status :: str
  conn_created_at :: "str option"
  conn_account_email :: "str option"
  conn_workspace :: "str option"
  conn_username :: "str option"

definition normalized_toolkit :: "connection \<Rightarrow> str" where
  "normalized_toolkit c = to_lower (trim (conn_toolkit c))"

definition is_active :: "connection \<Rightarrow> bool" where
  "is_active c =
     (let status = trim (conn_status c) in
      eq_ignore_case status ''ACTIVE'' \<or> eq_ignore_case status ''CONNECTED'')"

record authorize_response =
  auth_connect_url :: str
  auth_connection_id :: str

record tool_function =
  tf_name :: str
  tf_description :: "str option"
  tf_parameters :: "json option"
  tf_output_parameters :: "json option"

record tool_schema =
  ts_kind :: str
  ts_function :: tool_function

record available_trigger_repo =
  ar_owner :: str
  ar_repo :: str

record available_trigger =
  av_slug :: str
  av_scope :: str
  av_default_config :: "json option"
  av_required_config_keys :: "str list option"
  av_repo :: "available_trigger_repo option"

record active_trigger =
  at_id :: str
  at_slug :: str
  at_toolkit :: str
  at_connection_id :: str
  at_trigger_config :: "json option"
  at_state :: "str option"

record create_trigger_response =
  ct_trigger_id :: str
  ct_status :: "str option"

record enable_trigger_response =
  et_trigger_id :: str
  et_slug :: str
  et_connection_id :: str

record trigger_metadata =
  tm_id :: str
  tm_uuid :: str
  tm_user_id :: str
  tm_connected_account_id :: str
  tm_trigger_id :: str

record trigger_event =
  te_toolkit :: str
  te_trigger :: str
  te_payload :: json
  te_metadata :: trigger_metadata

section \<open>Lenient strings\<close>

definition string_at :: "fields \<Rightarrow> str \<Rightarrow> str option" where
  "string_at m k = (case map_of m k of Some (JStr s) \<Rightarrow> Some s | _ \<Rightarrow> None)"

fun json_kind :: "json \<Rightarrow> str" where
  "json_kind JNull = ''null''"
| "json_kind (JBool _) = ''bool''"
| "json_kind (JNum _) = ''number''"
| "json_kind (JArr _) = ''array''"
| "json_kind _ = ''unknown''"

definition de_string_or_object :: "json \<Rightarrow> str + str" where
  "de_string_or_object v =
     (case v of
        JStr s \<Rightarrow> Inr s
      | JObj m \<Rightarrow>
          (case first_some (string_at m) [''slug'', ''id'', ''name'', ''key''] of
             Some s \<Rightarrow> Inr s
           | None \<Rightarrow> Inl ''expected string or object with slug/id/name/key field'')
      | other \<Rightarrow> Inl (''expected string, got '' @ json_kind other))"

definition de_opt_string_or_object :: "json option \<Rightarrow> str option" where
  "de_opt_string_or_object v =
     (case v of
        Some (JStr s) \<Rightarrow> Some s
      | Some (JObj m) \<Rightarrow>
          first_some (string_at m) [''state'', ''value'', ''slug'', ''id'', ''name'', ''key'']
      | _ \<Rightarrow> None)"

lemma string_at_Some: "string_at m k = Some s \<longleftrightarrow> map_of m k = Some (JStr s)"
  by (auto simp: string_at_def split: option.splits json.splits)

lemma is_active_case:
  "to_lower (trim (conn_status a)) = to_lower (trim (conn_status b)) \<Longrightarrow> is_active a = is_active b"
  by (simp add: is_active_def eq_ignore_case_def Let_def)

end
