(* ===== verification/Task_Window.thy ===== *)
theory Task_Window
  imports Types
begin

text \<open>
  The recency window around task-fetch actions:
  \<open>crates/tinyconnectors/src/execute/task_window.rs\<close>. Instants are integers; what the date
  library computes (parsing RFC 3339, milliseconds to an instant, printing an instant) is the
  record \<open>chrono\<close>, a parameter of the definitions.
\<close>

record chrono =
  parse_rfc3339 :: "str \<Rightarrow> int option"
  from_millis :: "int \<Rightarrow> int option"
  to_rfc3339 :: "int \<Rightarrow> str"

datatype ts_format = Iso8601 | EpochMillis

record window_spec =
  items_paths :: "str list list"
  ts_fields :: "(str \<times> ts_format) list"
  order_arg :: "(str \<times> str) option"

definition linear_spec :: window_spec where
  "linear_spec =
     \<lparr>items_paths =
        [[''data'', ''issues'', ''nodes''], [''data'', ''data'', ''nodes''], [''data'', ''nodes''],
         [''nodes''], [''issues'', ''nodes''], [''data'', ''results''], [''results''],
         [''data'', ''issues''], [''issues'']],
      ts_fields =
        [(''updatedAt'', Iso8601), (''data.updatedAt'', Iso8601),
         (''updated_at'', Iso8601), (''data.updated_at'', Iso8601)],
      order_arg = Some (''orderBy'', ''updatedAt'')\<rparr>"

definition clickup_spec :: window_spec where
  "clickup_spec =
     \<lparr>items_paths =
        [[''data'', ''tasks''], [''tasks''], [''data'', ''data'', ''tasks''],
         [''data'', ''results''], [''results'']],
      ts_fields =
        [(''date_updated'', EpochMillis), (''data.date_updated'', EpochMillis),
         (''dateUpdated'', EpochMillis), (''data.dateUpdated'', EpochMillis)],
      order_arg = Some (''order_by'', ''updated'')\<rparr>"

definition notion_spec :: window_spec where
  "notion_spec =
     \<lparr>items_paths = [[''results''], [''data'', ''results''], [''data'', ''data'', ''results'']],
      ts_fields =
        [(''last_edited_time'', Iso8601), (''created_time'', Iso8601),
         (''data.last_edited_time'', Iso8601), (''data.created_time'', Iso8601)],
      order_arg = None\<rparr>"

definition asana_spec :: window_spec where
  "asana_spec =
     \<lparr>items_paths = [[''data'', ''data''], [''data'']],
      ts_fields =
        [(''modified_at'', Iso8601), (''created_at'', Iso8601),
         (''data.modified_at'', Iso8601), (''data.created_at'', Iso8601)],
      order_arg = None\<rparr>"

definition todoist_spec :: window_spec where
  "todoist_spec =
     \<lparr>items_paths =
        [[''tasks''], [''data'', ''tasks''], [''results''], [''data'', ''results''], [''data''], []],
      ts_fields =
        [(''added_at'', Iso8601), (''updated_at'', Iso8601), (''created_at'', Iso8601),
         (''data.added_at'', Iso8601), (''data.updated_at'', Iso8601), (''data.created_at'', Iso8601)],
      order_arg = None\<rparr>"

definition spec_for :: "str \<Rightarrow> window_spec option" where
  "spec_for slug =
     map_of [(''LINEAR_LIST_LINEAR_ISSUES'', linear_spec), (''LINEAR_SEARCH_ISSUES'', linear_spec),
       (''CLICKUP_GET_FILTERED_TEAM_TASKS'', clickup_spec), (''CLICKUP_GET_TASKS'', clickup_spec),
       (''NOTION_QUERY_DATABASE_WITH_FILTER'', notion_spec),
       (''ASANA_GET_MULTIPLE_TASKS'', asana_spec), (''TODOIST_GET_ALL_TASKS'', todoist_spec)] slug"

section \<open>Narrowing the request\<close>

definition order_default :: "(str \<times> str) option \<Rightarrow> fields \<Rightarrow> fields" where
  "order_default arg m = (case arg of None \<Rightarrow> m | Some (k, v) \<Rightarrow> obj_or_insert k (JStr v) m)"

definition apply_window_args :: "chrono \<Rightarrow> str \<Rightarrow> json option \<Rightarrow> int \<Rightarrow> json option" where
  "apply_window_args ch slug arguments since =
     (case spec_for slug of
        None \<Rightarrow> arguments
      | Some spec \<Rightarrow>
          (case unwrap_or (JObj []) arguments of
             JObj m \<Rightarrow>
               (let m1 = order_default (order_arg spec) m in
                Some (JObj (if slug = ''ASANA_GET_MULTIPLE_TASKS''
                            then obj_or_insert ''modified_since'' (JStr (to_rfc3339 ch since)) m1
                            else m1)))
           | other \<Rightarrow> Some other))"

section \<open>Filtering the response\<close>

definition array_at :: "json \<Rightarrow> str list \<Rightarrow> json list option" where
  "array_at root path = Option.bind (jget_path root path) as_array"

definition field_at :: "json \<Rightarrow> str \<Rightarrow> json option" where
  "field_at item dotted = jget_path item (split_on CHR ''.'' dotted)"

fun parse_ts :: "chrono \<Rightarrow> json \<Rightarrow> ts_format \<Rightarrow> int option" where
  "parse_ts ch raw Iso8601 = Option.bind (as_str raw) (\<lambda>s. parse_rfc3339 ch (trim s))"
| "parse_ts ch raw EpochMillis =
     Option.bind
       (case raw of JStr s \<Rightarrow> parse_i64 (trim s) | JNum n \<Rightarrow> as_i64 (JNum n) | _ \<Rightarrow> None)
       (from_millis ch)"

fun keep_loop :: "chrono \<Rightarrow> json \<Rightarrow> (str \<times> ts_format) list \<Rightarrow> int \<Rightarrow> bool \<Rightarrow> bool" where
  "keep_loop ch item [] since saw = (\<not> saw)"
| "keep_loop ch item ((name, fmt) # rest) since saw =
     (case Option.bind (field_at item name) (\<lambda>raw. parse_ts ch raw fmt) of
        None \<Rightarrow> keep_loop ch item rest since saw
      | Some ts \<Rightarrow> (if since \<le> ts then True else keep_loop ch item rest since True))"

definition keep_item :: "chrono \<Rightarrow> json \<Rightarrow> (str \<times> ts_format) list \<Rightarrow> int \<Rightarrow> bool" where
  "keep_item ch item fs since = keep_loop ch item fs since False"

definition filter_response ::
  "chrono \<Rightarrow> str \<Rightarrow> execute_response \<Rightarrow> int \<Rightarrow> execute_response" where
  "filter_response ch slug resp since =
     (if \<not> successful resp then resp
      else case spec_for slug of
        None \<Rightarrow> resp
      | Some spec \<Rightarrow>
          (case find (\<lambda>p. array_at (resp_data resp) p \<noteq> None) (items_paths spec) of
             None \<Rightarrow> resp
           | Some path \<Rightarrow>
               (case array_at (resp_data resp) path of
                  None \<Rightarrow> resp
                | Some items \<Rightarrow>
                    (let kept = filter (\<lambda>i. keep_item ch i (ts_fields spec) since) items;
                         removed = length items - length kept in
                     if removed = 0 then resp
                     else resp\<lparr>resp_data := jset_path (resp_data resp) path (JArr kept),
                               markdown_formatted := None\<rparr>))))"

section \<open>Laws\<close>

text \<open>The timestamps a row shows, and what keeping means.\<close>

definition row_times :: "chrono \<Rightarrow> (str \<times> ts_format) list \<Rightarrow> json \<Rightarrow> int list" where
  "row_times ch fs item =
     filter_map (\<lambda>(name, fmt). Option.bind (field_at item name) (\<lambda>raw. parse_ts ch raw fmt)) fs"

lemma keep_loop_iff:
  "keep_loop ch item fs since saw \<longleftrightarrow>
     (\<exists>t \<in> set (row_times ch fs item). since \<le> t) \<or> (row_times ch fs item = [] \<and> \<not> saw)"
  by (induction ch item fs since saw rule: keep_loop.induct)
    (auto simp: row_times_def split: option.splits)

lemma keep_item_iff:
  "keep_item ch item fs since \<longleftrightarrow>
     row_times ch fs item = [] \<or> (\<exists>t \<in> set (row_times ch fs item). since \<le> t)"
  by (auto simp: keep_item_def keep_loop_iff)

lemma length_filter_zero: "length xs - length (filter p xs) = 0 \<longleftrightarrow> filter p xs = xs"
  using length_filter_less [of _ xs p] filter_id_conv [of p xs]
  by (metis diff_is_0_eq diff_self_eq_0 less_le_not_le)

text \<open>The array a recognised, successful response is filtered at.\<close>

definition located :: "str \<Rightarrow> execute_response \<Rightarrow> (window_spec \<times> str list \<times> json list) option" where
  "located slug resp =
     (if \<not> successful resp then None
      else Option.bind (spec_for slug) (\<lambda>spec.
        Option.bind (find (\<lambda>p. array_at (resp_data resp) p \<noteq> None) (items_paths spec)) (\<lambda>path.
          map_option (\<lambda>items. (spec, path, items)) (array_at (resp_data resp) path))))"

lemma filter_response_located:
  "filter_response ch slug resp since =
     (case located slug resp of
        None \<Rightarrow> resp
      | Some (spec, path, items) \<Rightarrow>
          (let kept = filter (\<lambda>i. keep_item ch i (ts_fields spec) since) items in
           if kept = items then resp
           else resp\<lparr>resp_data := jset_path (resp_data resp) path (JArr kept),
                     markdown_formatted := None\<rparr>))"
proof (cases "located slug resp")
  case None
  then show ?thesis
    by (auto simp: filter_response_def located_def bind_eq_None_conv split: option.splits if_splits)
next
  case (Some loc)
  obtain spec path items where loc: "loc = (spec, path, items)" by (cases loc)
  from Some loc have "successful resp" "spec_for slug = Some spec"
    "find (\<lambda>p. array_at (resp_data resp) p \<noteq> None) (items_paths spec) = Some path"
    "array_at (resp_data resp) path = Some items"
    by (auto simp: located_def bind_eq_Some_conv split: if_splits)
  then show ?thesis
    by (simp only: filter_response_def Some loc Let_def length_filter_zero option.case prod.case
        not_True_eq_False if_False)
qed

lemma array_at_Some: "array_at v path = Some xs \<longleftrightarrow> jget_path v path = Some (JArr xs)"
proof -
  have "as_array w = Some xs \<longleftrightarrow> w = JArr xs" for w by (cases w) auto
  then show ?thesis by (auto simp: array_at_def bind_eq_Some_conv)
qed

text \<open>Writing an array where an array was leaves the paths that led to none leading to none.\<close>

lemma array_at_set_none:
  assumes "jget_path v p = Some (JArr xs)" "array_at v q = None"
  shows "array_at (jset_path v p (JArr ys)) q = None"
  using assms
proof (induction p arbitrary: v q)
  case Nil
  then show ?case by (cases q) (auto simp: array_at_def)
next
  case (Cons k p)
  then obtain m w where m: "v = JObj m" "map_of m k = Some w" "jget_path w p = Some (JArr xs)"
    by (auto split: option.splits dest!: jget_obj_Some)
  show ?case
  proof (cases q)
    case Nil
    with m show ?thesis by (simp add: array_at_def)
  next
    case q: (Cons l q')
    show ?thesis
    proof (cases "l = k")
      case True
      have "array_at w q' = None" using Cons.prems(2) q m True by (simp add: array_at_def)
      with Cons.IH [OF m(3)] q m True show ?thesis by (simp add: array_at_def map_of_map_upd)
    next
      case False
      with Cons.prems(2) q m show ?thesis by (simp add: array_at_def map_of_map_upd)
    qed
  qed
qed

lemma located_Some:
  "located slug resp = Some (spec, path, items) \<longleftrightarrow>
     successful resp \<and> spec_for slug = Some spec \<and>
     find (\<lambda>p. array_at (resp_data resp) p \<noteq> None) (items_paths spec) = Some path \<and>
     array_at (resp_data resp) path = Some items"
  by (auto simp: located_def bind_eq_Some_conv)

lemma find_transfer:
  assumes "find P xs = Some x" "Q x" "\<And>y. \<not> P y \<Longrightarrow> \<not> Q y"
  shows "find Q xs = Some x"
  using assms by (induction xs) (auto split: if_splits)

lemma located_rewritten:
  assumes "located slug resp = Some (spec, path, items)"
  shows "located slug (resp\<lparr>resp_data := jset_path (resp_data resp) path (JArr kept),
           markdown_formatted := None\<rparr>) = Some (spec, path, kept)"
proof -
  from assms have l: "successful resp" "spec_for slug = Some spec"
    "find (\<lambda>p. array_at (resp_data resp) p \<noteq> None) (items_paths spec) = Some path"
    "jget_path (resp_data resp) path = Some (JArr items)"
    by (auto simp: located_Some array_at_Some)
  have new: "array_at (jset_path (resp_data resp) path (JArr kept)) path = Some kept"
    using jget_set_path [OF l(4)] by (simp add: array_at_Some)
  have "find (\<lambda>p. array_at (jset_path (resp_data resp) path (JArr kept)) p \<noteq> None) (items_paths spec)
      = Some path"
    by (rule find_transfer [OF l(3)]) (use new array_at_set_none [OF l(4)] in auto)
  with l new show ?thesis by (simp add: located_Some)
qed

lemma filter_response_again:
  "filter_response ch slug (filter_response ch slug resp since) since = filter_response ch slug resp since"
proof (cases "located slug resp")
  case None
  then show ?thesis by (simp add: filter_response_located)
next
  case (Some loc)
  obtain spec path items where loc: "loc = (spec, path, items)" by (cases loc)
  let ?kept = "filter (\<lambda>i. keep_item ch i (ts_fields spec) since) items"
  show ?thesis
  proof (cases "?kept = items")
    case True
    then have "filter_response ch slug resp since = resp"
      by (simp only: filter_response_located [of ch slug resp] Some loc Let_def option.case prod.case if_True refl)
    then show ?thesis by simp
  next
    case False
    then have e: "filter_response ch slug resp since =
        resp\<lparr>resp_data := jset_path (resp_data resp) path (JArr ?kept), markdown_formatted := None\<rparr>"
      by (simp only: filter_response_located [of ch slug resp] Some loc Let_def option.case prod.case if_False)
    have "filter (\<lambda>i. keep_item ch i (ts_fields spec) since) ?kept = ?kept" by simp
    with located_rewritten [OF Some [unfolded loc], of ?kept] show ?thesis
      unfolding e by (subst filter_response_located) (simp only: Let_def option.case prod.case if_True refl)
  qed
qed

section \<open>Properties\<close>

text \<open>
  The window never empties a list by mistake. Where the response failed, the action is not
  one of the listed ones or no array is found, nothing changes; otherwise the array found first
  is replaced by exactly its rows that show no readable time or at least one that is not older
  than the bound, the rendered markdown is dropped exactly when rows were, and filtering again
  changes nothing.
\<close>

theorem filter_response_window:
  "(case located slug resp of
      None \<Rightarrow> filter_response ch slug resp since = resp
    | Some (spec, path, items) \<Rightarrow>
        (let kept = filter (\<lambda>i. row_times ch (ts_fields spec) i = [] \<or>
               list_ex (\<lambda>t. since \<le> t) (row_times ch (ts_fields spec) i)) items;
             resp' = filter_response ch slug resp since in
         jget_path (resp_data resp') path = Some (JArr kept) \<and>
         markdown_formatted resp' = (if kept = items then markdown_formatted resp else None) \<and>
         (if kept = items then resp' = resp else True) \<and>
         successful resp' = successful resp \<and> resp_error resp' = resp_error resp \<and>
         cost_usd resp' = cost_usd resp)) \<and>
   filter_response ch slug (filter_response ch slug resp since) since = filter_response ch slug resp since"
proof (cases "located slug resp")
  case None
  then show ?thesis by (simp add: filter_response_located)
next
  case (Some loc)
  obtain spec path items where loc: "loc = (spec, path, items)" by (cases loc)
  have kept: "filter (\<lambda>i. row_times ch (ts_fields spec) i = [] \<or>
      list_ex (\<lambda>t. since \<le> t) (row_times ch (ts_fields spec) i)) items =
      filter (\<lambda>i. keep_item ch i (ts_fields spec) since) items"
    by (simp add: keep_item_iff list_ex_iff)
  have at: "jget_path (resp_data resp) path = Some (JArr items)"
    using Some loc by (simp add: located_Some array_at_Some)
  have run: "filter_response ch slug resp since =
      (let kept = filter (\<lambda>i. keep_item ch i (ts_fields spec) since) items in
       if kept = items then resp
       else resp\<lparr>resp_data := jset_path (resp_data resp) path (JArr kept), markdown_formatted := None\<rparr>)"
    by (simp add: filter_response_located Some loc)
  show ?thesis
    unfolding filter_response_again Some loc option.case prod.case kept
    unfolding run using at jget_set_path [OF at] by (simp add: Let_def)
qed

text \<open>
  Narrowing the request never overrides the caller: an unknown action's arguments and
  arguments that are no object pass through, and otherwise every field the caller set is kept as
  it was, the action's ordering default is added only where it was missing, and narrowing again
  changes nothing.
\<close>

lemma order_default_dom:
  "dom (map_of (order_default arg m)) = dom (map_of m) \<union> (case arg of None \<Rightarrow> {} | Some (k, v) \<Rightarrow> {k})"
  by (auto simp: order_default_def map_of_obj_or_insert dom_def split: option.splits)

lemma or_insert_map_le: "map_le (map_of m) (map_of (obj_or_insert k v m))"
  by (auto simp: map_le_def map_of_obj_or_insert)

lemma or_insert_dom: "dom (map_of (obj_or_insert k v m)) = insert k (dom (map_of m))"
  by (auto simp: map_of_obj_or_insert)

lemma or_insert_id: "k \<in> dom (map_of m) \<Longrightarrow> obj_or_insert k v m = m"
  by (auto simp: obj_or_insert_def)

lemma order_default_le: "map_le (map_of m) (map_of (order_default arg m))"
  by (simp add: order_default_def or_insert_map_le split: option.splits)

lemma order_default_id:
  "(case arg of None \<Rightarrow> {} | Some (k, v) \<Rightarrow> {k}) \<subseteq> dom (map_of m) \<Longrightarrow> order_default arg m = m"
  by (auto simp: order_default_def or_insert_id split: option.splits)

definition narrowed :: "chrono \<Rightarrow> bool \<Rightarrow> (str \<times> str) option \<Rightarrow> int \<Rightarrow> fields \<Rightarrow> fields" where
  "narrowed ch asana arg since m =
     (let m1 = order_default arg m in
      if asana then obj_or_insert ''modified_since'' (JStr (to_rfc3339 ch since)) m1 else m1)"

lemma narrowed_dom: "dom (map_of (narrowed ch asana arg since m)) =
    dom (map_of m) \<union> (case arg of None \<Rightarrow> {} | Some (k, v) \<Rightarrow> {k}) \<union>
    (if asana then {''modified_since''} else {})"
  by (auto simp: narrowed_def Let_def or_insert_dom order_default_dom)

lemma narrowed_twice: "narrowed ch asana arg since' (narrowed ch asana arg since m) = narrowed ch asana arg since m"
proof -
  have "order_default arg (narrowed ch asana arg since m) = narrowed ch asana arg since m"
    by (rule order_default_id) (auto simp: narrowed_dom)
  moreover have "asana \<Longrightarrow> ''modified_since'' \<in> dom (map_of (narrowed ch asana arg since m))"
    by (simp only: narrowed_dom if_True Un_insert_right insertI1)
  ultimately show ?thesis
    unfolding narrowed_def [of ch asana arg since' "narrowed ch asana arg since m"] Let_def
    using or_insert_id by (cases asana) simp_all
qed

lemma narrowed_le: "map_le (map_of m) (map_of (narrowed ch asana arg since m))"
  by (cases asana)
    (simp_all add: narrowed_def order_default_le map_le_trans [OF order_default_le or_insert_map_le])

lemma apply_window_narrowed:
  "apply_window_args ch slug (Some (JObj m)) since =
     (case spec_for slug of None \<Rightarrow> Some (JObj m)
      | Some spec \<Rightarrow>
          Some (JObj (narrowed ch (slug = ''ASANA_GET_MULTIPLE_TASKS'') (order_arg spec) since m)))"
  by (simp add: apply_window_args_def narrowed_def Let_def split: option.splits)

theorem window_args_yield:
  "\<exists>m'. apply_window_args ch slug (Some (JObj m)) since = Some (JObj m') \<and>
     map_le (map_of m) (map_of m') \<and>
     dom (map_of m') = dom (map_of m) \<union>
       (case spec_for slug of None \<Rightarrow> {}
        | Some spec \<Rightarrow> (case order_arg spec of None \<Rightarrow> {} | Some (k, v) \<Rightarrow> {k}) \<union>
            (if slug = ''ASANA_GET_MULTIPLE_TASKS'' then {''modified_since''} else {})) \<and>
     apply_window_args ch slug (Some (JObj m')) since' = Some (JObj m')"
proof (cases "spec_for slug")
  case None
  then show ?thesis by (simp add: apply_window_narrowed)
next
  case (Some spec)
  then show ?thesis
    unfolding apply_window_narrowed Some option.case
    by (intro exI [of _ "narrowed ch (slug = ''ASANA_GET_MULTIPLE_TASKS'') (order_arg spec) since m"] conjI)
      (simp_all only: narrowed_le narrowed_dom narrowed_twice Un_assoc)
qed

end
