(* ===== verification/Effects.thy ===== *)
theory Effects
  imports Types
begin

text \<open>
  Effects as explicit state. The world holds what the outside keeps (\<open>env\<close>, of any type), the
  failure counts of the direct route in use, per key fingerprint, and the trace of what was done, oldest first.
  An action returns a result and the next world. The transport of
  \<open>crates/tinyconnectors/src/client/transport.rs\<close> is a record of three functions of \<open>env\<close>: the
  network answers anything, and may change.
\<close>

datatype event = Get str | Post str json | Delete str | Sleep nat

record 'e world =
  env :: 'e
  gate :: "64 word \<Rightarrow> nat option"
  trace :: "event list"

type_synonym ('e, 'a) act = "'e world \<Rightarrow> 'a res \<times> 'e world"

definition retA :: "'a \<Rightarrow> ('e, 'a) act" where
  "retA a = (\<lambda>w. (Inr a, w))"

definition failA :: "error \<Rightarrow> ('e, 'a) act" where
  "failA e = (\<lambda>w. (Inl e, w))"

definition liftA :: "'a res \<Rightarrow> ('e, 'a) act" where
  "liftA r = (\<lambda>w. (r, w))"

definition bindA :: "('e, 'a) act \<Rightarrow> ('a \<Rightarrow> ('e, 'b) act) \<Rightarrow> ('e, 'b) act" where
  "bindA m f = (\<lambda>w. case m w of (Inl e, w') \<Rightarrow> (Inl e, w') | (Inr a, w') \<Rightarrow> f a w')"

text \<open>Continue with the whole result, error included: a \<open>match\<close> on the awaited value.\<close>

definition thenA :: "('e, 'a) act \<Rightarrow> ('a res \<Rightarrow> ('e, 'b) act) \<Rightarrow> ('e, 'b) act" where
  "thenA m f = (\<lambda>w. case m w of (r, w') \<Rightarrow> f r w')"

definition mapA :: "('a \<Rightarrow> 'b) \<Rightarrow> ('e, 'a) act \<Rightarrow> ('e, 'b) act" where
  "mapA g m = bindA m (\<lambda>a. retA (g a))"

definition sleepA :: "nat \<Rightarrow> ('e, unit) act" where
  "sleepA secs = (\<lambda>w. (Inr (), w\<lparr>trace := trace w @ [Sleep secs]\<rparr>))"

section \<open>The transport\<close>

record 'e transport =
  send_get :: "str \<Rightarrow> 'e \<Rightarrow> json res \<times> 'e"
  send_post :: "str \<Rightarrow> json \<Rightarrow> 'e \<Rightarrow> json res \<times> 'e"
  send_delete :: "str \<Rightarrow> 'e \<Rightarrow> json res \<times> 'e"

definition reply :: "event \<Rightarrow> ('e \<Rightarrow> json res \<times> 'e) \<Rightarrow> ('e, json) act" where
  "reply ev send = (\<lambda>w. case send (env w) of (r, e') \<Rightarrow> (r, w\<lparr>env := e', trace := trace w @ [ev]\<rparr>))"

definition transport_get :: "'e transport \<Rightarrow> str \<Rightarrow> ('e, json) act" where
  "transport_get tr path = reply (Get path) (send_get tr path)"

definition transport_post :: "'e transport \<Rightarrow> str \<Rightarrow> json \<Rightarrow> ('e, json) act" where
  "transport_post tr path body = reply (Post path body) (send_post tr path body)"

definition transport_delete :: "'e transport \<Rightarrow> str \<Rightarrow> ('e, json) act" where
  "transport_delete tr path = reply (Delete path) (send_delete tr path)"

section \<open>What an action costs\<close>

fun requests :: "event list \<Rightarrow> nat" where
  "requests [] = 0"
| "requests (Sleep n # evs) = requests evs"
| "requests (_ # evs) = Suc (requests evs)"

fun slept :: "event list \<Rightarrow> nat" where
  "slept [] = 0"
| "slept (Sleep n # evs) = n + slept evs"
| "slept (_ # evs) = slept evs"

lemma requests_append [simp]: "requests (a @ b) = requests a + requests b"
  by (induction a rule: requests.induct) auto

lemma slept_append [simp]: "slept (a @ b) = slept a + slept b"
  by (induction a rule: slept.induct) auto

text \<open>
  An action only appends to the trace; \<open>grows c s\<close> bounds what it appends by \<open>c\<close> requests and
  \<open>s\<close> seconds of sleep.
\<close>

definition grows :: "nat \<Rightarrow> nat \<Rightarrow> ('e, 'a) act \<Rightarrow> bool" where
  "grows c s m \<longleftrightarrow> (\<forall>w. \<exists>evs. trace (snd (m w)) = trace w @ evs \<and> requests evs \<le> c \<and> slept evs \<le> s)"

lemma grows_mono: "grows c s m \<Longrightarrow> c \<le> c' \<Longrightarrow> s \<le> s' \<Longrightarrow> grows c' s' m"
  unfolding grows_def by (meson order_trans)

lemma grows_ret [intro]: "grows c s (retA a)"
  by (auto simp: grows_def retA_def)

lemma grows_fail [intro]: "grows c s (failA e)"
  by (auto simp: grows_def failA_def)

lemma grows_lift [intro]: "grows c s (liftA r)"
  by (auto simp: grows_def liftA_def)

lemma grows_sleep: "grows 0 n (sleepA n)"
  by (auto simp: grows_def sleepA_def)

lemma grows_then:
  assumes m: "grows c s m" and f: "\<And>r. grows c' s' (f r)"
  shows "grows (c + c') (s + s') (thenA m f)"
  unfolding grows_def
proof
  fix w
  obtain r w1 where r: "m w = (r, w1)" by (cases "m w")
  obtain e1 where e1: "trace w1 = trace w @ e1" "requests e1 \<le> c" "slept e1 \<le> s"
    using m r unfolding grows_def by (metis snd_conv)
  obtain e2 where e2: "trace (snd (f r w1)) = trace w1 @ e2" "requests e2 \<le> c'" "slept e2 \<le> s'"
    using f [of r] unfolding grows_def by blast
  show "\<exists>evs. trace (snd (thenA m f w)) = trace w @ evs \<and> requests evs \<le> c + c' \<and> slept evs \<le> s + s'"
    using e1 e2 r by (intro exI [of _ "e1 @ e2"]) (simp add: thenA_def)
qed

lemma bindA_thenA: "bindA m f = thenA m (\<lambda>r. case r of Inl e \<Rightarrow> failA e | Inr a \<Rightarrow> f a)"
  by (rule ext) (simp add: bindA_def thenA_def failA_def split: prod.splits sum.splits)

lemma grows_bind:
  assumes "grows c s m" and "\<And>a. grows c' s' (f a)"
  shows "grows (c + c') (s + s') (bindA m f)"
  unfolding bindA_thenA by (rule grows_then [OF assms(1)]) (auto intro: assms(2) split: sum.splits)

lemma grows_bind_free:
  assumes "grows c s m" and "\<And>a. grows 0 0 (f a)"
  shows "grows c s (bindA m f)"
  using grows_bind [OF assms] by simp

lemma grows_free_bind:
  assumes "\<And>a. grows c s (f a)"
  shows "grows c s (bindA (liftA r) f)"
  using grows_bind [OF grows_lift [of 0 0 r] assms] by simp

lemma grows_map [intro]: "grows c s m \<Longrightarrow> grows c s (mapA g m)"
  unfolding mapA_def by (rule grows_bind_free) auto

lemma grows_reply: "requests [ev] \<le> c \<Longrightarrow> slept [ev] = 0 \<Longrightarrow> grows c 0 (reply ev send)"
  by (auto simp: grows_def reply_def split: prod.splits)

lemma grows_transport:
  "grows 1 0 (transport_get tr path)" "grows 1 0 (transport_post tr path body)"
  "grows 1 0 (transport_delete tr path)"
  by (simp_all add: transport_get_def transport_post_def transport_delete_def grows_reply)

lemma grows_if: "(b \<Longrightarrow> grows c s m) \<Longrightarrow> (\<not> b \<Longrightarrow> grows c s n) \<Longrightarrow> grows c s (if b then m else n)"
  by simp

section \<open>Laws\<close>

lemma bindA_ret [simp]: "bindA (retA a) f = f a"
  by (rule ext) (simp add: bindA_def retA_def)

lemma bindA_fail [simp]: "bindA (failA e) f = failA e"
  by (rule ext) (simp add: bindA_def failA_def)

lemma bindA_liftInr [simp]: "bindA (liftA (Inr a)) f = f a" "bindA (liftA (Inl e)) f = failA e"
  by (rule ext, simp add: bindA_def liftA_def failA_def)+

lemma bindA_assoc: "bindA (bindA m f) g = bindA m (\<lambda>a. bindA (f a) g)"
  by (rule ext) (simp add: bindA_def split: prod.splits sum.splits)

lemma bindA_run:
  "m w = (Inr a, w') \<Longrightarrow> bindA m f w = f a w'" "m w = (Inl e, w') \<Longrightarrow> bindA m f w = (Inl e, w')"
  by (simp_all add: bindA_def)

lemma bindA_InrD:
  "bindA m f w = (Inr b, w') \<Longrightarrow> \<exists>a w1. m w = (Inr a, w1) \<and> f a w1 = (Inr b, w')"
  by (auto simp: bindA_def split: prod.splits sum.splits)

lemma mapA_run: "mapA g m w = (case m w of (Inl e, w') \<Rightarrow> (Inl e, w') | (Inr a, w') \<Rightarrow> (Inr (g a), w'))"
  by (simp add: mapA_def bindA_def retA_def split: prod.splits sum.splits)

lemma ret_run [simp]: "retA a w = (Inr a, w)" "failA e w = (Inl e, w)" "liftA r w = (r, w)"
  by (simp_all add: retA_def failA_def liftA_def)

lemmas [eff] = bindA_def thenA_def mapA_def retA_def failA_def liftA_def sleepA_def reply_def
  transport_get_def transport_post_def transport_delete_def

end
