(* ===== verification/Execute.thy ===== *)
theory Execute
  imports Effects Prepare Classify
begin

text \<open>
  Running one action with its two retry policies: \<open>crates/tinyconnectors/src/execute/retry.rs\<close>.
  The route's \<open>execute\<close> is an argument of the definitions; the locale \<open>priced_route\<close> is what the
  policies need from it, and each route's theory interprets it on its own model.
\<close>

definition post_oauth_retry_delay :: nat where "post_oauth_retry_delay = 8"

definition rate_limit_retry_tools :: "str list" where
  "rate_limit_retry_tools = [''SLACK_FETCH_CONVERSATION_HISTORY'']"

definition rate_limit_max_attempts :: nat where "rate_limit_max_attempts = 6"

definition rate_limit_initial_backoff :: nat where "rate_limit_initial_backoff = 2"

definition rate_limit_max_backoff :: nat where "rate_limit_max_backoff = 30"

definition post_oauth_not_ready :: str where
  "post_oauth_not_ready = ''connection error, try to authenticate''"

type_synonym 'e route_execute = "str \<Rightarrow> json \<Rightarrow> str option \<Rightarrow> ('e, execute_response) act"

definition is_post_oauth_not_ready :: "execute_response \<Rightarrow> bool" where
  "is_post_oauth_not_ready r \<longleftrightarrow>
     \<not> successful r \<and>
     (case resp_error r of None \<Rightarrow> False | Some e \<Rightarrow> contains (to_lower e) post_oauth_not_ready)"

definition with_post_oauth_retry :: "'e route_execute \<Rightarrow> 'e route_execute" where
  "with_post_oauth_retry exec tool arguments conn =
     bindA (exec tool arguments conn) (\<lambda>response.
       if \<not> is_post_oauth_not_ready response then retA response
       else bindA (sleepA post_oauth_retry_delay) (\<lambda>_. exec tool arguments conn))"

text \<open>The loop over the attempts that are left; \<open>delay\<close> is the next sleep.\<close>

fun rate_loop ::
  "'e route_execute \<Rightarrow> str \<Rightarrow> json \<Rightarrow> str option \<Rightarrow> nat list \<Rightarrow> nat \<Rightarrow> ('e, execute_response) act" where
  "rate_loop exec tool arguments conn [] delay = exec tool arguments conn"
| "rate_loop exec tool arguments conn (attempt # rest) delay =
     bindA (if attempt = 1 then with_post_oauth_retry exec tool arguments conn
            else exec tool arguments conn)
       (\<lambda>response.
          if successful response \<or> \<not> List.member rate_limit_retry_tools tool \<or>
             attempt = rate_limit_max_attempts
          then retA response
          else if classify_composio_error tool (unwrap_or [] (resp_error response)) \<noteq> RateLimited
          then retA response
          else bindA (sleepA delay) (\<lambda>_.
            rate_loop exec tool arguments conn rest (min (delay * 2) rate_limit_max_backoff)))"

definition with_rate_limit_retry :: "'e route_execute \<Rightarrow> 'e route_execute" where
  "with_rate_limit_retry exec tool arguments conn =
     rate_loop exec tool arguments conn [1..<Suc rate_limit_max_attempts] rate_limit_initial_backoff"

definition format_failure :: "str \<Rightarrow> execute_response \<Rightarrow> execute_response" where
  "format_failure tool response =
     (if successful response then response
      else response\<lparr>resp_error :=
        Some (format_provider_error tool
          (unwrap_or ''provider reported failure'' (resp_error response)))\<rparr>)"

definition non_blank :: "str option \<Rightarrow> str option" where
  "non_blank v = opt_filter (\<lambda>s. s \<noteq> []) (map_option trim v)"

definition execute_action ::
  "(json \<Rightarrow> str) \<Rightarrow> 'e route_execute \<Rightarrow> str \<Rightarrow> json option \<Rightarrow> str option \<Rightarrow>
   ('e, execute_response) act" where
  "execute_action show_json exec tool0 arguments conn =
     (let tool = trim tool0 in
      bindA (liftA (prepare_execute_arguments show_json tool arguments)) (\<lambda>prepared.
        mapA (format_failure tool) (with_rate_limit_retry exec tool prepared (non_blank conn))))"

section \<open>What a route promises\<close>

locale priced_route =
  fixes exec :: "'e route_execute" and cost :: nat
  assumes priced: "grows cost 0 (exec tool arguments conn)"
begin

lemma first_attempt: "grows (2 * cost) post_oauth_retry_delay (with_post_oauth_retry exec tool arguments conn)"
proof -
  have "grows (cost + (0 + cost)) (0 + (post_oauth_retry_delay + 0))
      (with_post_oauth_retry exec tool arguments conn)"
    unfolding with_post_oauth_retry_def
    by (intro grows_bind [OF priced] grows_if grows_ret grows_bind [OF grows_sleep priced])
  then show ?thesis by (simp add: mult_2)
qed

text \<open>The seconds the rest of the loop may still sleep.\<close>

fun sleep_budget :: "nat list \<Rightarrow> nat \<Rightarrow> nat" where
  "sleep_budget [] delay = 0"
| "sleep_budget (attempt # rest) delay =
     (if attempt = rate_limit_max_attempts then 0
      else delay + sleep_budget rest (min (delay * 2) rate_limit_max_backoff))"

fun call_budget :: "nat list \<Rightarrow> nat" where
  "call_budget [] = 1"
| "call_budget (attempt # rest) = 1 + (if attempt = rate_limit_max_attempts then 0 else call_budget rest)"

lemma later_attempts:
  "1 \<notin> set attempts \<Longrightarrow>
   grows (call_budget attempts * cost) (sleep_budget attempts delay)
     (rate_loop exec tool arguments conn attempts delay)"
proof (induction attempts arbitrary: delay)
  case Nil
  show ?case using priced by simp
next
  case (Cons a attempts)
  have ne: "(a = 1) = False" "1 \<notin> set attempts" "(rate_limit_max_attempts = 1) = False"
    using Cons.prems by (auto simp: rate_limit_max_attempts_def)
  show ?case
  proof (cases "a = rate_limit_max_attempts")
    case True
    have "grows cost 0 (bindA (exec tool arguments conn) (\<lambda>response. retA response))"
      by (intro grows_bind_free [OF priced] grows_ret)
    then show ?thesis
      by (simp only: rate_loop.simps ne True if_True if_False simp_thms call_budget.simps
          sleep_budget.simps mult_1 add_0_right)
  next
    case False
    have "grows (cost + (0 + call_budget attempts * cost))
        (0 + (delay + sleep_budget attempts (min (delay * 2) rate_limit_max_backoff)))
        (bindA (exec tool arguments conn) (\<lambda>response.
          if successful response \<or> \<not> List.member rate_limit_retry_tools tool then retA response
          else if classify_composio_error tool (unwrap_or [] (resp_error response)) \<noteq> RateLimited
          then retA response
          else bindA (sleepA delay) (\<lambda>_.
            rate_loop exec tool arguments conn attempts (min (delay * 2) rate_limit_max_backoff))))"
      using Cons.IH [OF ne(2)]
      by (intro grows_bind [OF priced] grows_if grows_ret grows_bind [OF grows_sleep])
    then show ?thesis
      by (simp only: rate_loop.simps ne False if_False simp_thms call_budget.simps
          sleep_budget.simps add_mult_distrib mult_1 add_0)
  qed
qed

lemma whole_loop: "grows (7 * cost) 68 (with_rate_limit_retry exec tool arguments conn)"
proof -
  let ?rest = "[2..<Suc rate_limit_max_attempts]"
  have attempts: "[1..<Suc rate_limit_max_attempts] = 1 # ?rest" "1 \<notin> set ?rest"
    "call_budget ?rest = 5" "sleep_budget ?rest 4 = 58"
    by (simp_all add: rate_limit_max_attempts_def rate_limit_max_backoff_def upt_rec)
  have "grows (2 * cost + (0 + call_budget ?rest * cost))
      (post_oauth_retry_delay + (2 + sleep_budget ?rest 4))
      (rate_loop exec tool arguments conn (1 # ?rest) 2)"
    unfolding rate_loop.simps
    using later_attempts [OF attempts(2), of 4 tool arguments conn] first_attempt
    by (intro grows_bind grows_if grows_ret grows_sleep)
      (simp_all add: rate_limit_max_backoff_def del: upt_Suc)
  then show ?thesis
    unfolding with_rate_limit_retry_def attempts(1) rate_limit_initial_backoff_def attempts(3,4)
    by (simp add: post_oauth_retry_delay_def algebra_simps)
qed

lemma single_attempt:
  assumes "\<not> List.member rate_limit_retry_tools tool"
  shows "with_rate_limit_retry exec tool arguments conn = with_post_oauth_retry exec tool arguments conn"
  using assms
  by (simp add: with_rate_limit_retry_def rate_limit_max_attempts_def upt_rec bindA_def fun_eq_iff
      split: prod.splits sum.splits)

lemma execute_action_cost: "grows (7 * cost) 68 (execute_action show_json exec tool arguments conn)"
  unfolding execute_action_def Let_def by (intro grows_free_bind grows_map whole_loop)

lemma execute_action_single:
  assumes "\<not> List.member rate_limit_retry_tools (trim tool)"
  shows "grows (2 * cost) 8 (execute_action show_json exec tool arguments conn)"
  unfolding execute_action_def Let_def single_attempt [OF assms]
  by (intro grows_free_bind grows_map first_attempt [unfolded post_oauth_retry_delay_def])

end

section \<open>Laws\<close>

lemma rejected_sends_nothing:
  "prepare_execute_arguments show_json (trim tool) arguments = Inl e \<Longrightarrow>
   execute_action show_json exec tool arguments conn w = (Inl e, w)"
  by (simp add: execute_action_def)

text \<open>A response no policy applies to is returned after one call of the route.\<close>

definition is_final :: "str \<Rightarrow> execute_response \<Rightarrow> bool" where
  "is_final tool r \<longleftrightarrow>
     successful r \<or>
     (\<not> is_post_oauth_not_ready r \<and>
      (\<not> List.member rate_limit_retry_tools tool \<or>
       classify_composio_error tool (unwrap_or [] (resp_error r)) \<noteq> RateLimited))"

lemma not_ready_unsuccessful: "is_post_oauth_not_ready r \<Longrightarrow> \<not> successful r"
  by (simp add: is_post_oauth_not_ready_def)

lemma attempts_unfold: "[1..<Suc rate_limit_max_attempts] = [1, 2, 3, 4, 5, 6]"
  by (simp add: rate_limit_max_attempts_def upt_rec)

lemma final_response:
  assumes "exec tool arguments conn w = (Inr r, w')" "is_final tool r"
  shows "with_rate_limit_retry exec tool arguments conn w = (Inr r, w')"
proof -
  have first: "with_post_oauth_retry exec tool arguments conn w = (Inr r, w')"
    using assms not_ready_unsuccessful [of r]
    by (auto simp: with_post_oauth_retry_def bindA_def is_final_def)
  show ?thesis
    using assms(2) first unfolding with_rate_limit_retry_def attempts_unfold
    by (auto simp: bindA_def is_final_def rate_limit_max_attempts_def)
qed

lemma failed_call:
  assumes "exec tool arguments conn w = (Inl e, w')"
  shows "with_rate_limit_retry exec tool arguments conn w = (Inl e, w')"
  using assms unfolding with_rate_limit_retry_def attempts_unfold
  by (simp add: with_post_oauth_retry_def bindA_def)

section \<open>Properties\<close>

text \<open>
  One call is enough unless a policy says otherwise: arguments the preparation rejects send
  nothing; a call that never completed is reported as it is, without a retry; and a response that
  succeeded, or failed for a reason no retry policy covers, is returned after that single call
  of the route, with its error rewritten for the user and nothing else changed.
\<close>

theorem execute_action_outcome:
  "(case prepare_execute_arguments show_json (trim tool) arguments of
      Inl e \<Rightarrow> execute_action show_json exec tool arguments conn w = (Inl e, w)
    | Inr prepared \<Rightarrow>
        (case exec (trim tool) prepared (non_blank conn) w of
           (Inl e, w') \<Rightarrow> execute_action show_json exec tool arguments conn w = (Inl e, w')
         | (Inr r, w') \<Rightarrow>
             if is_final (trim tool) r
             then execute_action show_json exec tool arguments conn w =
                    (Inr (format_failure (trim tool) r), w')
             else True))"
proof (cases "prepare_execute_arguments show_json (trim tool) arguments")
  case (Inl e)
  then show ?thesis by (simp add: rejected_sends_nothing)
next
  case (Inr prepared)
  have run: "execute_action show_json exec tool arguments conn w =
      mapA (format_failure (trim tool)) (with_rate_limit_retry exec (trim tool) prepared (non_blank conn)) w"
    by (simp add: execute_action_def Inr Let_def)
  show ?thesis
    unfolding run Inr
    using final_response [of exec "trim tool" prepared "non_blank conn" w]
      failed_call [of exec "trim tool" prepared "non_blank conn" w]
    by (auto simp: mapA_run split: prod.splits sum.splits)
qed

text \<open>
  The backoff is exact: against a route that answers every call with the same rate limit,
  Slack's history read makes exactly six calls with sleeps of 2, 4, 8, 16 and 30 seconds between
  them, and then reports the limit.
\<close>

theorem rate_limit_schedule:
  assumes "List.member rate_limit_retry_tools tool" "\<not> successful r" "\<not> is_post_oauth_not_ready r"
    and "classify_composio_error tool (unwrap_or [] (resp_error r)) = RateLimited"
    and "exec = (\<lambda>tool arguments conn w. (Inr r, w\<lparr>trace := trace w @ [Post path arguments]\<rparr>))"
  shows "with_rate_limit_retry exec tool arguments conn w =
    (Inr r, w\<lparr>trace := trace w @
       [Post path arguments, Sleep 2, Post path arguments, Sleep 4, Post path arguments, Sleep 8,
        Post path arguments, Sleep 16, Post path arguments, Sleep 30, Post path arguments]\<rparr>)"
proof -
  have call: "exec tool arguments conn w' = (Inr r, w'\<lparr>trace := trace w' @ [Post path arguments]\<rparr>)" for w'
    by (simp add: assms(5))
  have first: "with_post_oauth_retry exec tool arguments conn w' =
      (Inr r, w'\<lparr>trace := trace w' @ [Post path arguments]\<rparr>)" for w'
    by (simp add: with_post_oauth_retry_def bindA_def call assms(3))
  show ?thesis
    unfolding with_rate_limit_retry_def attempts_unfold
    by (simp add: bindA_def call first assms(1,2,4) [simplified] sleepA_def
        rate_limit_max_attempts_def rate_limit_initial_backoff_def rate_limit_max_backoff_def)
qed

theorem rate_limit_schedule_witness:
  "\<exists>exec r (w :: unit world).
     with_rate_limit_retry exec ''SLACK_FETCH_CONVERSATION_HISTORY'' JNull None w =
       (Inr r, w\<lparr>trace := trace w @
         [Post [] JNull, Sleep 2, Post [] JNull, Sleep 4, Post [] JNull, Sleep 8, Post [] JNull, Sleep 16,
          Post [] JNull, Sleep 30, Post [] JNull]\<rparr>) \<and> \<not> successful r"
proof -
  let ?r = "\<lparr>resp_data = JNull, successful = False, resp_error = Some ''Rate limited'', cost_usd = 0,
    markdown_formatted = None\<rparr>"
  let ?w = "\<lparr>env = (), gate = Map.empty, trace = []\<rparr>"
  have a: "List.member rate_limit_retry_tools ''SLACK_FETCH_CONVERSATION_HISTORY''" by code_simp
  have b: "\<not> successful ?r" by simp
  have c: "\<not> is_post_oauth_not_ready ?r" by code_simp
  have d: "classify_composio_error ''SLACK_FETCH_CONVERSATION_HISTORY'' (unwrap_or [] (resp_error ?r)) =
      RateLimited" by code_simp
  from rate_limit_schedule [OF a b c d refl, of "[]" JNull None ?w] b show ?thesis by blast
qed

end
