(* ===== verification/OAuth.thy ===== *)
theory OAuth
  imports Effects
begin

text \<open>
  OAuth handoff policy: \<open>crates/tinyconnectors/src/oauth/{status,retry}.rs\<close>. Which toolkits share
  Meta's rate limit, which connection rows a fresh handoff may delete, and the backoff of an
  authorize call. The attempt is an argument of the retry, as in the code.
\<close>

definition meta_oauth_toolkits :: "str list" where
  "meta_oauth_toolkits = [''instagram'', ''facebook'']"

definition is_meta_oauth_toolkit :: "str \<Rightarrow> bool" where
  "is_meta_oauth_toolkit toolkit = List.member meta_oauth_toolkits (to_lower (trim toolkit))"

definition is_inflight_oauth_status :: "str \<Rightarrow> bool" where
  "is_inflight_oauth_status status =
     List.member [''PENDING'', ''INITIATED'', ''INITIALIZING''] (to_upper (trim status))"

definition is_clearable_oauth_status :: "str \<Rightarrow> bool" where
  "is_clearable_oauth_status status \<longleftrightarrow>
     is_inflight_oauth_status status \<or>
     List.member [''FAILED'', ''ERROR'', ''EXPIRED''] (to_upper (trim status))"

definition is_authorize_rate_limited :: "str \<Rightarrow> bool" where
  "is_authorize_rate_limited err =
     contains_any (to_lower err)
       [''429'', ''too many requests'', ''rate limit'', ''rate_limit'', ''ratelimited'']"

definition account_hint :: "str \<Rightarrow> str" where
  "account_hint name =
     (if eq_ignore_case name ''instagram'' then
        '' Use an Instagram Business or Creator account '' @ [CHR 0xE2, CHR 0x80, CHR 0x94] @
        '' personal accounts are not supported.''
      else if eq_ignore_case name ''facebook'' then
        '' Confirm the Facebook account has access to the relevant Page or Business Manager.''
      else [])"

definition meta_oauth_rate_limit_message :: "str \<Rightarrow> str" where
  "meta_oauth_rate_limit_message toolkit =
     (let name = trim toolkit in
      ''Meta is temporarily rate-limiting '' @ name @ '' sign-in (HTTP 429). Wait a few '' @
      ''minutes before retrying and avoid clicking Connect repeatedly.'' @ account_hint name)"

definition wrap_authorize_rate_limit_error :: "str \<Rightarrow> error \<Rightarrow> error" where
  "wrap_authorize_rate_limit_error toolkit e =
     (if is_meta_oauth_toolkit toolkit \<and> is_authorize_rate_limited (error_text e)
      then OauthRateLimited (trim toolkit) (meta_oauth_rate_limit_message toolkit)
      else e)"

section \<open>The retry\<close>

definition authorize_max_attempts :: nat where "authorize_max_attempts = 3"

definition authorize_initial_backoff :: nat where "authorize_initial_backoff = 5"

definition authorize_max_backoff :: nat where "authorize_max_backoff = 60"

fun authorize_loop :: "('e, 'a) act \<Rightarrow> nat list \<Rightarrow> nat \<Rightarrow> ('e, 'a) act" where
  "authorize_loop attempt [] delay = attempt"
| "authorize_loop attempt (n # rest) delay =
     thenA attempt (\<lambda>r. case r of
        Inr v \<Rightarrow> retA v
      | Inl e \<Rightarrow>
          (if \<not> is_authorize_rate_limited (error_text e) then failA e
           else bindA (sleepA delay)
             (\<lambda>_. authorize_loop attempt rest (min (delay * 2) authorize_max_backoff))))"

definition authorize_with_rate_limit_retry :: "('e, 'a) act \<Rightarrow> ('e, 'a) act" where
  "authorize_with_rate_limit_retry attempt =
     authorize_loop attempt [1..<authorize_max_attempts] authorize_initial_backoff"

section \<open>Laws\<close>

lemma clearable_upper:
  "is_clearable_oauth_status s \<longleftrightarrow>
     to_upper (trim s) \<in> {''PENDING'', ''INITIATED'', ''INITIALIZING'', ''FAILED'', ''ERROR'', ''EXPIRED''}"
  by (auto simp: is_clearable_oauth_status_def is_inflight_oauth_status_def)

lemma active_upper: "is_active c \<longleftrightarrow> to_upper (trim (conn_status c)) \<in> {''ACTIVE'', ''CONNECTED''}"
proof -
  have "to_upper ''ACTIVE'' = ''ACTIVE''" "to_upper ''CONNECTED'' = ''CONNECTED''" by code_simp+
  then show ?thesis by (simp add: is_active_def Let_def eq_ignore_case_upper)
qed

lemma clearable_inactive: "is_clearable_oauth_status (conn_status c) \<Longrightarrow> \<not> is_active c"
  unfolding clearable_upper active_upper by auto

lemma is_authorize_rate_limited_429: "contains s ''429'' \<Longrightarrow> is_authorize_rate_limited s"
proof -
  assume "contains s ''429''"
  then have "sublist (to_lower ''429'') (to_lower s)"
    unfolding contains_sublist sublist_def to_lower_def by (metis map_append)
  moreover have "to_lower ''429'' = ''429''" by code_simp
  ultimately show ?thesis
    unfolding is_authorize_rate_limited_def contains_any_def contains_sublist
    by (simp only: list.pred_inject(2) list_ex_iff list.set insert_iff) blast
qed

lemma message_429: "is_authorize_rate_limited (meta_oauth_rate_limit_message toolkit)"
proof (rule is_authorize_rate_limited_429)
  have "'' sign-in (HTTP 429). Wait a few '' = '' sign-in (HTTP '' @ ''429'' @ ''). Wait a few ''" by simp
  then show "contains (meta_oauth_rate_limit_message toolkit) ''429''"
    unfolding meta_oauth_rate_limit_message_def Let_def contains_sublist
    by (simp only: sublist_append sublist_order.order_refl simp_thms)
qed

lemma meta_trim: "is_meta_oauth_toolkit (trim toolkit) = is_meta_oauth_toolkit toolkit"
  by (simp add: is_meta_oauth_toolkit_def)

lemma wrap_rate_limited:
  "is_meta_oauth_toolkit toolkit \<Longrightarrow>
   wrap_authorize_rate_limit_error toolkit (OauthRateLimited (trim toolkit) (meta_oauth_rate_limit_message toolkit)) =
   OauthRateLimited (trim toolkit) (meta_oauth_rate_limit_message toolkit)"
  by (simp only: wrap_authorize_rate_limit_error_def error_text.simps message_429 if_True simp_thms)

text \<open>One round of the loop: an attempt, a sleep, and what is left.\<close>

lemma authorize_round:
  assumes "grows c 0 attempt"
    and "grows c' s' (authorize_loop attempt left (min (delay * 2) authorize_max_backoff))"
  shows "grows (c + c') (delay + s') (authorize_loop attempt (n # left) delay)"
proof -
  have "grows (0 + c') (delay + s') (bindA (sleepA delay)
      (\<lambda>_. authorize_loop attempt left (min (delay * 2) authorize_max_backoff)))"
    by (rule grows_bind [OF grows_sleep assms(2)])
  then have "grows (c + c') (0 + (delay + s')) (authorize_loop attempt (n # left) delay)"
    unfolding authorize_loop.simps
    by (intro grows_then [OF assms(1)]) (auto split: sum.splits)
  then show ?thesis by simp
qed

lemma authorize_attempts: "[1..<authorize_max_attempts] = [1, 2]"
  by (simp add: authorize_max_attempts_def upt_rec)

lemma authorize_cost:
  assumes "grows c 0 attempt"
  shows "grows (3 * c) 15 (authorize_with_rate_limit_retry attempt)"
proof -
  have d: "min (5 * 2) authorize_max_backoff = 10" by (simp add: authorize_max_backoff_def)
  have "grows c 0 (authorize_loop attempt [] (min (10 * 2) authorize_max_backoff))"
    using assms by simp
  then have "grows (c + (c + c)) (5 + (10 + 0)) (authorize_loop attempt [1, 2] 5)"
    by (intro authorize_round [OF assms]) (simp only: d authorize_round [OF assms])
  then show ?thesis
    unfolding authorize_with_rate_limit_retry_def authorize_attempts authorize_initial_backoff_def
    by (rule grows_mono) simp_all
qed

section \<open>Properties\<close>

text \<open>
  Clearing before a handoff is safe: a row whose status may be deleted is never one the user
  is connected through, and the guidance that replaces Meta's rate limit is stable: wrapping a
  wrapped failure changes nothing, while any failure of another toolkit, and any that is not a
  rate limit, is left as it was.
\<close>

theorem oauth_policy_safe:
  "\<not> (is_clearable_oauth_status (conn_status c) \<and> is_active c) \<and>
   wrap_authorize_rate_limit_error toolkit (wrap_authorize_rate_limit_error toolkit e) =
     wrap_authorize_rate_limit_error toolkit e \<and>
   (if is_meta_oauth_toolkit toolkit \<and> is_authorize_rate_limited (error_text e)
    then is_authorize_rate_limited (error_text (wrap_authorize_rate_limit_error toolkit e))
    else wrap_authorize_rate_limit_error toolkit e = e)"
proof (cases "is_meta_oauth_toolkit toolkit \<and> is_authorize_rate_limited (error_text e)")
  case True
  then have w: "wrap_authorize_rate_limit_error toolkit e =
      OauthRateLimited (trim toolkit) (meta_oauth_rate_limit_message toolkit)"
    by (simp only: wrap_authorize_rate_limit_error_def if_True simp_thms)
  show ?thesis
    unfolding if_P [OF True] w error_text.simps
    using clearable_inactive wrap_rate_limited True message_429 by blast
next
  case False
  then have w: "wrap_authorize_rate_limit_error toolkit e = e"
    by (simp only: wrap_authorize_rate_limit_error_def if_False)
  show ?thesis unfolding if_not_P [OF False] w using clearable_inactive by blast
qed

text \<open>
  An authorize call is attempted at most three times with at most fifteen seconds of sleep
  in all: if one attempt makes at most \<open>c\<close> requests, the whole makes at most \<open>3 c\<close>.
\<close>

theorem authorize_retry_bounded:
  assumes "grows c 0 attempt"
  shows "\<exists>evs. trace (snd (authorize_with_rate_limit_retry attempt w)) = trace w @ evs \<and>
    requests evs \<le> 3 * c \<and> slept evs \<le> 15"
  using authorize_cost [OF assms] unfolding grows_def by blast

theorem authorize_retry_bounded_witness:
  "grows 1 0 (failA (OauthRateLimited [] ''429'') :: (unit, unit) act) \<and>
   (\<exists>evs. trace (snd (authorize_with_rate_limit_retry (failA (OauthRateLimited [] ''429'') :: (unit, unit) act)
      \<lparr>env = (), gate = Map.empty, trace = []\<rparr>)) = evs \<and> requests evs \<le> 3 \<and> slept evs \<le> 15)"
proof -
  have g: "grows 1 0 (failA (OauthRateLimited [] ''429'') :: (unit, unit) act)" by (rule grows_fail)
  show ?thesis
    using g authorize_retry_bounded [OF g, of "\<lparr>env = (), gate = Map.empty, trace = []\<rparr>"] by simp
qed

end
