(* ===== verification/Url.thy ===== *)
theory Url
  imports Errors
begin

text \<open>
  Percent-encoding of values that become part of a request URL:
  \<open>crates/tinyconnectors/src/client/route/url.rs\<close>. The encoder of the library writes a byte
  outside the kept set as a percent sign and two upper-case hexadecimal digits.
\<close>

definition kept :: "char \<Rightarrow> bool" where
  "kept c \<longleftrightarrow> is_alnum c \<or> List.member [CHR ''-'', CHR ''.'', CHR ''_'', CHR ''~''] c"

fun hex_digit :: "bool \<Rightarrow> bool \<Rightarrow> bool \<Rightarrow> bool \<Rightarrow> char" where
  "hex_digit b0 b1 b2 b3 =
     ''0123456789ABCDEF'' !
       ((if b0 then 1 else 0) + (if b1 then 2 else 0) + (if b2 then 4 else 0) + (if b3 then 8 else 0))"

declare hex_digit.simps [simp del]

fun escape :: "char \<Rightarrow> str" where
  "escape (Char b0 b1 b2 b3 b4 b5 b6 b7) = [CHR ''%'', hex_digit b4 b5 b6 b7, hex_digit b0 b1 b2 b3]"

definition percent_encode :: "str \<Rightarrow> str" where
  "percent_encode s = concat (map (\<lambda>c. if kept c then [c] else escape c) s)"

definition encode :: "str \<Rightarrow> str" where
  "encode s = percent_encode (trim s)"

definition segment :: "str \<Rightarrow> str \<Rightarrow> str res" where
  "segment value what =
     (let trimmed = trim value in
      if list_all (\<lambda>c. c = CHR ''.'') trimmed
      then Inl (InvalidArguments what (''`'' @ trimmed @ ''` is not a valid path segment''))
      else Inr (encode trimmed))"

definition comma_joined :: "str list \<Rightarrow> str option" where
  "comma_joined vals =
     (let joined = join '','' (map encode (filter (\<lambda>v. v \<noteq> []) (map trim vals))) in
      if joined = [] then None else Some joined)"

section \<open>Decoding\<close>

text \<open>The reference decoder a server applies.\<close>

definition nibble :: "char \<Rightarrow> (bool \<times> bool \<times> bool \<times> bool) option" where
  "nibble c = map_of
     [(CHR ''0'', (False, False, False, False)), (CHR ''1'', (True, False, False, False)),
      (CHR ''2'', (False, True, False, False)), (CHR ''3'', (True, True, False, False)),
      (CHR ''4'', (False, False, True, False)), (CHR ''5'', (True, False, True, False)),
      (CHR ''6'', (False, True, True, False)), (CHR ''7'', (True, True, True, False)),
      (CHR ''8'', (False, False, False, True)), (CHR ''9'', (True, False, False, True)),
      (CHR ''A'', (False, True, False, True)), (CHR ''B'', (True, True, False, True)),
      (CHR ''C'', (False, False, True, True)), (CHR ''D'', (True, False, True, True)),
      (CHR ''E'', (False, True, True, True)), (CHR ''F'', (True, True, True, True))] c"

fun percent_decode :: "str \<Rightarrow> str option" where
  "percent_decode [] = Some []"
| "percent_decode (c # s) =
     (if c \<noteq> CHR ''%'' then map_option ((#) c) (percent_decode s)
      else case s of
        h # l # t \<Rightarrow>
          (case (nibble h, nibble l) of
             (Some (b4, b5, b6, b7), Some (b0, b1, b2, b3)) \<Rightarrow>
               map_option ((#) (Char b0 b1 b2 b3 b4 b5 b6 b7)) (percent_decode t)
           | _ \<Rightarrow> None)
      | _ \<Rightarrow> None)"

lemma nibble_hex [simp]: "nibble (hex_digit b0 b1 b2 b3) = Some (b0, b1, b2, b3)"
  by (cases b0; cases b1; cases b2; cases b3) (simp_all add: nibble_def hex_digit.simps)

lemma percent_not_kept [simp]: "\<not> kept CHR ''%''"
  by (simp add: kept_def is_alnum_def)

lemma decode_escape: "percent_decode (escape c @ t) = map_option ((#) c) (percent_decode t)"
  by (cases c) simp

lemma decode_encode: "percent_decode (percent_encode s) = Some s"
proof (induction s)
  case (Cons c s)
  then show ?case
    using decode_escape [of c "percent_encode s"] by (auto simp: percent_encode_def)
qed (simp add: percent_encode_def)

interpretation percent: codec percent_encode percent_decode Some
  by unfold_locales (simp_all add: decode_encode)

lemma hex_kept: "kept (hex_digit b0 b1 b2 b3)"
  by (cases b0; cases b1; cases b2; cases b3) (simp_all add: kept_def is_alnum_def hex_digit.simps)

lemma encode_chars: "c \<in> set (percent_encode s) \<Longrightarrow> kept c \<or> c = CHR ''%''"
proof -
  have "d \<in> set (escape x) \<Longrightarrow> kept d \<or> d = CHR ''%''" for d x
    by (cases x) (auto simp: hex_kept)
  then show "c \<in> set (percent_encode s) \<Longrightarrow> kept c \<or> c = CHR ''%''"
    by (auto simp: percent_encode_def split: if_splits)
qed

lemma percent_encode_Nil [simp]: "percent_encode s = [] \<longleftrightarrow> s = []"
  by (cases s; cases "hd s") (auto simp: percent_encode_def)

lemma encode_trim [simp]: "encode (trim s) = encode s"
  by (simp add: encode_def)

text \<open>The characters that separate the parts of a URL.\<close>

definition url_special :: "char list" where
  "url_special = [CHR ''/'', CHR ''?'', CHR ''#'', CHR ''&'', CHR ''='', CHR '','', CHR '':'', CHR ''@'',
     CHR '' '', CHR 0x0A, CHR 0x0D, CHR 0x00]"

lemma special_not_kept: "list_all (\<lambda>c. \<not> kept c \<and> c \<noteq> CHR ''%'') url_special"
  by (simp add: url_special_def kept_def is_alnum_def)

lemma encode_no_special: "c \<in> set url_special \<Longrightarrow> c \<notin> set (encode s)"
  using encode_chars [of c "trim s"] special_not_kept by (auto simp: encode_def list_all_iff)

lemma dots_encode: "percent_encode s = replicate n CHR ''.'' \<Longrightarrow> s = replicate n CHR ''.''"
proof -
  assume "percent_encode s = replicate n CHR ''.''"
  moreover have "percent_encode (replicate n CHR ''.'') = replicate n CHR ''.''"
    by (induction n) (auto simp: percent_encode_def kept_def)
  ultimately show ?thesis using percent.enc_inj by metis
qed

section \<open>Properties\<close>

text \<open>
  C33. A value from the bus cannot change where a request goes: its encoding holds no character
  that separates parts of a URL, decodes to the trimmed value, so different values stay
  different, and a path segment is refused exactly when the trimmed value is only dots or empty,
  so an accepted one is never empty and never a dot segment.
\<close>

theorem url_values_inert:
  "list_all (\<lambda>c. c \<notin> set (encode v)) url_special \<and>
   percent_decode (encode v) = Some (trim v) \<and> (encode v = encode w \<longleftrightarrow> trim v = trim w) \<and>
   (case segment v what of
      Inl e \<Rightarrow> (\<exists>msg. e = InvalidArguments what msg) \<and> trim v = replicate (length (trim v)) CHR ''.''
    | Inr p \<Rightarrow> p = encode v \<and> list_ex (\<lambda>c. c \<noteq> CHR ''.'') p)"
proof -
  have dots: "list_all (\<lambda>c. c = CHR ''.'') s \<longleftrightarrow> s = replicate (length s) CHR ''.''" for s
    by (induction s) auto
  have refuse: "segment v what =
      (if list_all (\<lambda>c. c = CHR ''.'') (trim v)
       then Inl (InvalidArguments what (''`'' @ trim v @ ''` is not a valid path segment''))
       else Inr (encode v))"
    by (simp only: segment_def Let_def encode_trim)
  have ok: "list_ex (\<lambda>c. c \<noteq> CHR ''.'') (encode v)" if "\<not> list_all (\<lambda>c. c = CHR ''.'') (trim v)"
  proof (rule ccontr)
    assume "\<not> list_ex (\<lambda>c. c \<noteq> CHR ''.'') (encode v)"
    then have "list_all (\<lambda>c. c = CHR ''.'') (encode v)" by (simp add: list_ex_iff list_all_iff)
    then have "encode v = replicate (length (encode v)) CHR ''.''" using dots by blast
    then have "trim v = replicate (length (encode v)) CHR ''.''"
      unfolding encode_def by (rule dots_encode)
    then have "list_all (\<lambda>c. c = CHR ''.'') (trim v)" by (metis dots length_replicate)
    with that show False by blast
  qed
  have a: "list_all (\<lambda>c. c \<notin> set (encode v)) url_special"
    by (simp only: list_all_iff encode_no_special ball_simps simp_thms not_False_eq_True)
      (use encode_no_special in blast)
  have b: "percent_decode (encode v) = Some (trim v) \<and> (encode v = encode w \<longleftrightarrow> trim v = trim w)"
    by (simp add: encode_def decode_encode percent.enc_inj)
  have c: "case segment v what of
      Inl e \<Rightarrow> (\<exists>msg. e = InvalidArguments what msg) \<and> trim v = replicate (length (trim v)) CHR ''.''
    | Inr p \<Rightarrow> p = encode v \<and> list_ex (\<lambda>c. c \<noteq> CHR ''.'') p"
  proof (cases "list_all (\<lambda>c. c = CHR ''.'') (trim v)")
    case True
    then have "trim v = replicate (length (trim v)) CHR ''.''" using dots by blast
    then show ?thesis unfolding refuse if_P [OF True] sum.case by blast
  next
    case False
    from ok [OF False] show ?thesis unfolding refuse if_not_P [OF False] sum.case by blast
  qed
  show ?thesis using a b c by blast
qed

text \<open>
  A comma-joined parameter is left out exactly when every value is blank, and otherwise
  holds one encoded entry per value that is not blank, in order: splitting it at the commas
  gives them back.
\<close>

lemma split_join:
  "xs \<noteq> [] \<Longrightarrow> list_all (\<lambda>x. d \<notin> set x) xs \<Longrightarrow> split_on d (join [d] xs) = xs"
proof (induction "[d]" xs rule: join.induct)
  case (2 x)
  have "d \<notin> set x \<Longrightarrow> split_on d x = [x]" by (induction x) auto
  with 2 show ?case by simp
next
  case (3 x y xs)
  have "d \<notin> set x \<Longrightarrow> split_on d (x @ d # t) = x # split_on d t" for t
    by (induction x) auto
  with 3 show ?case by simp
qed simp

lemma join_empty: "list_all (\<lambda>e. e \<noteq> []) es \<Longrightarrow> join sep es = [] \<longleftrightarrow> es = []"
  by (induction sep es rule: join.induct) auto

theorem comma_joined_entries:
  "(case comma_joined vals of
      None \<Rightarrow> list_all (\<lambda>v. trim v = []) vals
    | Some joined \<Rightarrow>
        list_ex (\<lambda>v. trim v \<noteq> []) vals \<and>
        split_on CHR '','' joined = map encode (filter (\<lambda>v. trim v \<noteq> []) vals))"
proof -
  let ?es = "map encode (filter (\<lambda>v. v \<noteq> []) (map trim vals))"
  have es: "?es = map encode (filter (\<lambda>v. trim v \<noteq> []) vals)"
    by (induction vals) auto
  have ne: "list_all (\<lambda>e. e \<noteq> []) ?es" by (auto simp: list_all_iff encode_def)
  have empty: "join '','' ?es = [] \<longleftrightarrow> ?es = []" using ne by (rule join_empty)
  have "CHR '','' \<in> set url_special" by (simp add: url_special_def)
  then have "list_all (\<lambda>e. CHR '','' \<notin> set e) ?es" by (auto simp: list_all_iff encode_no_special)
  then have "?es \<noteq> [] \<Longrightarrow> split_on CHR '','' (join '','' ?es) = ?es" by (rule split_join [rotated])
  then show ?thesis
    unfolding comma_joined_def Let_def empty
    by (auto simp: es list_ex_iff list_all_iff filter_empty_conv)
qed

end
