(* ===== verification/V3_Rows.thy ===== *)
theory V3_Rows
  imports Types
begin

text \<open>
  Reading Composio's v3 rows: the pure translations of
  \<open>crates/tinyconnectors/src/client/route/direct.rs\<close> (field readers, connections, tool schemas,
  execute results) and of \<open>direct_triggers.rs\<close> (listings, trigger types, active instances).
\<close>

section \<open>Field readers\<close>

definition inner_keys :: "str list" where
  "inner_keys = [''slug'', ''id'', ''name'', ''key'']"

definition field :: "json \<Rightarrow> str list \<Rightarrow> str option" where
  "field item keys =
     first_some (\<lambda>k. case jget item k of
         Some (JStr s) \<Rightarrow> Some s
       | Some (JObj nested) \<Rightarrow> first_some (string_at nested) inner_keys
       | _ \<Rightarrow> None) keys"

definition filled_text :: "str option \<Rightarrow> str option" where
  "filled_text v = opt_filter (\<lambda>s. s \<noteq> []) (map_option trim v)"

definition slug_field :: "json \<Rightarrow> str list \<Rightarrow> str option" where
  "slug_field item keys =
     first_some (\<lambda>k. case jget item k of
         Some (JStr s) \<Rightarrow> filled_text (Some s)
       | Some (JObj nested) \<Rightarrow> first_some (\<lambda>i. filled_text (string_at nested i)) inner_keys
       | _ \<Rightarrow> None) keys"

section \<open>Connections, tools and results\<close>

definition connection_from_v3 :: "json \<Rightarrow> connection option" where
  "connection_from_v3 item =
     (case field item [''id'', ''nanoid'', ''connectedAccountId''] of
        None \<Rightarrow> None
      | Some raw \<Rightarrow>
          (let i = trim raw in
           if i = [] then None
           else Some
             \<lparr>conn_id = i,
              conn_toolkit = unwrap_or [] (slug_field item
                [''toolkit'', ''appName'', ''app_name'', ''toolkit_slug'', ''appUniqueId'']),
              conn_status = unwrap_or [] (field item [''status'', ''connectionStatus'']),
              conn_created_at = field item [''createdAt'', ''created_at''],
              conn_account_email = field item [''accountEmail'', ''email''],
              conn_workspace = field item [''workspace'', ''teamName''],
              conn_username = field item [''username'', ''login'', ''screenName'']\<rparr>))"

definition tool_schema_row :: "json \<Rightarrow> tool_schema option" where
  "tool_schema_row row =
     (case field row [''slug'', ''name''] of
        None \<Rightarrow> None
      | Some name \<Rightarrow>
          (if name = [] then None
           else Some
             \<lparr>ts_kind = ''function'',
              ts_function =
                \<lparr>tf_name = name,
                 tf_description = field row [''description'', ''name''],
                 tf_parameters = or_else (jget row ''input_parameters'') (jget row ''parameters''),
                 tf_output_parameters = jget row ''output_parameters''\<rparr>\<rparr>))"

definition tool_schemas_from_v3 :: "json \<Rightarrow> tool_schema list" where
  "tool_schemas_from_v3 v =
     (let items = unwrap_or v (or_else (or_else (jget v ''items'') (jget v ''data'')) (jget v ''tools'')) in
      case as_array items of None \<Rightarrow> [] | Some rows \<Rightarrow> filter_map tool_schema_row rows)"

definition execute_response_from_v3 :: "json \<Rightarrow> execute_response" where
  "execute_response_from_v3 raw =
     (let has_error = (case jget raw ''error'' of None \<Rightarrow> False | Some e \<Rightarrow> \<not> is_null e) in
      \<lparr>resp_data = unwrap_or raw (jget raw ''data''),
       successful = unwrap_or (\<not> has_error)
         (Option.bind (or_else (jget raw ''successful'') (jget raw ''success'')) as_bool),
       resp_error = Option.bind (jget raw ''error'') as_str,
       cost_usd = 0,
       markdown_formatted = None\<rparr>)"

section \<open>Listings\<close>

definition listing_items :: "json \<Rightarrow> json" where
  "listing_items v = unwrap_or v (or_else (jget v ''items'') (jget v ''data''))"

definition rows_of :: "json \<Rightarrow> json list" where
  "rows_of v = unwrap_or [] (as_array (listing_items v))"

definition next_cursor :: "json \<Rightarrow> str option" where
  "next_cursor v = slug_field v [''next_cursor'', ''nextCursor'']"

definition connections_of :: "json \<Rightarrow> connection list" where
  "connections_of v =
     (case as_array (listing_items v) of None \<Rightarrow> [] | Some rows \<Rightarrow> filter_map connection_from_v3 rows)"

section \<open>Triggers\<close>

definition field_default :: "str \<times> json \<Rightarrow> (str \<times> json) option" where
  "field_default kv = map_option (\<lambda>d. (fst kv, d)) (jget (snd kv) ''default'')"

definition config_shape :: "json option \<Rightarrow> fields \<times> str list option" where
  "config_shape config =
     (case Option.bind config as_object of
        None \<Rightarrow> ([], None)
      | Some c \<Rightarrow>
          (let schema_fields = Option.bind (map_of c ''properties'') as_object;
               required_list = Option.bind (map_of c ''required'') as_array in
           if schema_fields \<noteq> None \<or> required_list \<noteq> None then
             (obj_of (filter_map field_default (unwrap_or [] schema_fields)),
              map_option (filter_map as_str) required_list)
           else
             (let fs = filter (\<lambda>kv. as_object (snd kv) \<noteq> None) c;
                  required = map fst
                    (filter (\<lambda>kv. Option.bind (jget (snd kv) ''required'') as_bool = Some True) fs) in
              (obj_of (filter_map field_default fs), if required = [] then None else Some required))))"

definition available_trigger_from_v3 :: "json \<Rightarrow> available_trigger option" where
  "available_trigger_from_v3 row =
     (case slug_field row [''slug'', ''name''] of
        None \<Rightarrow> None
      | Some slug \<Rightarrow>
          (case config_shape (jget row ''config'') of (defaults, required) \<Rightarrow>
             Some
               \<lparr>av_slug = slug,
                av_scope = ''static'',
                av_default_config = (if defaults = [] then None else Some (JObj defaults)),
                av_required_config_keys = required,
                av_repo = None\<rparr>))"

definition connection_keys :: "str list" where
  "connection_keys = [''connected_account_id'', ''connectedAccountId'', ''connection_id'']"

definition toolkit_keys :: "str list" where
  "toolkit_keys = [''toolkit'', ''toolkit_slug'', ''app_name'', ''appName'']"

definition names_no_toolkit :: "json \<Rightarrow> bool" where
  "names_no_toolkit row \<longleftrightarrow> slug_field row toolkit_keys = None"

definition owner_of :: "json \<Rightarrow> str option" where
  "owner_of row = slug_field row [''user_id'', ''userId'']"

definition owned_by :: "json \<Rightarrow> str \<Rightarrow> bool" where
  "owned_by row entity \<longleftrightarrow> (case owner_of row of None \<Rightarrow> True | Some owner \<Rightarrow> owner = entity)"

definition names_owner :: "json \<Rightarrow> str \<Rightarrow> bool" where
  "names_owner row entity \<longleftrightarrow> (case owner_of row of None \<Rightarrow> False | Some owner \<Rightarrow> owner = entity)"

definition toolkit_of_slug :: "str \<Rightarrow> str" where
  "toolkit_of_slug slug = to_lower (first_piece CHR ''_'' slug)"

definition slug_in_toolkit :: "str \<Rightarrow> str \<Rightarrow> bool" where
  "slug_in_toolkit slug toolkit = prefix (to_upper toolkit @ ''_'') (to_upper slug)"

text \<open>
  The toolkit a row is labelled with, or \<open>None\<close> for a row outside the caller's filter.
\<close>

definition row_toolkit :: "json \<Rightarrow> str \<Rightarrow> str option \<Rightarrow> (str \<Rightarrow> str option) \<Rightarrow> str option" where
  "row_toolkit row slug wanted connection_toolkits =
     (let explicit = slug_field row toolkit_keys in
      case filled_text wanted of
        Some w \<Rightarrow>
          (if (case explicit of Some e \<Rightarrow> eq_ignore_case e w | None \<Rightarrow> slug_in_toolkit slug w)
           then Some (unwrap_or w explicit) else None)
      | None \<Rightarrow>
          Some (unwrap_or (toolkit_of_slug slug)
            (or_else explicit
              (opt_filter (\<lambda>t. t \<noteq> []) (Option.bind (field row connection_keys) connection_toolkits)))))"

definition active_trigger_from_v3 ::
  "json \<Rightarrow> str option \<Rightarrow> (str \<Rightarrow> str option) \<Rightarrow> active_trigger option" where
  "active_trigger_from_v3 row wanted connection_toolkits =
     (case slug_field row [''id'', ''trigger_id'', ''triggerId''] of
        None \<Rightarrow> None
      | Some i \<Rightarrow>
          (let slug = unwrap_or [] (slug_field row [''trigger_name'', ''triggerName'', ''slug'']) in
           case row_toolkit row slug wanted connection_toolkits of
             None \<Rightarrow> None
           | Some toolkit \<Rightarrow>
               (let disabled = (case or_else (jget row ''disabled_at'') (jget row ''disabledAt'') of
                                  None \<Rightarrow> False | Some at \<Rightarrow> \<not> is_null at) in
                Some
                  \<lparr>at_id = i,
                   at_slug = slug,
                   at_toolkit = toolkit,
                   at_connection_id = unwrap_or [] (field row connection_keys),
                   at_trigger_config = opt_filter (\<lambda>c. \<not> is_null c)
                     (or_else (jget row ''trigger_config'') (jget row ''triggerConfig'')),
                   at_state = Some (if disabled then ''disabled'' else ''active'')\<rparr>)))"

section \<open>Laws\<close>

lemma filled_text_Some: "filled_text v = Some t \<Longrightarrow> trim t = t \<and> t \<noteq> []"
  by (cases v) (auto simp: filled_text_def opt_filter_def split: if_splits)

lemma slug_field_filled: "slug_field item keys = Some t \<Longrightarrow> trim t = t \<and> t \<noteq> []"
proof -
  assume "slug_field item keys = Some t"
  then obtain k where k: "(case jget item k of
      Some (JStr s) \<Rightarrow> filled_text (Some s)
    | Some (JObj nested) \<Rightarrow> first_some (\<lambda>i. filled_text (string_at nested i)) inner_keys
    | _ \<Rightarrow> None) = Some t"
    unfolding slug_field_def using first_some_SomeD by fastforce
  then consider s where "filled_text (Some s) = Some t"
    | nested where "first_some (\<lambda>i. filled_text (string_at nested i)) inner_keys = Some t"
    by (cases "jget item k" rule: option.exhaust; cases "the (jget item k)") auto
  then show ?thesis
    by cases (auto dest: filled_text_Some first_some_SomeD)
qed

lemma names_owner_owned: "names_owner row entity \<Longrightarrow> owned_by row entity"
  by (auto simp: names_owner_def owned_by_def split: option.splits)

lemma connection_from_v3_id: "connection_from_v3 item = Some c \<Longrightarrow> conn_id c \<noteq> [] \<and> trim (conn_id c) = conn_id c"
  by (auto simp: connection_from_v3_def Let_def split: option.splits if_splits)

lemma connections_of_ids: "c \<in> set (connections_of v) \<Longrightarrow> conn_id c \<noteq> [] \<and> trim (conn_id c) = conn_id c"
  by (auto simp: connections_of_def set_filter_map connection_from_v3_id split: option.splits)

lemma active_trigger_shape:
  assumes "active_trigger_from_v3 row wanted ct = Some t"
  shows "at_id t \<noteq> []" "trim (at_id t) = at_id t"
    and "row_toolkit row (at_slug t) wanted ct = Some (at_toolkit t)"
  using assms slug_field_filled [of row "[''id'', ''trigger_id'', ''triggerId'']"]
  by (auto simp: active_trigger_from_v3_def Let_def split: option.splits)

lemma row_toolkit_wanted:
  assumes "filled_text wanted = Some w" "row_toolkit row slug wanted ct = Some t"
  shows "eq_ignore_case t w"
  using assms by (auto simp: row_toolkit_def Let_def split: if_splits option.splits)

text \<open>Slugs of another toolkit never pass the filter, whatever their prefix shares with it.\<close>

lemma slug_in_toolkit_piece:
  assumes "slug_in_toolkit slug toolkit" "CHR ''_'' \<notin> set toolkit"
  shows "toolkit_of_slug slug = to_lower toolkit"
proof -
  have us: "upper_char c = CHR ''_'' \<longleftrightarrow> c = CHR ''_''" for c by (cases c) auto
  from assms(1) obtain rest where r: "map upper_char slug = to_upper toolkit @ CHR ''_'' # rest"
    by (auto simp: slug_in_toolkit_def prefix_def to_upper_def)
  then obtain a b where ab: "slug = a @ b" "map upper_char a = to_upper toolkit"
    "map upper_char b = CHR ''_'' # rest"
    by (auto simp: map_eq_append_conv)
  then obtain b' where b: "b = CHR ''_'' # b'" by (cases b) (auto simp: us)
  have "CHR ''_'' \<notin> set a"
  proof
    assume "CHR ''_'' \<in> set a"
    then have "CHR ''_'' \<in> upper_char ` set a" using us by (metis image_eqI)
    then have "CHR ''_'' \<in> set (to_upper toolkit)" using ab(2) by (metis set_map)
    then obtain c where "c \<in> set toolkit" "upper_char c = CHR ''_''" by (auto simp: to_upper_def)
    then show False using assms(2) us [of c] by blast
  qed
  then have "first_piece CHR ''_'' slug = a"
    by (simp add: first_piece_def ab(1) b takeWhile_append)
  moreover have "to_lower a = to_lower toolkit"
    using ab(2) by (metis to_lower_upper to_upper_def)
  ultimately show ?thesis by (simp add: toolkit_of_slug_def)
qed

end
