(* ===== verification/Direct_Route.thy ===== *)
theory Direct_Route
  imports Execute Url V3_Rows
begin

text \<open>
  The direct route: \<open>crates/tinyconnectors/src/client/route/direct.rs\<close>. A route is the record of
  its fixed settings; its failure counts live in the world's \<open>gate\<close>, which is emptied wherever the code
  builds a route (the module configuration and the service do that). A count is a natural number: the
  source's 32 bits differ from it only with \<open>2^32\<close> calls of one route in flight. Every request passes
  \<open>call\<close>, which refuses while the gate is closed and counts what came back.
\<close>

definition composio_api_base :: str where
  "composio_api_base = ''https://backend.composio.dev/api/v3''"

definition invalid_api_key_threshold :: nat where "invalid_api_key_threshold = 3"

definition max_pages :: nat where "max_pages = 20"

definition gated_message :: str where
  "gated_message = ''Composio rejected this API key repeatedly, so further direct-mode '' @
     ''calls are paused. Enter a valid key to resume.''"

record direct_route =
  entity_id :: str
  key_fingerprint :: "64 word"
  webhooks :: bool

text \<open>The standard hasher's digest of the trimmed key is the parameter \<open>hash\<close>.\<close>

definition fingerprint :: "(str \<Rightarrow> 64 word) \<Rightarrow> str \<Rightarrow> 64 word" where
  "fingerprint hash api_key = hash (trim api_key)"

definition direct_new :: "(str \<Rightarrow> 64 word) \<Rightarrow> str \<Rightarrow> str \<Rightarrow> direct_route" where
  "direct_new hash api_key entity =
     \<lparr>entity_id = (if trim entity = [] then ''default'' else entity),
      key_fingerprint = fingerprint hash api_key,
      webhooks = False\<rparr>"

definition with_webhooks :: "direct_route \<Rightarrow> bool \<Rightarrow> direct_route" where
  "with_webhooks d b = d\<lparr>webhooks := b\<rparr>"

section \<open>The gate\<close>

definition is_invalid_api_key :: "error \<Rightarrow> bool" where
  "is_invalid_api_key e =
     (case e of
        Transport path message \<Rightarrow>
          prefix ''HTTP 401'' message \<and> contains (to_lower message) ''api key''
      | _ \<Rightarrow> False)"

definition failure_count :: "direct_route \<Rightarrow> 'e world \<Rightarrow> nat" where
  "failure_count d w = unwrap_or 0 (gate w (key_fingerprint d))"

definition check_gate :: "direct_route \<Rightarrow> ('e, unit) act" where
  "check_gate d =
     (\<lambda>w. if invalid_api_key_threshold \<le> failure_count d w
          then (Inl (DirectAuthGated gated_message), w) else (Inr (), w))"

definition record_outcome :: "direct_route \<Rightarrow> json res \<Rightarrow> 'e world \<Rightarrow> 'e world" where
  "record_outcome d outcome w =
     (case outcome of
        Inr _ \<Rightarrow> w\<lparr>gate := (gate w)(key_fingerprint d := None)\<rparr>
      | Inl e \<Rightarrow>
          (if is_invalid_api_key e
           then w\<lparr>gate := (gate w)(key_fingerprint d \<mapsto> Suc (failure_count d w))\<rparr>
           else w))"

definition call :: "direct_route \<Rightarrow> ('e, json) act \<Rightarrow> ('e, json) act" where
  "call d request =
     bindA (check_gate d) (\<lambda>_. \<lambda>w. case request w of (outcome, w') \<Rightarrow> (outcome, record_outcome d outcome w'))"

definition unsupported :: "str \<Rightarrow> error" where
  "unsupported member_name = UnsupportedByRoute ''direct'' member_name"

section \<open>Ownership\<close>

definition account_owner :: "direct_route \<Rightarrow> 'e transport \<Rightarrow> str \<Rightarrow> ('e, str option) act" where
  "account_owner d tr connection_id =
     bindA (liftA (segment connection_id ''connection_id'')) (\<lambda>seg.
       thenA (call d (transport_get tr (''/connected_accounts/'' @ seg))) (\<lambda>r. case r of
           Inr v \<Rightarrow> retA (owner_of v)
         | Inl e \<Rightarrow>
             (case e of
                DirectAuthGated m \<Rightarrow> failA e
              | _ \<Rightarrow> if is_invalid_api_key e then failA e else retA None)))"

definition require_webhooks :: "direct_route \<Rightarrow> str \<Rightarrow> ('e, unit) act" where
  "require_webhooks d member_name =
     (if webhooks d then retA () else failA (unsupported member_name))"

definition ensure_owned :: "direct_route \<Rightarrow> 'e transport \<Rightarrow> str \<Rightarrow> ('e, unit) act" where
  "ensure_owned d tr connection_id =
     bindA (account_owner d tr connection_id) (\<lambda>owner.
       if owner = Some (entity_id d) then retA ()
       else failA (ConnectionNotOwned (trim connection_id)))"

section \<open>Listings\<close>

fun page_loop ::
  "direct_route \<Rightarrow> 'e transport \<Rightarrow> str \<Rightarrow> nat \<Rightarrow> str option \<Rightarrow> json list \<Rightarrow> ('e, json list) act" where
  "page_loop d tr path 0 cursor rows = failA (ListingIncomplete path max_pages)"
| "page_loop d tr path (Suc n) cursor rows =
     (let page_path = (case cursor of Some c \<Rightarrow> path @ ''&cursor='' @ encode c | None \<Rightarrow> path) in
      bindA (call d (transport_get tr page_path)) (\<lambda>v.
        let rows' = rows @ rows_of v; next = next_cursor v in
        if next = None then retA rows'
        else if next = cursor then failA (ListingIncomplete path max_pages)
        else page_loop d tr path n next rows'))"

definition list_pages :: "direct_route \<Rightarrow> 'e transport \<Rightarrow> str \<Rightarrow> ('e, json list) act" where
  "list_pages d tr path = page_loop d tr path max_pages None []"

definition active_path :: "direct_route \<Rightarrow> str" where
  "active_path d =
     ''/trigger_instances/active?user_ids='' @ encode (entity_id d) @ ''&show_disabled=false&limit=50''"

definition stored_config :: "json \<Rightarrow> json option" where
  "stored_config row = or_else (jget row ''trigger_config'') (jget row ''triggerConfig'')"

definition is_instance_of ::
  "direct_route \<Rightarrow> str \<Rightarrow> str option \<Rightarrow> json option \<Rightarrow> json \<Rightarrow> bool" where
  "is_instance_of d slug connection_id config row \<longleftrightarrow>
     (case slug_field row [''trigger_name'', ''triggerName'', ''slug''] of
        None \<Rightarrow> False | Some named \<Rightarrow> eq_ignore_case named (trim slug)) \<and>
     owned_by row (entity_id d) \<and>
     (case connection_id of
        None \<Rightarrow> True | Some wanted \<Rightarrow> trim wanted = unwrap_or [] (field row connection_keys)) \<and>
     (case config of
        None \<Rightarrow> True
      | Some c \<Rightarrow> (case stored_config row of None \<Rightarrow> False | Some stored \<Rightarrow> json_eq stored c))"

definition find_active_trigger ::
  "direct_route \<Rightarrow> 'e transport \<Rightarrow> str \<Rightarrow> str option \<Rightarrow> json option \<Rightarrow> ('e, str option) act" where
  "find_active_trigger d tr slug connection_id config =
     mapA (\<lambda>rows.
         (case filter (is_instance_of d slug connection_id config) rows of
            [only] \<Rightarrow> slug_field only [''id'', ''trigger_id'', ''triggerId'']
          | _ \<Rightarrow> None))
       (list_pages d tr (active_path d))"

definition upsert_body :: "direct_route \<Rightarrow> str option \<Rightarrow> json option \<Rightarrow> json" where
  "upsert_body d connection_id config =
     (let b0 = obj_of [(''user_id'', JStr (entity_id d)), (''toolkit_versions'', JStr ''latest'')];
          b1 = (case connection_id of
                  Some c \<Rightarrow> obj_insert ''connected_account_id'' (JStr (trim c)) b0 | None \<Rightarrow> b0);
          b2 = (case config of Some c \<Rightarrow> obj_insert ''trigger_config'' c b1 | None \<Rightarrow> b1)
      in JObj b2)"

text \<open>Create or re-enable a trigger instance: its id and reported status.\<close>

definition upsert ::
  "direct_route \<Rightarrow> 'e transport \<Rightarrow> str \<Rightarrow> str option \<Rightarrow> json option \<Rightarrow> ('e, str \<times> str option) act" where
  "upsert d tr slug connection_id config =
     bindA (case connection_id of Some c \<Rightarrow> ensure_owned d tr c | None \<Rightarrow> retA ()) (\<lambda>_.
       bindA (liftA (segment slug ''trigger slug'')) (\<lambda>seg.
         let path = ''/trigger_instances/'' @ seg @ ''/upsert'' in
         bindA (call d (transport_post tr path (upsert_body d connection_id config))) (\<lambda>v.
           let status = field v [''status''] in
           case slug_field v [''trigger_id'', ''triggerId'', ''id''] of
             Some i \<Rightarrow> retA (i, status)
           | None \<Rightarrow>
               bindA (find_active_trigger d tr slug connection_id config) (\<lambda>found. case found of
                   Some i \<Rightarrow> retA (i, status)
                 | None \<Rightarrow> failA (Decode path ''upsert response carried no trigger id'')))))"

section \<open>The route's members\<close>

definition direct_list_toolkits :: "('e, 'a) act" where
  "direct_list_toolkits = failA (unsupported ''ListToolkits'')"

definition direct_list_connections :: "direct_route \<Rightarrow> 'e transport \<Rightarrow> ('e, connection list) act" where
  "direct_list_connections d tr =
     mapA connections_of (call d (transport_get tr ''/connected_accounts?limit=200''))"

definition direct_authorize :: "direct_route \<Rightarrow> 'e transport \<Rightarrow> str \<Rightarrow> json \<Rightarrow> ('e, authorize_response) act" where
  "direct_authorize d tr toolkit body =
     (let request = (case body of
            JObj m \<Rightarrow> JObj (obj_insert ''entity_id'' (JStr (entity_id d)) m) | other \<Rightarrow> other);
          path = ''/connected_accounts/link'' in
      bindA (call d (transport_post tr path request)) (\<lambda>v.
        case field v [''redirectUrl'', ''redirect_url'', ''connectUrl''] of
          None \<Rightarrow> failA (Decode path ''link response carried no redirect URL'')
        | Some url \<Rightarrow>
            retA \<lparr>auth_connect_url = url,
                  auth_connection_id = unwrap_or [] (field v [''connectedAccountId'', ''id''])\<rparr>))"

definition direct_tools_path :: "str list \<Rightarrow> str list \<Rightarrow> str" where
  "direct_tools_path toolkits tags =
     ''/tools?'' @ join ''&''
       ([''limit=200'', ''toolkit_versions=latest''] @
        (case comma_joined toolkits of None \<Rightarrow> [] | Some joined \<Rightarrow> [''toolkits='' @ joined]) @
        map (\<lambda>tag. ''tags='' @ encode tag) (filter (\<lambda>tag. tag \<noteq> []) (map trim tags)))"

definition direct_list_tools :: "direct_route \<Rightarrow> 'e transport \<Rightarrow> str list \<Rightarrow> str list \<Rightarrow> ('e, tool_schema list) act" where
  "direct_list_tools d tr toolkits tags =
     mapA tool_schemas_from_v3 (call d (transport_get tr (direct_tools_path toolkits tags)))"

definition execute_body :: "json \<Rightarrow> str \<Rightarrow> str option \<Rightarrow> json" where
  "execute_body arguments entity connection_id =
     (let b = obj_of [(''arguments'', arguments), (''entity_id'', JStr entity)] in
      JObj (case connection_id of
        Some c \<Rightarrow> obj_insert ''connected_account_id'' (JStr c) b | None \<Rightarrow> b))"

definition direct_execute :: "direct_route \<Rightarrow> 'e transport \<Rightarrow> 'e route_execute" where
  "direct_execute d tr tool arguments connection_id =
     bindA (liftA (segment tool tool)) (\<lambda>seg.
       bindA (case connection_id of
                Some c \<Rightarrow> mapA (unwrap_or (entity_id d)) (account_owner d tr c)
              | None \<Rightarrow> retA (entity_id d)) (\<lambda>entity.
         mapA execute_response_from_v3
           (call d (transport_post tr (''/tools/execute/'' @ seg)
              (execute_body arguments entity connection_id)))))"

definition direct_delete_connection :: "str \<Rightarrow> ('e, bool) act" where
  "direct_delete_connection connection_id = failA (unsupported ''DeleteConnection'')"

definition direct_list_github_repos :: "str option \<Rightarrow> ('e, 'a) act" where
  "direct_list_github_repos connection_id = failA (unsupported ''ListGithubRepos'')"

definition direct_list_available_triggers ::
  "direct_route \<Rightarrow> 'e transport \<Rightarrow> str \<Rightarrow> str option \<Rightarrow> ('e, available_trigger list) act" where
  "direct_list_available_triggers d tr toolkit connection_id =
     bindA (require_webhooks d ''ListAvailableTriggers'') (\<lambda>_.
       mapA (filter_map available_trigger_from_v3)
         (list_pages d tr (''/triggers_types?toolkit_slugs='' @ encode toolkit @
            ''&limit=50&toolkit_versions=latest'')))"

definition direct_list_triggers ::
  "direct_route \<Rightarrow> 'e transport \<Rightarrow> str option \<Rightarrow> ('e, active_trigger list) act" where
  "direct_list_triggers d tr toolkit =
     bindA (require_webhooks d ''ListTriggers'') (\<lambda>_.
       bindA (list_pages d tr (active_path d)) (\<lambda>all_rows.
         let rows = filter (\<lambda>row. owned_by row (entity_id d)) all_rows;
             wants_lookup = filled_text toolkit = None \<and> list_ex names_no_toolkit rows in
         bindA (if wants_lookup
                then thenA (list_pages d tr ''/connected_accounts?limit=200'') (\<lambda>r. case r of
                    Inr accounts \<Rightarrow>
                      retA (map_of (rev (map (\<lambda>c. (conn_id c, to_lower (conn_toolkit c)))
                        (filter_map connection_from_v3 accounts))))
                  | Inl e \<Rightarrow> retA Map.empty)
                else retA Map.empty) (\<lambda>connection_toolkits.
           retA (filter_map (\<lambda>row. active_trigger_from_v3 row toolkit connection_toolkits) rows))))"

definition direct_create_trigger ::
  "direct_route \<Rightarrow> 'e transport \<Rightarrow> str \<Rightarrow> str option \<Rightarrow> json option \<Rightarrow> ('e, create_trigger_response) act" where
  "direct_create_trigger d tr slug connection_id config =
     bindA (require_webhooks d ''CreateTrigger'') (\<lambda>_.
       mapA (\<lambda>(i, status). \<lparr>ct_trigger_id = i, ct_status = status\<rparr>)
         (upsert d tr slug connection_id config))"

definition direct_enable_trigger ::
  "direct_route \<Rightarrow> 'e transport \<Rightarrow> str \<Rightarrow> str \<Rightarrow> json option \<Rightarrow> ('e, enable_trigger_response) act" where
  "direct_enable_trigger d tr connection_id slug config =
     bindA (require_webhooks d ''EnableTrigger'') (\<lambda>_.
       mapA (\<lambda>(i, status). \<lparr>et_trigger_id = i, et_slug = trim slug, et_connection_id = trim connection_id\<rparr>)
         (upsert d tr slug (Some connection_id) config))"

definition owned_lookup_path :: "direct_route \<Rightarrow> str \<Rightarrow> str" where
  "owned_lookup_path d trigger_id =
     ''/trigger_instances/active?trigger_ids='' @ encode trigger_id @ ''&user_ids='' @
     encode (entity_id d) @ ''&show_disabled=true&limit=50''"

definition names_trigger :: "direct_route \<Rightarrow> str \<Rightarrow> json \<Rightarrow> bool" where
  "names_trigger d trigger_id row \<longleftrightarrow>
     slug_field row [''id'', ''trigger_id'', ''triggerId''] = Some trigger_id \<and>
     names_owner row (entity_id d)"

definition direct_disable_trigger :: "direct_route \<Rightarrow> 'e transport \<Rightarrow> str \<Rightarrow> ('e, bool) act" where
  "direct_disable_trigger d tr trigger_id0 =
     bindA (require_webhooks d ''DisableTrigger'') (\<lambda>_.
       let trigger_id = trim trigger_id0 in
       bindA (call d (transport_get tr (owned_lookup_path d trigger_id))) (\<lambda>found.
         if \<not> list_ex (names_trigger d trigger_id) (rows_of found)
         then failA (TriggerNotOwned trigger_id)
         else bindA (liftA (segment trigger_id ''trigger_id'')) (\<lambda>seg.
           mapA (\<lambda>_. True) (call d (transport_delete tr (''/trigger_instances/manage/'' @ seg))))))"

end
