(* ===== verification/Direct_Laws.thy ===== *)
theory Direct_Laws
  imports Direct_Route
begin

text \<open>
  What the direct route guarantees: the cost of each member, the gate on a rejected key (also as
  a state machine with calls in flight), completeness of paged listings, and ownership of the
  connections and triggers it touches. The route's \<open>execute\<close> is an instance of \<open>priced_route\<close>.
\<close>

section \<open>Cost\<close>

lemma record_trace [simp]: "trace (record_outcome d r w) = trace w"
  by (simp add: record_outcome_def split: sum.splits)

lemma grows_call: "grows c s m \<Longrightarrow> grows c s (call d m)"
proof -
  assume m: "grows c s m"
  have "grows c s (\<lambda>w. case m w of (r, w') \<Rightarrow> (r, record_outcome d r w'))"
    using m unfolding grows_def by (auto split: prod.splits) (metis snd_conv)
  moreover have "grows 0 0 (check_gate d)"
    by (auto simp: grows_def check_gate_def)
  ultimately show ?thesis
    unfolding call_def using grows_bind [of 0 0 "check_gate d" c s] by simp
qed

lemmas grows_calls = grows_call [OF grows_transport(1)] grows_call [OF grows_transport(2)]
  grows_call [OF grows_transport(3)]

lemma grows_account_owner: "grows 1 0 (account_owner d tr c)"
proof -
  have "grows (1 + 0) (0 + 0) (thenA (call d (transport_get tr p)) (\<lambda>r. case r of
      Inr v \<Rightarrow> retA (owner_of v)
    | Inl e \<Rightarrow> (case e of DirectAuthGated m \<Rightarrow> failA e
                | _ \<Rightarrow> if is_invalid_api_key e then failA e else retA None)))" for p
    by (rule grows_then [OF grows_calls(1)]) (auto split: sum.splits error.splits)
  then show ?thesis unfolding account_owner_def by (intro grows_free_bind) simp
qed

lemma grows_ensure_owned: "grows 1 0 (ensure_owned d tr c)"
  unfolding ensure_owned_def
  by (rule grows_bind_free [OF grows_account_owner]) auto

lemma grows_page_loop: "grows n 0 (page_loop d tr path n cursor rows)"
proof (induction n arbitrary: cursor rows)
  case (Suc n)
  have "grows (1 + n) (0 + 0) (bindA (call d (transport_get tr p)) (\<lambda>v.
        let rows' = rows @ rows_of v; next = next_cursor v in
        if next = None then retA rows'
        else if next = cursor then failA (ListingIncomplete path max_pages)
        else page_loop d tr path n next rows'))" for p
    by (rule grows_bind [OF grows_calls(1)]) (auto simp: Let_def Suc.IH)
  then show ?case by (simp only: page_loop.simps Let_def add_0 plus_1_eq_Suc)
qed auto

lemma grows_list_pages: "grows 20 0 (list_pages d tr path)"
  unfolding list_pages_def max_pages_def by (rule grows_page_loop)

lemma grows_find_active: "grows 20 0 (find_active_trigger d tr slug c config)"
  unfolding find_active_trigger_def by (rule grows_map [OF grows_list_pages])

lemma grows_upsert: "grows 22 0 (upsert d tr slug c config)"
proof -
  have owned: "grows 1 0 (case c of Some c \<Rightarrow> ensure_owned d tr c | None \<Rightarrow> retA ())"
    by (cases c) (simp_all only: option.case grows_ret grows_ensure_owned)
  have late: "grows 20 0 (case slug_field v ks of Some i \<Rightarrow> retA (i, st v)
      | None \<Rightarrow> bindA (find_active_trigger d tr slug c config) (\<lambda>found. case found of
            Some i \<Rightarrow> retA (i, st v) | None \<Rightarrow> failA e))" for v ks st e
    by (auto split: option.splits intro!: grows_bind_free [OF grows_find_active])
  have "grows (1 + (1 + 20)) (0 + (0 + 0)) (upsert d tr slug c config)"
    unfolding upsert_def Let_def
    by (intro grows_bind [OF owned] grows_free_bind grows_bind [OF grows_calls(2)] late)
  then show ?thesis by simp
qed

lemma grows_direct_execute: "grows 2 0 (direct_execute d tr tool arguments c)"
proof -
  have entity: "grows 1 0 (case c of
      Some c \<Rightarrow> mapA (unwrap_or (entity_id d)) (account_owner d tr c) | None \<Rightarrow> retA (entity_id d))"
    by (cases c) (simp_all only: option.case grows_ret grows_map [OF grows_account_owner])
  have "grows (1 + 1) (0 + 0) (direct_execute d tr tool arguments c)"
    unfolding direct_execute_def
    by (intro grows_free_bind grows_bind [OF entity] grows_map grows_calls)
  then show ?thesis by (simp only: one_add_one add_0)
qed

interpretation direct: priced_route "direct_execute d tr" 2 for d tr
  by unfold_locales (rule grows_direct_execute)

section \<open>The gate\<close>

definition closed :: "direct_route \<Rightarrow> 'e world \<Rightarrow> bool" where
  "closed d w \<longleftrightarrow> invalid_api_key_threshold \<le> failure_count d w"

text \<open>An action that a closed gate stops before it does anything.\<close>

definition gated :: "direct_route \<Rightarrow> ('e, 'a) act \<Rightarrow> bool" where
  "gated d m \<longleftrightarrow> (\<forall>w. closed d w \<longrightarrow> (\<exists>e. m w = (Inl e, w)))"

lemma gatedD: "gated d m \<Longrightarrow> closed d w \<Longrightarrow> \<exists>e. m w = (Inl e, w)"
  by (simp add: gated_def)

lemma call_closed: "closed d w \<Longrightarrow> call d m w = (Inl (DirectAuthGated gated_message), w)"
  by (simp add: call_def bindA_def check_gate_def closed_def)

lemma call_open: "\<not> closed d w \<Longrightarrow> call d m w = (case m w of (r, w') \<Rightarrow> (r, record_outcome d r w'))"
  by (simp add: call_def bindA_def check_gate_def closed_def)

lemma gated_call: "gated d (call d m)"
  by (simp add: gated_def call_closed)

lemma gated_bind: "gated d m \<Longrightarrow> gated d (bindA m f)"
  unfolding gated_def bindA_def by fastforce

lemma gated_map: "gated d m \<Longrightarrow> gated d (mapA g m)"
  unfolding mapA_def by (rule gated_bind)

lemma gated_fail: "gated d (failA e)"
  by (simp add: gated_def)

lemma gated_lift_bind: "(\<And>a. gated d (f a)) \<Longrightarrow> gated d (bindA (liftA r) f)"
  by (cases r) (auto simp: gated_fail)

lemma gated_ret_bind: "gated d (f a) \<Longrightarrow> gated d (bindA (retA a) f)"
  by simp

lemma gated_account_owner: "gated d (account_owner d tr c)"
  unfolding account_owner_def
  by (rule gated_lift_bind) (simp add: gated_def thenA_def call_closed)

lemma gated_ensure_owned: "gated d (ensure_owned d tr c)"
  unfolding ensure_owned_def by (rule gated_bind [OF gated_account_owner])

lemma gated_list_pages: "gated d (list_pages d tr path)"
proof -
  have "max_pages = Suc 19" by (simp add: max_pages_def)
  then have "list_pages d tr path = page_loop d tr path (Suc 19) None []"
    by (simp only: list_pages_def)
  then show ?thesis by (simp only: page_loop.simps Let_def gated_bind [OF gated_call])
qed

lemma gated_upsert: "gated d (upsert d tr slug c config)"
  unfolding upsert_def
  by (cases c)
    (simp_all add: gated_bind [OF gated_ensure_owned] Let_def gated_lift_bind gated_bind [OF gated_call])

lemma gated_webhooks: "gated d m \<Longrightarrow> gated d (bindA (require_webhooks d name) (\<lambda>_. m))"
  by (simp add: require_webhooks_def gated_fail)

lemma gated_direct_execute: "gated d (direct_execute d tr tool arguments c)"
  unfolding direct_execute_def
  by (rule gated_lift_bind)
    (cases c; simp add: gated_bind [OF gated_map [OF gated_account_owner]] gated_map [OF gated_call])

lemma gated_direct_authorize: "gated d (direct_authorize d tr toolkit body)"
  by (simp add: direct_authorize_def Let_def gated_bind [OF gated_call])

lemma gated_direct_lists:
  "gated d (direct_list_connections d tr)" "gated d (direct_list_tools d tr ts gs)"
  "gated d (direct_list_available_triggers d tr t c)" "gated d (direct_list_triggers d tr t')"
  unfolding direct_list_connections_def direct_list_tools_def direct_list_available_triggers_def
    direct_list_triggers_def
  by (intro gated_map gated_call gated_webhooks gated_bind gated_list_pages)+

lemma gated_direct_triggers:
  "gated d (direct_create_trigger d tr slug c config)" "gated d (direct_enable_trigger d tr i slug config)"
  "gated d (direct_disable_trigger d tr i)"
  unfolding direct_create_trigger_def direct_enable_trigger_def direct_disable_trigger_def Let_def
  by (intro gated_map gated_upsert gated_webhooks gated_bind gated_call)+

text \<open>Counting, one outcome at a time.\<close>

datatype key_outcome = Accepted | Rejected | Unrelated

definition outcome_of :: "json res \<Rightarrow> key_outcome" where
  "outcome_of r = (case r of Inr _ \<Rightarrow> Accepted | Inl e \<Rightarrow> if is_invalid_api_key e then Rejected else Unrelated)"

fun settle :: "nat \<Rightarrow> key_outcome \<Rightarrow> nat" where
  "settle n Accepted = 0"
| "settle n Rejected = Suc n"
| "settle n Unrelated = n"

lemma failure_count_record: "failure_count d (record_outcome d r w) = settle (failure_count d w) (outcome_of r)"
  by (auto simp: record_outcome_def failure_count_def outcome_of_def split: sum.splits)

text \<open>
  The gate with calls in flight: a state is the failure count and the number of calls that have
  passed the check and not yet come back, of which there are at most \<open>cap\<close>.
\<close>

inductive gate_step :: "nat \<Rightarrow> nat \<times> nat \<Rightarrow> nat \<times> nat \<Rightarrow> bool" for cap where
  start: "n < invalid_api_key_threshold \<Longrightarrow> k < cap \<Longrightarrow> gate_step cap (n, k) (n, Suc k)"
| refuse: "invalid_api_key_threshold \<le> n \<Longrightarrow> gate_step cap (n, k) (n, k)"
| finish: "gate_step cap (n, Suc k) (settle n o1, k)"

inductive_cases gate_stepE: "gate_step cap s s'"

inductive_simps gate_step_idle: "gate_step cap (n, 0) s"

lemma gate_invariant_step:
  assumes "gate_step cap s s'" "snd s \<le> cap" "fst s + snd s \<le> 2 + cap"
  shows "snd s' \<le> cap \<and> fst s' + snd s' \<le> 2 + cap"
  using assms
proof (induction rule: gate_step.induct)
  case (finish n k o1)
  have "settle n o1 \<le> Suc n" by (cases o1) auto
  with finish show ?case by simp
qed (auto simp: invalid_api_key_threshold_def)

lemma gate_invariant:
  assumes "(gate_step cap)\<^sup>*\<^sup>* (0, 0) s"
  shows "snd s \<le> cap \<and> fst s + snd s \<le> 2 + cap"
  using assms by (induction rule: rtranclp_induct) (use gate_invariant_step in \<open>auto\<close>)

lemma gate_stuck:
  assumes "(gate_step cap)\<^sup>*\<^sup>* (n, 0) s" "invalid_api_key_threshold \<le> n"
  shows "s = (n, 0)"
  using assms by (induction rule: rtranclp_induct) (auto simp: gate_step_idle)

section \<open>Listings\<close>

text \<open>
  What a listing may rest on. The page after the cursor is what the transport answers to its path in
  the world the pages before it left; \<open>answered\<close> follows a sequence of pages, each under the cursor
  the one before it gave, and \<open>open_pages\<close> says that each of them names a further page.
\<close>

definition page_call :: "direct_route \<Rightarrow> 'e transport \<Rightarrow> str \<Rightarrow> str option \<Rightarrow> ('e, json) act" where
  "page_call d tr path cursor =
     call d (transport_get tr (case cursor of Some c \<Rightarrow> path @ ''&cursor='' @ encode c | None \<Rightarrow> path))"

fun answered ::
  "direct_route \<Rightarrow> 'e transport \<Rightarrow> str \<Rightarrow> str option \<Rightarrow> json list \<Rightarrow> 'e world \<Rightarrow> 'e world \<Rightarrow> bool" where
  "answered d tr path cursor [] w w' = (w' = w)"
| "answered d tr path cursor (v # vs) w w' =
     (case page_call d tr path cursor w of
        (Inl e, w1) \<Rightarrow> False
      | (Inr x, w1) \<Rightarrow> x = v \<and> answered d tr path (next_cursor v) vs w1 w')"

fun open_pages :: "str option \<Rightarrow> json list \<Rightarrow> bool" where
  "open_pages cursor [] = True"
| "open_pages cursor (v # vs) =
     (next_cursor v \<noteq> None \<and> next_cursor v \<noteq> cursor \<and> open_pages (next_cursor v) vs)"

fun cursor_after :: "str option \<Rightarrow> json list \<Rightarrow> str option" where
  "cursor_after cursor [] = cursor"
| "cursor_after cursor (v # vs) = cursor_after (next_cursor v) vs"

text \<open>Why a listing ends early: its next page cannot be had, or names itself as the page after it.\<close>

definition page_lost ::
  "direct_route \<Rightarrow> 'e transport \<Rightarrow> str \<Rightarrow> str option \<Rightarrow> error \<Rightarrow> 'e world \<Rightarrow> 'e world \<Rightarrow> bool" where
  "page_lost d tr path cursor e w w' =
     (case page_call d tr path cursor w of
        (Inl e1, w1) \<Rightarrow> e = e1 \<and> w' = w1
      | (Inr v, w1) \<Rightarrow> cursor \<noteq> None \<and> next_cursor v = cursor \<and> e = ListingIncomplete path 20 \<and> w' = w1)"

definition listing_result ::
  "direct_route \<Rightarrow> 'e transport \<Rightarrow> str \<Rightarrow> nat \<Rightarrow> str option \<Rightarrow> json list res \<Rightarrow> 'e world \<Rightarrow> 'e world \<Rightarrow> bool" where
  "listing_result d tr path n cursor result w w' =
     (case result of
        Inr rows \<Rightarrow> (\<exists>us v. open_pages cursor us \<and> next_cursor v = None \<and> length us < n \<and>
          answered d tr path cursor (us @ [v]) w w' \<and> rows = concat (map rows_of (us @ [v])))
      | Inl e \<Rightarrow> (\<exists>us w1. open_pages cursor us \<and> answered d tr path cursor us w w1 \<and>
          (length us = n \<and> e = ListingIncomplete path 20 \<and> w' = w1 \<or>
           length us < n \<and> page_lost d tr path (cursor_after cursor us) e w1 w')))"

lemma page_loop_unfold:
  "page_loop d tr path (Suc n) cursor rows w =
     (case page_call d tr path cursor w of
        (Inl e, w1) \<Rightarrow> (Inl e, w1)
      | (Inr v, w1) \<Rightarrow>
          if next_cursor v = None then (Inr (rows @ rows_of v), w1)
          else if next_cursor v = cursor then (Inl (ListingIncomplete path 20), w1)
          else page_loop d tr path n (next_cursor v) (rows @ rows_of v) w1)"
  by (simp add: page_call_def bindA_def Let_def max_pages_def split: prod.split sum.split)

text \<open>A page more in front.\<close>

lemma listing_result_Cons:
  assumes "page_call d tr path cursor w = (Inr v, w1)" "next_cursor v \<noteq> None" "next_cursor v \<noteq> cursor"
    and "listing_result d tr path n (next_cursor v) result w1 w'"
  shows "listing_result d tr path (Suc n) cursor (map_sum id ((@) (rows_of v)) result) w w'"
proof (cases result)
  case (Inr rows)
  then obtain us u where "open_pages (next_cursor v) us" "next_cursor u = None" "length us < n"
    "answered d tr path (next_cursor v) (us @ [u]) w1 w'" "rows = concat (map rows_of (us @ [u]))"
    using assms(4) by (auto simp: listing_result_def)
  then show ?thesis
    using assms(1-3) Inr unfolding listing_result_def
    by (simp, intro exI [of _ "v # us"] exI [of _ u] conjI) simp_all
next
  case (Inl e)
  then obtain us w2 where "open_pages (next_cursor v) us" "answered d tr path (next_cursor v) us w1 w2"
    "length us = n \<and> e = ListingIncomplete path 20 \<and> w' = w2 \<or>
     length us < n \<and> page_lost d tr path (cursor_after (next_cursor v) us) e w2 w'"
    using assms(4) by (auto simp: listing_result_def)
  then show ?thesis
    using assms(1-3) Inl unfolding listing_result_def
    by (simp, intro exI [of _ "v # us"] conjI exI [of _ w2]) simp_all
qed

lemma page_loop_result:
  "\<exists>result w'. page_loop d tr path n cursor rows w = (map_sum id ((@) rows) result, w') \<and>
     listing_result d tr path n cursor result w w'"
proof (induction n arbitrary: cursor rows w)
  case 0
  then show ?case
    by (intro exI [of _ "Inl (ListingIncomplete path 20)"]) (simp add: listing_result_def max_pages_def)
next
  case (Suc n)
  obtain r w1 where r: "page_call d tr path cursor w = (r, w1)" by fastforce
  consider (lost) e where "r = Inl e" | (last) v where "r = Inr v" "next_cursor v = None"
    | (stuck) v where "r = Inr v" "next_cursor v \<noteq> None" "next_cursor v = cursor"
    | (more) v where "r = Inr v" "next_cursor v \<noteq> None" "next_cursor v \<noteq> cursor"
    by (cases r) auto
  then show ?case
  proof cases
    case lost
    with r show ?thesis
      unfolding page_loop_unfold
      by (intro exI [of _ "Inl e"] exI [of _ w1])
        (auto simp: listing_result_def page_lost_def intro!: exI [of _ "[]"])
  next
    case last
    with r show ?thesis
      unfolding page_loop_unfold
      by (intro exI [of _ "Inr (rows_of v)"] exI [of _ w1])
        (auto simp: listing_result_def intro!: exI [of _ "[]"])
  next
    case stuck
    with r show ?thesis
      unfolding page_loop_unfold
      by (intro exI [of _ "Inl (ListingIncomplete path 20)"] exI [of _ w1])
        (auto simp: listing_result_def page_lost_def intro!: exI [of _ "[]"])
  next
    case more
    obtain result w' where run: "page_loop d tr path n (next_cursor v) (rows @ rows_of v) w1 =
        (map_sum id ((@) (rows @ rows_of v)) result, w')" "listing_result d tr path n (next_cursor v) result w1 w'"
      using Suc.IH by blast
    then show ?thesis
      using r more listing_result_Cons [OF r [unfolded more(1)] more(2,3) run(2)] unfolding page_loop_unfold
      by (intro exI [of _ "map_sum id ((@) (rows_of v)) result"] exI [of _ w']) (cases result; auto)
  qed
qed

section \<open>Ownership\<close>

text \<open>The path a connection's owner is read from, when its id is a path segment.\<close>

definition owner_lookup :: "direct_route \<Rightarrow> 'e transport \<Rightarrow> str \<Rightarrow> ('e, json) act" where
  "owner_lookup d tr seg = call d (transport_get tr (''/connected_accounts/'' @ seg))"

lemma account_owner_run:
  "account_owner d tr c w =
     (case segment c ''connection_id'' of
        Inl e \<Rightarrow> (Inl e, w)
      | Inr seg \<Rightarrow>
          (case owner_lookup d tr seg w of
             (Inr v, w1) \<Rightarrow> (Inr (owner_of v), w1)
           | (Inl e, w1) \<Rightarrow>
               ((if is_invalid_api_key e \<or> (\<exists>m. e = DirectAuthGated m) then Inl e else Inr None), w1)))"
  by (cases "segment c ''connection_id''")
    (auto simp: account_owner_def owner_lookup_def thenA_def split: prod.splits sum.splits error.splits)

lemma ensure_owned_run:
  "ensure_owned d tr c w =
     (case account_owner d tr c w of
        (Inl e, w1) \<Rightarrow> (Inl e, w1)
      | (Inr owner, w1) \<Rightarrow>
          ((if owner = Some (entity_id d) then Inr () else Inl (ConnectionNotOwned (trim c))), w1))"
  by (auto simp: ensure_owned_def bindA_def split: prod.splits sum.splits)

lemma upsert_not_owned:
  "ensure_owned d tr c w = (Inl e, w1) \<Longrightarrow> upsert d tr slug (Some c) config w = (Inl e, w1)"
  by (simp add: upsert_def bindA_def)

section \<open>Properties\<close>

text \<open>
  C25. A closed gate stops everything: while the key's count has reached the threshold, every
  member of the route fails and leaves the world as it was, so no request is sent and nothing is
  counted.
\<close>

theorem closed_gate_sends_nothing:
  assumes "closed d w"
  shows "(\<exists>e. direct_execute d tr tool arguments c w = (Inl e, w)) \<and>
    (\<exists>e. direct_list_connections d tr w = (Inl e, w)) \<and>
    (\<exists>e. direct_authorize d tr toolkit body w = (Inl e, w)) \<and>
    (\<exists>e. direct_list_tools d tr toolkits tags w = (Inl e, w)) \<and>
    (\<exists>e. direct_list_available_triggers d tr toolkit c w = (Inl e, w)) \<and>
    (\<exists>e. direct_list_triggers d tr filter_toolkit w = (Inl e, w)) \<and>
    (\<exists>e. direct_create_trigger d tr slug c config w = (Inl e, w)) \<and>
    (\<exists>e. direct_enable_trigger d tr i slug config w = (Inl e, w)) \<and>
    (\<exists>e. direct_disable_trigger d tr i w = (Inl e, w))"
  by (intro conjI gatedD [OF _ assms] gated_direct_execute gated_direct_authorize
      gated_direct_lists gated_direct_triggers)

definition sample_route :: direct_route where
  "sample_route = \<lparr>entity_id = ''default'', key_fingerprint = 7, webhooks = True\<rparr>"

definition null_transport :: "unit transport" where
  "null_transport =
     \<lparr>send_get = \<lambda>path e. (Inr JNull, e), send_post = \<lambda>path body e. (Inr JNull, e),
      send_delete = \<lambda>path e. (Inr JNull, e)\<rparr>"

theorem closed_gate_sends_nothing_witness:
  "closed sample_route \<lparr>env = (), gate = [7 \<mapsto> 3], trace = []\<rparr> \<and>
   (\<exists>e. direct_disable_trigger sample_route null_transport ''ti_1''
      \<lparr>env = (), gate = [7 \<mapsto> 3], trace = []\<rparr> = (Inl e, \<lparr>env = (), gate = [7 \<mapsto> 3], trace = []\<rparr>))"
proof -
  have c: "closed sample_route \<lparr>env = (), gate = [7 \<mapsto> 3], trace = []\<rparr>"
    by (simp add: closed_def failure_count_def sample_route_def invalid_api_key_threshold_def)
  show ?thesis using c closed_gate_sends_nothing [OF c] by blast
qed

text \<open>
  C26. Counting with calls in flight: the check lets a call through exactly below the threshold
  and a returned call moves the count as \<open>settle\<close> says; so with at most \<open>cap\<close> calls in flight a key
  collects at most \<open>2 + cap\<close> consecutive rejections, and once the gate is closed with nothing in
  flight no further step changes it.
\<close>

theorem gate_with_calls_in_flight:
  assumes "(gate_step cap)\<^sup>*\<^sup>* (0, 0) (n, k)"
  shows "(fst (check_gate d w) = Inr () \<longleftrightarrow> failure_count d w < invalid_api_key_threshold) \<and>
    failure_count d (record_outcome d r w) = settle (failure_count d w) (outcome_of r) \<and>
    n \<le> 2 + cap \<and>
    (if k = 0 \<and> invalid_api_key_threshold \<le> n
     then {s. (gate_step cap)\<^sup>*\<^sup>* (n, k) s} = {(n, 0)} else True)"
proof -
  have "{s. (gate_step cap)\<^sup>*\<^sup>* (n, 0) s} = {(n, 0)}" if "invalid_api_key_threshold \<le> n"
    using gate_stuck [OF _ that] by blast
  then show ?thesis
    using gate_invariant [OF assms] failure_count_record by (auto simp: check_gate_def)
qed

theorem gate_with_calls_in_flight_witness:
  "(gate_step 1)\<^sup>*\<^sup>* (0, 0) (1, 0) \<and> (1 :: nat) \<le> 2 + 1"
proof -
  have "gate_step 1 (0, 0) (0, Suc 0)"
    by (rule gate_step.start) (simp_all add: invalid_api_key_threshold_def)
  moreover have "gate_step 1 (0, Suc 0) (settle 0 Rejected, 0)" by (rule gate_step.finish)
  ultimately have r: "(gate_step 1)\<^sup>*\<^sup>* (0, 0) (1, 0)"
    by (simp add: rtranclp.rtrancl_into_rtrancl)
  show ?thesis using r gate_with_calls_in_flight [OF r, of sample_route _ "Inr JNull"] by blast
qed

text \<open>
  A revoked key costs three requests: against a transport that answers every listing with
  the same rejection of the key, the first three polls send one request each and every later one
  sends none.
\<close>

fun poll :: "direct_route \<Rightarrow> 'e transport \<Rightarrow> nat \<Rightarrow> 'e world \<Rightarrow> 'e world" where
  "poll d tr 0 w = w"
| "poll d tr (Suc n) w = poll d tr n (snd (direct_list_connections d tr w))"

lemma poll_add: "poll d tr (m + n) w = poll d tr n (poll d tr m w)"
  by (induction m arbitrary: w) auto

lemma poll_rejected:
  assumes "\<And>path e. send_get tr path e = (Inl (rejection path), e)"
    and "\<And>path. is_invalid_api_key (rejection path)"
  shows "n = invalid_api_key_threshold - failure_count d w \<Longrightarrow> closed d (poll d tr n w) \<and>
    requests (trace (poll d tr n w)) = requests (trace w) + n"
proof (induction n arbitrary: w)
  case (Suc n)
  then have "\<not> closed d w" by (simp add: closed_def)
  then have s: "snd (direct_list_connections d tr w) = record_outcome d (Inl (rejection ''/connected_accounts?limit=200''))
      (w\<lparr>trace := trace w @ [Get ''/connected_accounts?limit=200'']\<rparr>)"
    by (simp add: direct_list_connections_def mapA_run call_open transport_get_def reply_def assms)
  let ?w = "snd (direct_list_connections d tr w)"
  have "failure_count d ?w = Suc (failure_count d w)"
    unfolding s failure_count_record using assms(2) by (simp add: outcome_of_def failure_count_def)
  then have "n = invalid_api_key_threshold - failure_count d ?w" using Suc.prems by simp
  from Suc.IH [OF this] have "closed d (poll d tr n ?w)"
    "requests (trace (poll d tr n ?w)) = requests (trace ?w) + n" by blast+
  moreover have "requests (trace ?w) = Suc (requests (trace w))" by (simp add: s)
  ultimately show ?case by simp
qed (simp add: closed_def)

lemma poll_closed: "closed d w \<Longrightarrow> poll d tr n w = w"
proof (induction n)
  case (Suc n)
  then show ?case using gated_direct_lists(1) [of d tr] by (fastforce simp: gated_def)
qed simp

theorem revoked_key_three_requests:
  assumes "\<And>path e. send_get tr path e = (Inl (rejection path), e)"
    and "\<And>path. is_invalid_api_key (rejection path)"
    and "gate w (key_fingerprint d) = None"
  shows "requests (trace (poll d tr (3 + n) w)) = requests (trace w) + 3 \<and> closed d (poll d tr (3 + n) w)"
proof -
  have "3 = invalid_api_key_threshold - failure_count d w"
    by (simp add: failure_count_def assms(3) invalid_api_key_threshold_def)
  from poll_rejected [OF assms(1,2) this] show ?thesis by (simp add: poll_add poll_closed)
qed

theorem revoked_key_three_requests_witness:
  "requests (trace (poll sample_route
     \<lparr>send_get = \<lambda>path e. (Inl (Transport path ''HTTP 401: Invalid API key''), e),
      send_post = \<lambda>path body e. (Inr JNull, e), send_delete = \<lambda>path e. (Inr JNull, e)\<rparr>
     (3 + 4) \<lparr>env = (), gate = Map.empty, trace = []\<rparr>)) = 3"
  (is "requests (trace (poll _ ?tr _ ?w)) = 3")
proof -
  have a: "send_get ?tr path e = (Inl (Transport path ''HTTP 401: Invalid API key''), e)" for path e by simp
  have b: "is_invalid_api_key (Transport path ''HTTP 401: Invalid API key'')" for path
    by (simp add: is_invalid_api_key_def str_eval)
  show ?thesis
    using revoked_key_three_requests [where tr = ?tr and w = ?w and d = sample_route and n = 4, OF a b] by simp
qed

text \<open>
  C28. A listing is whole or an error, and says which rows it rests on. Rows are returned only when the
  transport answered every page, each asked for with the cursor the one before it gave, and the last
  named no further one; they are the rows of those answers in their order. Otherwise the listing
  fails where it stopped: with the error of the page that could not be had, or as incomplete when a
  page names itself as the next or the twentieth still names another. Either way at most twenty
  requests are sent.
\<close>

theorem listing_complete:
  "(case list_pages d tr path w of
      (Inr rows, w') \<Rightarrow>
        (\<exists>us v. open_pages None us \<and> next_cursor v = None \<and> length us < 20 \<and>
           answered d tr path None (us @ [v]) w w' \<and> rows = concat (map rows_of (us @ [v])))
    | (Inl e, w') \<Rightarrow>
        (\<exists>us w1. open_pages None us \<and> answered d tr path None us w w1 \<and>
           (length us = 20 \<and> e = ListingIncomplete path 20 \<and> w' = w1 \<or>
            length us < 20 \<and> page_lost d tr path (cursor_after None us) e w1 w'))) \<and>
   (\<exists>evs. trace (snd (list_pages d tr path w)) = trace w @ evs \<and> requests evs \<le> 20)"
proof -
  obtain result w' where r: "list_pages d tr path w = (map_sum id ((@) []) result, w')"
    "listing_result d tr path 20 None result w w'"
    using page_loop_result [of d tr path 20 None "[]" w] by (auto simp: list_pages_def max_pages_def)
  moreover have "\<exists>evs. trace (snd (list_pages d tr path w)) = trace w @ evs \<and> requests evs \<le> 20"
    using grows_list_pages [of d tr path] unfolding grows_def by blast
  ultimately show ?thesis by (cases result) (simp_all add: listing_result_def)
qed

text \<open>
  C27. A subscription fails closed: with the trigger members on, creating or enabling a trigger on
  a connection reads the connection's owner first, and unless the reply names this route's
  entity nothing else is sent and the call fails; with them off nothing is sent at all.
\<close>

theorem subscription_needs_owner:
  "(case segment c ''connection_id'' of
      Inl e \<Rightarrow> (\<exists>e. direct_create_trigger d tr slug (Some c) config w = (Inl e, w)) \<and>
               (\<exists>e. direct_enable_trigger d tr c slug config w = (Inl e, w))
    | Inr seg \<Rightarrow>
        (case owner_lookup d tr seg w of (r, w1) \<Rightarrow>
           if webhooks d \<and> (case r of Inr v \<Rightarrow> owner_of v = Some (entity_id d) | Inl _ \<Rightarrow> False)
           then ensure_owned d tr c w = (Inr (), w1)
           else let w2 = (if webhooks d then w1 else w) in
             (\<exists>e. direct_create_trigger d tr slug (Some c) config w = (Inl e, w2)) \<and>
             (\<exists>e. direct_enable_trigger d tr c slug config w = (Inl e, w2))))"
proof -
  have on: "(\<exists>e. direct_create_trigger d tr slug (Some c) config w = (Inl e, w1)) \<and>
      (\<exists>e. direct_enable_trigger d tr c slug config w = (Inl e, w1))"
    if "webhooks d" "ensure_owned d tr c w = (Inl e, w1)" for e w1
    using that upsert_not_owned [OF that(2)]
    by (simp add: direct_create_trigger_def direct_enable_trigger_def require_webhooks_def mapA_run)
  have off: "(\<exists>e. direct_create_trigger d tr slug (Some c) config w = (Inl e, w)) \<and>
      (\<exists>e. direct_enable_trigger d tr c slug config w = (Inl e, w))" if "\<not> webhooks d"
    using that by (simp add: direct_create_trigger_def direct_enable_trigger_def require_webhooks_def)
  show ?thesis
  proof (cases "segment c ''connection_id''")
    case (Inl e)
    then show ?thesis
      using on [of e w] off by (cases "webhooks d") (simp_all add: ensure_owned_run account_owner_run)
  next
    case (Inr seg)
    obtain r w1 where r: "owner_lookup d tr seg w = (r, w1)" by (cases "owner_lookup d tr seg w")
    show ?thesis
    proof (cases "webhooks d \<and> (case r of Inr v \<Rightarrow> owner_of v = Some (entity_id d) | Inl _ \<Rightarrow> False)")
      case True
      then show ?thesis by (auto simp: Inr r ensure_owned_run account_owner_run split: sum.splits)
    next
      case False
      have "\<exists>e. ensure_owned d tr c w = (Inl e, w1)" if "webhooks d"
        using False that by (auto simp: Inr r ensure_owned_run account_owner_run split: sum.splits)
      then show ?thesis
        using on off unfolding Inr r sum.case prod.case if_not_P [OF False] Let_def
        by (cases "webhooks d") auto
    qed
  qed
qed

text \<open>
  One user of a shared key cannot remove another's subscription: a delete is sent only after
  a lookup returned a row with the trigger's id that names this route's entity as its owner, and
  otherwise the call fails after the lookup.
\<close>

theorem disable_needs_owned_row:
  "(if \<not> webhooks d then direct_disable_trigger d tr i w = (Inl (unsupported ''DisableTrigger''), w)
    else case call d (transport_get tr (owned_lookup_path d (trim i))) w of
      (Inl e, w1) \<Rightarrow> direct_disable_trigger d tr i w = (Inl e, w1)
    | (Inr found, w1) \<Rightarrow>
        if list_ex (\<lambda>row. slug_field row [''id'', ''trigger_id'', ''triggerId''] = Some (trim i) \<and>
             owner_of row = Some (entity_id d)) (rows_of found)
        then direct_disable_trigger d tr i w =
          (case segment i ''trigger_id'' of
             Inl e \<Rightarrow> (Inl e, w1)
           | Inr seg \<Rightarrow> mapA (\<lambda>_. True) (call d (transport_delete tr (''/trigger_instances/manage/'' @ seg))) w1)
        else direct_disable_trigger d tr i w = (Inl (TriggerNotOwned (trim i)), w1))"
proof -
  have owner: "names_owner row e \<longleftrightarrow> owner_of row = Some e" for row e
    by (auto simp: names_owner_def split: option.splits)
  have names: "list_ex (names_trigger d (trim i)) rows \<longleftrightarrow>
      list_ex (\<lambda>row. slug_field row [''id'', ''trigger_id'', ''triggerId''] = Some (trim i) \<and>
             owner_of row = Some (entity_id d)) rows" for rows
    unfolding list_ex_iff names_trigger_def owner ..
  have seg: "segment (trim i) what = segment i what" for what by (simp add: segment_def)
  show ?thesis
  proof (cases "webhooks d")
    case False
    then show ?thesis by (simp add: direct_disable_trigger_def require_webhooks_def)
  next
    case True
    obtain r w1 where r: "call d (transport_get tr (owned_lookup_path d (trim i))) w = (r, w1)"
      by (cases "call d (transport_get tr (owned_lookup_path d (trim i))) w")
    have run: "direct_disable_trigger d tr i w = (case r of
        Inl e \<Rightarrow> (Inl e, w1)
      | Inr found \<Rightarrow>
          if \<not> list_ex (names_trigger d (trim i)) (rows_of found)
          then (Inl (TriggerNotOwned (trim i)), w1)
          else (case segment i ''trigger_id'' of
             Inl e \<Rightarrow> (Inl e, w1)
           | Inr seg \<Rightarrow> mapA (\<lambda>_. True) (call d (transport_delete tr (''/trigger_instances/manage/'' @ seg))) w1))"
      using True
      by (simp add: direct_disable_trigger_def require_webhooks_def Let_def bindA_def [of "call d m" for m] r
          seg split: sum.splits)
    show ?thesis unfolding run r names using True by (simp split: sum.splits)
  qed
qed

end
