(* ===== verification/Proxy_Route.thy ===== *)
theory Proxy_Route
  imports Execute Url
begin

text \<open>
  The backend-proxied route: \<open>crates/tinyconnectors/src/client/route/proxy.rs\<close>. Decoding a payload
  type is code the derive macro generates: a decoder \<open>dec\<close>, which yields the value or the
  library's message, is an argument. \<open>shape\<close> is the library's message for an envelope whose
  own fields have the wrong type.
\<close>

type_synonym 'a decoder = "json \<Rightarrow> str + 'a"

text \<open>A field that may be missing or null.\<close>

definition optional :: "json option \<Rightarrow> json option" where
  "optional v = opt_filter (\<lambda>j. \<not> is_null j) v"

record 'a envelope =
  env_success :: bool
  env_data :: "'a option"
  env_error :: "str option"

definition decode_data :: "'a decoder \<Rightarrow> json \<Rightarrow> str + 'a option" where
  "decode_data dec v =
     (case optional (jget v ''data'') of
        None \<Rightarrow> Inr None | Some d \<Rightarrow> bind_result (dec d) (\<lambda>a. Inr (Some a)))"

definition decode_error_text :: "(json \<Rightarrow> str) \<Rightarrow> json \<Rightarrow> str + str option" where
  "decode_error_text shape v =
     (case optional (jget v ''error'') of
        None \<Rightarrow> Inr None | Some (JStr s) \<Rightarrow> Inr (Some s) | Some other \<Rightarrow> Inl (shape other))"

definition decode_success :: "(json \<Rightarrow> str) \<Rightarrow> json \<Rightarrow> str + bool" where
  "decode_success shape v =
     (case jget v ''success'' of
        None \<Rightarrow> Inr False | Some (JBool b) \<Rightarrow> Inr b | Some other \<Rightarrow> Inl (shape other))"

definition decode_envelope :: "'a decoder \<Rightarrow> (json \<Rightarrow> str) \<Rightarrow> json \<Rightarrow> str + 'a envelope" where
  "decode_envelope dec shape v =
     bind_result (decode_data dec v) (\<lambda>d.
       bind_result (decode_error_text shape v) (\<lambda>e.
         bind_result (decode_success shape v) (\<lambda>s.
           Inr \<lparr>env_success = s, env_data = d, env_error = e\<rparr>)))"

definition map_error :: "('e \<Rightarrow> 'f) \<Rightarrow> 'e + 'a \<Rightarrow> 'f + 'a" where
  "map_error f r = (case r of Inl e \<Rightarrow> Inl (f e) | Inr a \<Rightarrow> Inr a)"

definition proxy_decode :: "'a decoder \<Rightarrow> (json \<Rightarrow> str) \<Rightarrow> str \<Rightarrow> json \<Rightarrow> 'a res" where
  "proxy_decode dec shape path v =
     (if jget v ''success'' = None then map_error (Decode path) (dec v)
      else bind_result (map_error (Decode path) (decode_envelope dec shape v)) (\<lambda>envelope.
        if \<not> env_success envelope then
          Inl (Transport path (unwrap_or ''the backend reported failure without saying why''
            (env_error envelope)))
        else case env_data envelope of
          Some a \<Rightarrow> Inr a
        | None \<Rightarrow> Inl (Decode path ''the backend reported success but sent no data'')))"

section \<open>The route's members\<close>

definition base_path :: str where "base_path = ''/agent-integrations/composio''"

definition proxy_get :: "'a decoder \<Rightarrow> (json \<Rightarrow> str) \<Rightarrow> 'e transport \<Rightarrow> str \<Rightarrow> ('e, 'a) act" where
  "proxy_get dec shape tr path =
     bindA (transport_get tr path) (\<lambda>v. liftA (proxy_decode dec shape path v))"

definition proxy_post ::
  "'a decoder \<Rightarrow> (json \<Rightarrow> str) \<Rightarrow> 'e transport \<Rightarrow> str \<Rightarrow> json \<Rightarrow> ('e, 'a) act" where
  "proxy_post dec shape tr path body =
     bindA (transport_post tr path body) (\<lambda>v. liftA (proxy_decode dec shape path v))"

definition proxy_delete :: "'a decoder \<Rightarrow> (json \<Rightarrow> str) \<Rightarrow> 'e transport \<Rightarrow> str \<Rightarrow> ('e, 'a) act" where
  "proxy_delete dec shape tr path =
     bindA (transport_delete tr path) (\<lambda>v. liftA (proxy_decode dec shape path v))"

definition proxy_list_toolkits :: "'a decoder \<Rightarrow> (json \<Rightarrow> str) \<Rightarrow> 'e transport \<Rightarrow> ('e, 'a) act" where
  "proxy_list_toolkits dec shape tr = proxy_get dec shape tr (base_path @ ''/toolkits'')"

definition proxy_list_connections ::
  "connection list decoder \<Rightarrow> (json \<Rightarrow> str) \<Rightarrow> 'e transport \<Rightarrow> ('e, connection list) act" where
  "proxy_list_connections dec shape tr = proxy_get dec shape tr (base_path @ ''/connections'')"

definition proxy_authorize ::
  "authorize_response decoder \<Rightarrow> (json \<Rightarrow> str) \<Rightarrow> 'e transport \<Rightarrow> str \<Rightarrow> json \<Rightarrow>
   ('e, authorize_response) act" where
  "proxy_authorize dec shape tr toolkit body = proxy_post dec shape tr (base_path @ ''/authorize'') body"

definition tools_query :: "str list \<Rightarrow> str list \<Rightarrow> str list" where
  "tools_query toolkits tags =
     (case comma_joined toolkits of None \<Rightarrow> [] | Some joined \<Rightarrow> [''toolkits='' @ joined]) @
     (case comma_joined tags of None \<Rightarrow> [] | Some joined \<Rightarrow> [''tags='' @ joined])"

definition proxy_list_tools ::
  "tool_schema list decoder \<Rightarrow> (json \<Rightarrow> str) \<Rightarrow> 'e transport \<Rightarrow> str list \<Rightarrow> str list \<Rightarrow>
   ('e, tool_schema list) act" where
  "proxy_list_tools dec shape tr toolkits tags =
     (let query = tools_query toolkits tags in
      proxy_get dec shape tr
        (if query = [] then base_path @ ''/tools'' else base_path @ ''/tools?'' @ join ''&'' query))"

definition proxy_execute_body :: "str \<Rightarrow> json \<Rightarrow> str option \<Rightarrow> json" where
  "proxy_execute_body tool arguments connid =
     (let b = obj_of [(''tool'', JStr tool), (''arguments'', arguments)] in
      JObj (case connid of Some c \<Rightarrow> obj_insert ''connectionId'' (JStr c) b | None \<Rightarrow> b))"

definition proxy_execute ::
  "execute_response decoder \<Rightarrow> (json \<Rightarrow> str) \<Rightarrow> 'e transport \<Rightarrow> 'e route_execute" where
  "proxy_execute dec shape tr tool arguments connid =
     proxy_post dec shape tr (base_path @ ''/execute'') (proxy_execute_body tool arguments connid)"

definition proxy_delete_connection ::
  "bool decoder \<Rightarrow> (json \<Rightarrow> str) \<Rightarrow> 'e transport \<Rightarrow> str \<Rightarrow> ('e, bool) act" where
  "proxy_delete_connection dec shape tr connid =
     bindA (liftA (segment connid ''connection_id'')) (\<lambda>seg.
       proxy_delete dec shape tr (base_path @ ''/connections/'' @ seg))"

definition proxy_list_github_repos ::
  "'a decoder \<Rightarrow> (json \<Rightarrow> str) \<Rightarrow> 'e transport \<Rightarrow> str option \<Rightarrow> ('e, 'a) act" where
  "proxy_list_github_repos dec shape tr connid =
     proxy_get dec shape tr
       (case connid of
          Some c \<Rightarrow> base_path @ ''/github/repos?connectionId='' @ encode c
        | None \<Rightarrow> base_path @ ''/github/repos'')"

definition proxy_list_available_triggers ::
  "available_trigger list decoder \<Rightarrow> (json \<Rightarrow> str) \<Rightarrow> 'e transport \<Rightarrow> str \<Rightarrow> str option \<Rightarrow>
   ('e, available_trigger list) act" where
  "proxy_list_available_triggers dec shape tr toolkit connid =
     proxy_get dec shape tr
       (base_path @ ''/triggers/available?toolkit='' @ encode toolkit @
        (case connid of Some c \<Rightarrow> ''&connectionId='' @ encode c | None \<Rightarrow> []))"

definition proxy_list_triggers ::
  "active_trigger list decoder \<Rightarrow> (json \<Rightarrow> str) \<Rightarrow> 'e transport \<Rightarrow> str option \<Rightarrow>
   ('e, active_trigger list) act" where
  "proxy_list_triggers dec shape tr toolkit =
     proxy_get dec shape tr
       (case toolkit of
          Some t \<Rightarrow> base_path @ ''/triggers?toolkit='' @ encode t
        | None \<Rightarrow> base_path @ ''/triggers'')"

definition with_config :: "json option \<Rightarrow> fields \<Rightarrow> fields" where
  "with_config config b = (case config of Some c \<Rightarrow> obj_insert ''triggerConfig'' c b | None \<Rightarrow> b)"

definition proxy_create_trigger ::
  "create_trigger_response decoder \<Rightarrow> (json \<Rightarrow> str) \<Rightarrow> 'e transport \<Rightarrow> str \<Rightarrow> str option \<Rightarrow>
   json option \<Rightarrow> ('e, create_trigger_response) act" where
  "proxy_create_trigger dec shape tr slug connid config =
     (let b0 = obj_of [(''slug'', JStr slug)];
          b1 = (case connid of Some c \<Rightarrow> obj_insert ''connectionId'' (JStr c) b0 | None \<Rightarrow> b0) in
      proxy_post dec shape tr (base_path @ ''/triggers'') (JObj (with_config config b1)))"

definition proxy_enable_trigger ::
  "enable_trigger_response decoder \<Rightarrow> (json \<Rightarrow> str) \<Rightarrow> 'e transport \<Rightarrow> str \<Rightarrow> str \<Rightarrow>
   json option \<Rightarrow> ('e, enable_trigger_response) act" where
  "proxy_enable_trigger dec shape tr connid slug config =
     proxy_post dec shape tr (base_path @ ''/triggers'')
       (JObj (with_config config (obj_of [(''connectionId'', JStr connid), (''slug'', JStr slug)])))"

definition proxy_disable_trigger ::
  "bool decoder \<Rightarrow> (json \<Rightarrow> str) \<Rightarrow> 'e transport \<Rightarrow> str \<Rightarrow> ('e, bool) act" where
  "proxy_disable_trigger dec shape tr trigger_id =
     bindA (liftA (segment trigger_id ''trigger_id'')) (\<lambda>seg.
       proxy_delete dec shape tr (base_path @ ''/triggers/'' @ seg))"

section \<open>Laws\<close>

lemma grows_proxy:
  "grows 1 0 (proxy_get dec shape tr path)" "grows 1 0 (proxy_post dec shape tr path body)"
  "grows 1 0 (proxy_delete dec shape tr path)"
  unfolding proxy_get_def proxy_post_def proxy_delete_def
  by (rule grows_bind_free, rule grows_transport, rule grows_lift)+

interpretation proxy: priced_route "proxy_execute dec shape tr" 1 for dec shape tr
  by unfold_locales (simp only: proxy_execute_def grows_proxy)

section \<open>Properties\<close>

text \<open>
  A reply is never mistaken for a payload: the envelope's own verdict decides. A reply
  without \<open>success\<close> is the payload itself; \<open>success: true\<close> gives what is under \<open>data\<close>, and an error
  when nothing is there; \<open>success: false\<close> is always an error, carrying the backend's text when
  its other fields can be read; and any other verdict is a decode error.
\<close>

theorem envelope_verdict:
  "(case jget v ''success'' of
      None \<Rightarrow> proxy_decode dec shape path v = map_error (Decode path) (dec v)
    | Some (JBool True) \<Rightarrow>
        (case optional (jget v ''data'') of
           None \<Rightarrow> (\<exists>msg. proxy_decode dec shape path v = Inl (Decode path msg))
         | Some d \<Rightarrow>
             (case dec d of
                Inl msg \<Rightarrow> proxy_decode dec shape path v = Inl (Decode path msg)
              | Inr a \<Rightarrow>
                  if (case optional (jget v ''error'') of Some (JStr _) \<Rightarrow> True | None \<Rightarrow> True | _ \<Rightarrow> False)
                  then proxy_decode dec shape path v = Inr a
                  else \<exists>msg. proxy_decode dec shape path v = Inl (Decode path msg)))
    | Some (JBool False) \<Rightarrow>
        (case (decode_data dec v, optional (jget v ''error'')) of
           (Inr _, Some (JStr s)) \<Rightarrow> proxy_decode dec shape path v = Inl (Transport path s)
         | _ \<Rightarrow> \<exists>msg. proxy_decode dec shape path v = Inl (Transport path msg) \<or>
                   proxy_decode dec shape path v = Inl (Decode path msg))
    | Some _ \<Rightarrow> \<exists>msg. proxy_decode dec shape path v = Inl (Decode path msg))"
proof (cases "jget v ''success''")
  case None
  then show ?thesis by (simp add: proxy_decode_def)
next
  case (Some verdict)
  then have run: "proxy_decode dec shape path v =
      bind_result (map_error (Decode path) (decode_envelope dec shape v)) (\<lambda>envelope.
        if \<not> env_success envelope then
          Inl (Transport path (unwrap_or ''the backend reported failure without saying why''
            (env_error envelope)))
        else case env_data envelope of
          Some a \<Rightarrow> Inr a
        | None \<Rightarrow> Inl (Decode path ''the backend reported success but sent no data''))"
    by (simp add: proxy_decode_def del: bind_result_Inr bind_result_Inl)
  have s: "decode_success shape v = (case verdict of JBool b \<Rightarrow> Inr b | other \<Rightarrow> Inl (shape other))"
    by (simp add: decode_success_def Some)
  show ?thesis
  proof (cases "decode_data dec v")
    case (Inl msg)
    then have d: "\<exists>j. optional (jget v ''data'') = Some j \<and> dec j = Inl msg"
      by (auto simp: decode_data_def split: option.splits)
    show ?thesis
      unfolding run decode_envelope_def Inl Some using d
      by (auto simp: map_error_def split: json.splits bool.splits)
  next
    case (Inr data)
    then have d: "(case optional (jget v ''data'') of None \<Rightarrow> data = None | Some j \<Rightarrow> \<exists>a. dec j = Inr a \<and> data = Some a)"
      by (auto simp: decode_data_def split: option.splits)
    consider msg where "decode_error_text shape v = Inl msg"
        "\<not> (case optional (jget v ''error'') of Some (JStr _) \<Rightarrow> True | None \<Rightarrow> True | _ \<Rightarrow> False)"
      | "decode_error_text shape v = Inr None" "optional (jget v ''error'') = None"
      | t where "decode_error_text shape v = Inr (Some t)" "optional (jget v ''error'') = Some (JStr t)"
      by (cases "optional (jget v ''error'')"; cases "the (optional (jget v ''error''))")
        (auto simp: decode_error_text_def)
    then show ?thesis
      unfolding run decode_envelope_def Inr Some s using d
      by cases (cases verdict; auto simp: map_error_def simp del: bind_result_Inr bind_result_Inl
          split: option.splits bool.splits json.splits)+
  qed
qed

end
