(* ===== verification/Client.thy ===== *)
theory Client
  imports OAuth Direct_Laws Proxy_Route
begin

text \<open>
  The client over whichever route the host chose:
  \<open>crates/tinyconnectors/src/client/composio.rs\<close>, and the route interface of
  \<open>client/route/mod.rs\<close> as a record of actions. The payloads the client only passes on (the
  toolkit list and GitHub's repositories) are type variables.
\<close>

record ('e, 'x, 'y) route =
  route_name :: str
  r_list_toolkits :: "('e, 'x) act"
  r_list_connections :: "('e, connection list) act"
  r_authorize :: "str \<Rightarrow> json \<Rightarrow> ('e, authorize_response) act"
  r_list_tools :: "str list \<Rightarrow> str list \<Rightarrow> ('e, tool_schema list) act"
  r_execute :: "'e route_execute"
  r_delete_connection :: "str \<Rightarrow> ('e, bool) act"
  r_list_github_repos :: "str option \<Rightarrow> ('e, 'y) act"
  r_list_available_triggers :: "str \<Rightarrow> str option \<Rightarrow> ('e, available_trigger list) act"
  r_list_triggers :: "str option \<Rightarrow> ('e, active_trigger list) act"
  r_create_trigger :: "str \<Rightarrow> str option \<Rightarrow> json option \<Rightarrow> ('e, create_trigger_response) act"
  r_enable_trigger :: "str \<Rightarrow> str \<Rightarrow> json option \<Rightarrow> ('e, enable_trigger_response) act"
  r_disable_trigger :: "str \<Rightarrow> ('e, bool) act"

definition direct_as_route :: "direct_route \<Rightarrow> 'e transport \<Rightarrow> ('e, 'x, 'y) route" where
  "direct_as_route d tr =
     \<lparr>route_name = ''direct'',
      r_list_toolkits = direct_list_toolkits,
      r_list_connections = direct_list_connections d tr,
      r_authorize = direct_authorize d tr,
      r_list_tools = direct_list_tools d tr,
      r_execute = direct_execute d tr,
      r_delete_connection = direct_delete_connection,
      r_list_github_repos = direct_list_github_repos,
      r_list_available_triggers = direct_list_available_triggers d tr,
      r_list_triggers = direct_list_triggers d tr,
      r_create_trigger = direct_create_trigger d tr,
      r_enable_trigger = direct_enable_trigger d tr,
      r_disable_trigger = direct_disable_trigger d tr\<rparr>"

section \<open>Argument rules\<close>

definition reserved_authorize_keys :: "str list" where
  "reserved_authorize_keys = [''toolkit'', ''toolkit_version'', ''auth'', ''client_id'']"

definition gmail_required_oauth_scopes :: "str list" where
  "gmail_required_oauth_scopes = [''https://www.googleapis.com/auth/gmail.readonly'']"

definition oauth_scopes_field :: str where "oauth_scopes_field = ''oauth_scopes''"

definition require :: "str \<Rightarrow> str \<Rightarrow> str \<Rightarrow> str res" where
  "require member_name what v =
     (let trimmed = trim v in
      if trimmed = [] then Inl (InvalidArguments member_name (''`'' @ what @ ''` must not be empty''))
      else Inr trimmed)"

definition non_empty :: "str option \<Rightarrow> str option" where
  "non_empty v = opt_filter (\<lambda>s. s \<noteq> []) (map_option trim v)"

definition required_oauth_scopes :: "str \<Rightarrow> str list" where
  "required_oauth_scopes toolkit =
     (if to_lower (trim toolkit) = ''gmail'' then gmail_required_oauth_scopes else [])"

fun add_scopes :: "json list \<Rightarrow> str list \<Rightarrow> json list" where
  "add_scopes scopes [] = scopes"
| "add_scopes scopes (s # rest) =
     add_scopes (if list_ex (\<lambda>p. p = s) (filter_map as_str scopes) then scopes else scopes @ [JStr s]) rest"

definition merge_required_oauth_scopes :: "fields \<Rightarrow> str \<Rightarrow> fields" where
  "merge_required_oauth_scopes body toolkit =
     (let required = required_oauth_scopes toolkit in
      if required = [] then body
      else
        (let existing = unwrap_or [] (Option.bind (map_of body oauth_scopes_field) as_array) in
         obj_insert oauth_scopes_field (JArr (add_scopes existing required)) body))"

fun merge_extra :: "str \<Rightarrow> fields \<Rightarrow> fields \<Rightarrow> fields res" where
  "merge_extra toolkit [] body = Inr body"
| "merge_extra toolkit ((k, v) # rest) body =
     (if List.member reserved_authorize_keys k
      then Inl (Authorize toolkit (''extra_params cannot override reserved key '' @
             [CHR 0x27] @ k @ [CHR 0x27]))
      else merge_extra toolkit rest (obj_insert k v body))"

definition authorize_body :: "str \<Rightarrow> json option \<Rightarrow> fields res" where
  "authorize_body toolkit extra_params =
     bind_result
       (case extra_params of
          None \<Rightarrow> Inr (obj_of [(''toolkit'', JStr toolkit)])
        | Some (JObj extra) \<Rightarrow> merge_extra toolkit extra (obj_of [(''toolkit'', JStr toolkit)])
        | Some _ \<Rightarrow> Inl (Authorize toolkit ''extra_params must be a JSON object''))
       (\<lambda>body. Inr (merge_required_oauth_scopes body toolkit))"

section \<open>Operations\<close>

definition is_stale :: "str \<Rightarrow> connection \<Rightarrow> bool" where
  "is_stale wanted c \<longleftrightarrow>
     \<not> (normalized_toolkit c \<noteq> wanted \<or> is_active c \<or> \<not> is_clearable_oauth_status (conn_status c))"

fun clear_loop :: "('e, 'x, 'y) route \<Rightarrow> str \<Rightarrow> connection list \<Rightarrow> nat \<Rightarrow> ('e, nat) act" where
  "clear_loop r wanted [] cleared = retA cleared"
| "clear_loop r wanted (c # rest) cleared =
     (if \<not> is_stale wanted c then clear_loop r wanted rest cleared
      else thenA (r_delete_connection r (conn_id c)) (\<lambda>answer. case answer of
          Inr _ \<Rightarrow> clear_loop r wanted rest (Suc cleared)
        | Inl _ \<Rightarrow> clear_loop r wanted rest cleared))"

definition clear_stale_handoffs :: "('e, 'x, 'y) route \<Rightarrow> str \<Rightarrow> ('e, nat) act" where
  "clear_stale_handoffs r toolkit =
     (if \<not> is_meta_oauth_toolkit toolkit then retA 0
      else thenA (r_list_connections r) (\<lambda>answer. case answer of
          Inl _ \<Rightarrow> retA 0
        | Inr connections \<Rightarrow> clear_loop r (to_lower (trim toolkit)) connections 0))"

definition client_authorize ::
  "('e, 'x, 'y) route \<Rightarrow> str \<Rightarrow> json option \<Rightarrow> ('e, authorize_response) act" where
  "client_authorize r toolkit0 extra_params =
     (let toolkit = trim toolkit0 in
      if toolkit = [] then failA (Authorize [] ''toolkit must not be empty'')
      else bindA (liftA (authorize_body toolkit extra_params)) (\<lambda>body.
        bindA (clear_stale_handoffs r toolkit) (\<lambda>_. r_authorize r toolkit (JObj body))))"

definition client_delete_connection :: "('e, 'x, 'y) route \<Rightarrow> str \<Rightarrow> ('e, bool) act" where
  "client_delete_connection r connid0 =
     (let connid = trim connid0 in
      if connid = [] then failA (Authorize [] ''connection_id must not be empty'')
      else r_delete_connection r connid)"

definition client_list_tools ::
  "('e, 'x, 'y) route \<Rightarrow> str list \<Rightarrow> str list \<Rightarrow> ('e, tool_schema list) act" where
  "client_list_tools r toolkits tags = r_list_tools r toolkits tags"

definition client_execute ::
  "(json \<Rightarrow> str) \<Rightarrow> ('e, 'x, 'y) route \<Rightarrow> str \<Rightarrow> json option \<Rightarrow> str option \<Rightarrow> ('e, execute_response) act" where
  "client_execute show_json r tool arguments connid =
     execute_action show_json (r_execute r) tool arguments connid"

definition client_list_github_repos :: "('e, 'x, 'y) route \<Rightarrow> str option \<Rightarrow> ('e, 'y) act" where
  "client_list_github_repos r connid = r_list_github_repos r (non_empty connid)"

definition client_list_available_triggers ::
  "('e, 'x, 'y) route \<Rightarrow> str \<Rightarrow> str option \<Rightarrow> ('e, available_trigger list) act" where
  "client_list_available_triggers r toolkit connid =
     bindA (liftA (require ''ListAvailableTriggers'' ''toolkit'' toolkit)) (\<lambda>t.
       r_list_available_triggers r t (non_empty connid))"

definition client_list_triggers :: "('e, 'x, 'y) route \<Rightarrow> str option \<Rightarrow> ('e, active_trigger list) act" where
  "client_list_triggers r toolkit = r_list_triggers r (non_empty toolkit)"

definition client_create_trigger ::
  "('e, 'x, 'y) route \<Rightarrow> str \<Rightarrow> str option \<Rightarrow> json option \<Rightarrow> ('e, create_trigger_response) act" where
  "client_create_trigger r slug connid config =
     bindA (liftA (require ''CreateTrigger'' ''slug'' slug)) (\<lambda>s.
       r_create_trigger r s (non_empty connid) config)"

definition client_enable_trigger ::
  "('e, 'x, 'y) route \<Rightarrow> str \<Rightarrow> str \<Rightarrow> json option \<Rightarrow> ('e, enable_trigger_response) act" where
  "client_enable_trigger r connid slug config =
     bindA (liftA (require ''EnableTrigger'' ''connection_id'' connid)) (\<lambda>c.
       bindA (liftA (require ''EnableTrigger'' ''slug'' slug)) (\<lambda>s.
         r_enable_trigger r c s config))"

definition client_disable_trigger :: "('e, 'x, 'y) route \<Rightarrow> str \<Rightarrow> ('e, bool) act" where
  "client_disable_trigger r trigger_id =
     bindA (liftA (require ''DisableTrigger'' ''trigger_id'' trigger_id)) (\<lambda>i. r_disable_trigger r i)"

section \<open>Laws\<close>

lemma merge_extra_Inr:
  assumes "merge_extra toolkit extra body = Inr b"
  shows "list_all (\<lambda>kv. \<not> List.member reserved_authorize_keys (fst kv)) extra"
    and "map_of b = map_of body ++ map_of (rev extra)"
  using assms
  by (induction toolkit extra body rule: merge_extra.induct)
    (auto simp: map_add_assoc [symmetric] split: if_splits)

lemma add_scopes_prefix: "prefix scopes (add_scopes scopes required)"
  by (induction scopes required rule: add_scopes.induct)
    (auto dest: append_prefixD split: if_splits)

lemma filter_map_mono: "prefix a b \<Longrightarrow> set (filter_map f a) \<subseteq> set (filter_map f b)"
  by (auto simp: prefix_def)

lemma add_scopes_has: "set required \<subseteq> set (filter_map as_str (add_scopes scopes required))"
proof (induction scopes required rule: add_scopes.induct)
  case (2 scopes s rest)
  let ?new = "if list_ex (\<lambda>p. p = s) (filter_map as_str scopes) then scopes else scopes @ [JStr s]"
  have "s \<in> set (filter_map as_str ?new)" by (auto simp: list_ex_iff)
  moreover have "set (filter_map as_str ?new) \<subseteq> set (filter_map as_str (add_scopes ?new rest))"
    by (rule filter_map_mono [OF add_scopes_prefix])
  ultimately show ?case using 2 by (auto simp only: add_scopes.simps list.set)
qed simp

lemma merge_scopes_frame:
  "k \<noteq> oauth_scopes_field \<Longrightarrow> map_of (merge_required_oauth_scopes body toolkit) k = map_of body k"
  by (simp add: merge_required_oauth_scopes_def Let_def)

lemma merge_scopes_kept:
  assumes "map_of body oauth_scopes_field = Some (JArr old)"
  shows "\<exists>new. map_of (merge_required_oauth_scopes body toolkit) oauth_scopes_field = Some (JArr new) \<and>
    prefix old new"
  using assms add_scopes_prefix by (auto simp: merge_required_oauth_scopes_def Let_def)

lemma merge_scopes_required:
  assumes "required_oauth_scopes toolkit \<noteq> []"
  shows "\<exists>new. map_of (merge_required_oauth_scopes body toolkit) oauth_scopes_field = Some (JArr new) \<and>
    set (required_oauth_scopes toolkit) \<subseteq> set (filter_map as_str new)"
  using assms add_scopes_has by (auto simp: merge_required_oauth_scopes_def Let_def)

text \<open>The cleanup against its specification: try to delete the stale rows, in order.\<close>

fun delete_all :: "('e, 'x, 'y) route \<Rightarrow> str list \<Rightarrow> 'e world \<Rightarrow> nat \<times> 'e world" where
  "delete_all r [] w = (0, w)"
| "delete_all r (i # ids) w =
     (case r_delete_connection r i w of (answer, w1) \<Rightarrow>
        (case delete_all r ids w1 of (n, w2) \<Rightarrow>
           ((case answer of Inr _ \<Rightarrow> Suc n | Inl _ \<Rightarrow> n), w2)))"

lemma clear_loop_deletes:
  "clear_loop r wanted cs n w =
     (case delete_all r (map conn_id (filter (is_stale wanted) cs)) w of (m, w') \<Rightarrow> (Inr (n + m), w'))"
  by (induction r wanted cs n arbitrary: w rule: clear_loop.induct)
    (auto simp: thenA_def split: prod.splits sum.splits)

lemma is_stale_safe: "is_stale wanted c \<Longrightarrow> \<not> is_active c \<and> normalized_toolkit c = wanted"
  by (simp add: is_stale_def)

lemma clear_never_fails: "\<exists>n w'. clear_stale_handoffs r toolkit w = (Inr n, w')"
  by (auto simp: clear_stale_handoffs_def thenA_def clear_loop_deletes split: prod.splits sum.splits)

section \<open>Properties\<close>

text \<open>
  C29. A caller cannot redirect a handoff: a body that is sent names the trimmed toolkit, holds
  none of the reserved keys beside it, carries every other field of the caller except the scopes
  as the caller gave it, and the scopes only grow: the caller's come first, in order, and every
  scope the toolkit requires is among them.
\<close>

theorem authorize_body_guarded:
  assumes "authorize_body toolkit extra = Inr body"
  shows "map_of body ''toolkit'' = Some (JStr toolkit) \<and>
    list_all (\<lambda>k. map_of body k = None) [''toolkit_version'', ''auth'', ''client_id''] \<and>
    (case extra of
       Some (JObj m) \<Rightarrow>
         (\<forall>k. k \<noteq> ''toolkit'' \<longrightarrow> k \<noteq> oauth_scopes_field \<longrightarrow> map_of body k = map_of (rev m) k) \<and>
         (\<forall>old. map_of (rev m) oauth_scopes_field = Some (JArr old) \<longrightarrow>
            (\<exists>new. map_of body oauth_scopes_field = Some (JArr new) \<and> prefix old new))
     | _ \<Rightarrow> True) \<and>
    (required_oauth_scopes toolkit = [] \<or>
      (\<exists>new. map_of body oauth_scopes_field = Some (JArr new) \<and>
        set (required_oauth_scopes toolkit) \<subseteq> set (filter_map as_str new)))"
proof -
  define sent where "sent = (case extra of Some (JObj m) \<Rightarrow> m | _ \<Rightarrow> [])"
  have "extra = None \<or> (\<exists>m. extra = Some (JObj m))"
    using assms by (auto simp: authorize_body_def split: option.splits json.splits)
  then obtain b where b: "merge_extra toolkit sent (obj_of [(''toolkit'', JStr toolkit)]) = Inr b"
    "body = merge_required_oauth_scopes b toolkit"
    using assms by (auto simp: authorize_body_def sent_def)
  have free: "map_of (rev sent) k = None" if "List.member reserved_authorize_keys k" for k
    using merge_extra_Inr(1) [OF b(1)] that by (fastforce simp: map_of_eq_None_iff list_all_iff)
  have m: "map_of b = [''toolkit'' \<mapsto> JStr toolkit] ++ map_of (rev sent)"
    using merge_extra_Inr(2) [OF b(1)] by (simp add: obj_of_def)
  have "map_of (rev sent) ''toolkit'' = None" "map_of (rev sent) ''toolkit_version'' = None"
    "map_of (rev sent) ''auth'' = None" "map_of (rev sent) ''client_id'' = None"
    by (rule free, simp add: reserved_authorize_keys_def)+
  then have keys: "map_of body ''toolkit'' = Some (JStr toolkit)"
    "list_all (\<lambda>k. map_of body k = None) [''toolkit_version'', ''auth'', ''client_id'']"
    unfolding b(2) by (simp_all add: merge_scopes_frame oauth_scopes_field_def m map_add_def)
  have others: "map_of body k = map_of (rev sent) k" if "k \<noteq> ''toolkit''" "k \<noteq> oauth_scopes_field" for k
    using that unfolding b(2) by (simp add: merge_scopes_frame m map_add_def split: option.splits)
  have scopes: "\<exists>new. map_of body oauth_scopes_field = Some (JArr new) \<and> prefix old new"
    if "map_of (rev sent) oauth_scopes_field = Some (JArr old)" for old
    unfolding b(2) by (rule merge_scopes_kept) (simp add: m map_add_def that)
  show ?thesis
    using keys others scopes merge_scopes_required [of toolkit b] b(2)
    by (auto simp: sent_def split: option.splits json.splits)
qed

theorem authorize_body_guarded_witness:
  "authorize_body ''gmail'' (Some (JObj [(''oauth_scopes'', JArr [JStr ''a''])])) =
     Inr [(''oauth_scopes'', JArr [JStr ''a'', JStr ''https://www.googleapis.com/auth/gmail.readonly'']),
          (''toolkit'', JStr ''gmail'')] \<and>
   required_oauth_scopes ''gmail'' \<noteq> []"
  (is "?run \<and> _")
proof -
  have a: ?run by code_simp
  have b: "required_oauth_scopes ''gmail'' \<noteq> []" by code_simp
  show ?thesis using authorize_body_guarded [OF a] a b by blast
qed

text \<open>
  Clearing stale handoffs deletes exactly the rows it may: it never fails the authorize, does
  nothing for a toolkit that is not Meta's, and otherwise tries to delete, in listing order, the
  rows of this toolkit that are clearable, none of which is active, and reports how many went.
\<close>

theorem clear_stale_exact:
  "clear_stale_handoffs r toolkit w =
     (if \<not> is_meta_oauth_toolkit toolkit then (Inr 0, w)
      else case r_list_connections r w of
        (Inl e, w1) \<Rightarrow> (Inr 0, w1)
      | (Inr cs, w1) \<Rightarrow>
          (case delete_all r (map conn_id (filter (is_stale (to_lower (trim toolkit))) cs)) w1 of
             (n, w2) \<Rightarrow> (Inr n, w2))) \<and>
   (if is_stale wanted c then \<not> is_active c \<and> normalized_toolkit c = wanted else True)"
  using is_stale_safe [of wanted c]
  by (auto simp: clear_stale_handoffs_def thenA_def clear_loop_deletes split: prod.splits sum.splits)

text \<open>
  No blank identifier reaches a route: deleting a connection and creating, enabling or
  disabling a trigger with a blank required argument fails with an argument error and leaves the
  world as it was; a blank optional argument is passed on as absent, and others trimmed.
\<close>

theorem blank_ids_refused:
  "(if trim i = []
    then client_delete_connection r i w = (Inl (Authorize [] ''connection_id must not be empty''), w) \<and>
         client_disable_trigger r i w =
           (Inl (InvalidArguments ''DisableTrigger'' ''`trigger_id` must not be empty''), w) \<and>
         client_create_trigger r i c config w =
           (Inl (InvalidArguments ''CreateTrigger'' ''`slug` must not be empty''), w) \<and>
         client_enable_trigger r i slug config w =
           (Inl (InvalidArguments ''EnableTrigger'' ''`connection_id` must not be empty''), w)
    else client_delete_connection r i w = r_delete_connection r (trim i) w \<and>
         client_disable_trigger r i w = r_disable_trigger r (trim i) w \<and>
         client_create_trigger r i c config w =
           r_create_trigger r (trim i) (if trim (unwrap_or [] c) = [] then None else map_option trim c) config w)"
  by (cases c)
    (simp_all add: client_delete_connection_def client_disable_trigger_def client_create_trigger_def
      client_enable_trigger_def require_def non_empty_def opt_filter_def Let_def)

end
