(* ===== verification/Schema_Walk.thy ===== *)
theory Schema_Walk
  imports Json
begin

text \<open>
  Where a tool's list lives and which fields it declares:
  \<open>crates/tinyconnectors/src/contracts/schema_walk.rs\<close>. The two walks share their queue loop;
  \<open>children\<close> is what a node contributes to the queue and \<open>hit\<close> the array found at its level.
\<close>

section \<open>The queue loop\<close>

type_synonym entry = "str \<times> json"

definition dotted :: "str \<Rightarrow> str \<Rightarrow> str" where
  "dotted path key = (if path = [] then key else path @ ''.'' @ key)"

fun jweight :: "json \<Rightarrow> nat" where
  "jweight (JArr xs) = Suc (sum_list (map jweight xs))"
| "jweight (JObj m) = Suc (sum_list (map (\<lambda>kv. jweight (snd kv)) m))"
| "jweight _ = 1"

lemma jweight_pos: "0 < jweight v"
  by (cases v) auto

text \<open>The properties of a schema node, and whether one of them is declared an array.\<close>

definition schema_props :: "json \<Rightarrow> fields option" where
  "schema_props node = Option.bind (jget node ''properties'') as_object"

definition declares_array :: "json \<Rightarrow> bool" where
  "declares_array p =
     (case jget p ''type'' of
        None \<Rightarrow> False
      | Some kind \<Rightarrow> as_str kind = Some ''array'' \<or>
          (case as_array kind of
             None \<Rightarrow> False
           | Some types \<Rightarrow> list_ex (\<lambda>v. as_str v = Some ''array'') types))"

definition schema_hit :: "entry \<Rightarrow> str option" where
  "schema_hit e =
     (case schema_props (snd e) of
        None \<Rightarrow> None
      | Some props \<Rightarrow>
          first_some (\<lambda>(k, p). if declares_array p then Some (dotted (fst e) k) else None) props)"

definition schema_children :: "entry \<Rightarrow> entry list" where
  "schema_children e =
     (case schema_props (snd e) of
        None \<Rightarrow> []
      | Some props \<Rightarrow> map (\<lambda>(k, p). (dotted (fst e) k, p)) props)"

lemma weight_field: "(k, v) \<in> set m \<Longrightarrow> jweight v < jweight (JObj m)"
  using member_le_sum_list [of "jweight v" "map (\<lambda>kv. jweight (snd kv)) m"] by force

lemma weight_children: "sum_list (map (\<lambda>e. jweight (snd e)) (schema_children e)) < jweight (snd e)"
proof (cases "schema_props (snd e)")
  case None
  then show ?thesis by (simp add: schema_children_def jweight_pos)
next
  case (Some props)
  then obtain m where m: "snd e = JObj m" "map_of m ''properties'' = Some (JObj props)"
    by (cases "snd e") (auto simp: schema_props_def bind_eq_Some_conv elim!: as_object.elims)
  have "jweight (JObj props) < jweight (snd e)"
    using m weight_field map_of_SomeD by metis
  then show ?thesis using Some by (simp add: schema_children_def comp_def case_prod_unfold)
qed

function schema_walk :: "entry list \<Rightarrow> str option" where
  "schema_walk [] = None"
| "schema_walk (e # queue) =
     (case schema_hit e of
        Some p \<Rightarrow> Some p
      | None \<Rightarrow> schema_walk (queue @ schema_children e))"
  by pat_completeness auto
termination
  by (relation "measure (\<lambda>q. sum_list (map (\<lambda>e. jweight (snd e)) q))")
    (simp_all add: weight_children)

definition compute_primary_array_path :: "json option \<Rightarrow> str option" where
  "compute_primary_array_path schema =
     (case schema of None \<Rightarrow> None | Some root \<Rightarrow> schema_walk [([], root)])"

section \<open>The walk over a value\<close>

text \<open>The code takes an empty path for the root.\<close>

definition walked_fields :: "str list \<Rightarrow> entry \<Rightarrow> fields" where
  "walked_fields skip e =
     (case as_object (snd e) of
        None \<Rightarrow> []
      | Some m \<Rightarrow> filter (\<lambda>kv. \<not> (fst e = [] \<and> List.member skip (fst kv))) m)"

definition value_hit :: "str list \<Rightarrow> entry \<Rightarrow> str option" where
  "value_hit skip e =
     first_some (\<lambda>(k, v). if as_array v \<noteq> None then Some (dotted (fst e) k) else None) (walked_fields skip e)"

definition value_children :: "str list \<Rightarrow> entry \<Rightarrow> entry list" where
  "value_children skip e = map (\<lambda>(k, v). (dotted (fst e) k, v)) (walked_fields skip e)"

lemma weight_filter: "sum_list (map f (filter P xs)) \<le> sum_list (map (f :: 'a \<Rightarrow> nat) xs)"
  by (induction xs) auto

lemma weight_value_children:
  "sum_list (map (\<lambda>e. jweight (snd e)) (value_children skip e)) < jweight (snd e)"
  by (cases "snd e")
    (auto simp: value_children_def walked_fields_def comp_def case_prod_unfold less_Suc_eq_le
      intro: weight_filter)

function value_walk :: "str list \<Rightarrow> entry list \<Rightarrow> str option" where
  "value_walk skip [] = None"
| "value_walk skip (e # queue) =
     (case value_hit skip e of
        Some p \<Rightarrow> Some p
      | None \<Rightarrow> value_walk skip (queue @ value_children skip e))"
  by pat_completeness auto
termination
  by (relation "measure (\<lambda>(skip, q). sum_list (map (\<lambda>e. jweight (snd e)) q))")
    (simp_all add: weight_value_children)

definition compute_primary_array_path_from_value :: "json \<Rightarrow> str list \<Rightarrow> str option" where
  "compute_primary_array_path_from_value v skip = value_walk skip [([], v)]"

section \<open>Declared fields\<close>

definition schema_keywords :: "str list" where
  "schema_keywords =
     [''type'', ''required'', ''additionalProperties'', ''$schema'', ''description'',
      ''title'', ''examples'', ''$id'', ''$anchor'', ''$ref'', ''$defs'', ''definitions'',
      ''properties'', ''patternProperties'', ''propertyNames'', ''minProperties'',
      ''maxProperties'', ''dependencies'', ''dependentRequired'', ''dependentSchemas'',
      ''unevaluatedProperties'', ''contentEncoding'', ''contentMediaType'',
      ''contentSchema'', ''default'', ''deprecated'', ''readOnly'', ''writeOnly'',
      ''const'', ''enum'', ''format'', ''$comment'', ''$vocabulary'', ''$dynamicRef'',
      ''$dynamicAnchor'', ''allOf'', ''anyOf'', ''oneOf'', ''not'', ''if'', ''then'',
      ''else'', ''minimum'', ''maximum'', ''exclusiveMinimum'', ''exclusiveMaximum'',
      ''multipleOf'', ''minLength'', ''maxLength'', ''pattern'', ''minItems'',
      ''maxItems'', ''uniqueItems'', ''contains'', ''minContains'', ''maxContains'',
      ''items'', ''prefixItems'', ''unevaluatedItems'']"

definition response_fields_from_schema :: "json option \<Rightarrow> str list" where
  "response_fields_from_schema schema =
     (case Option.bind schema as_object of
        None \<Rightarrow> []
      | Some m \<Rightarrow>
          sort (case Option.bind (map_of m ''properties'') as_object of
              Some props \<Rightarrow> map fst props
            | None \<Rightarrow> filter (\<lambda>k. \<not> List.member schema_keywords k) (map fst m)))"

section \<open>What a walk finds\<close>

fun descend :: "(json \<Rightarrow> fields) \<Rightarrow> json \<Rightarrow> str list \<Rightarrow> json option" where
  "descend kids v [] = Some v"
| "descend kids v (k # ks) = Option.bind (map_of (kids v) k) (\<lambda>w. descend kids w ks)"

text \<open>A key path from the root to an array, not starting with a skipped key.\<close>

definition array_path :: "(json \<Rightarrow> fields) \<Rightarrow> (json \<Rightarrow> bool) \<Rightarrow> str list \<Rightarrow> json \<Rightarrow> str list \<Rightarrow> bool" where
  "array_path kids arr skip v ks \<longleftrightarrow>
     ks \<noteq> [] \<and> \<not> List.member skip (hd ks) \<and>
     (case descend kids v ks of None \<Rightarrow> False | Some w \<Rightarrow> arr w)"

definition open_kids :: "(json \<Rightarrow> fields) \<Rightarrow> str list \<Rightarrow> entry \<Rightarrow> fields" where
  "open_kids kids skip e = filter (\<lambda>kv. \<not> (fst e = [] \<and> List.member skip (fst kv))) (kids (snd e))"

definition kid_entries :: "(json \<Rightarrow> fields) \<Rightarrow> str list \<Rightarrow> entry \<Rightarrow> entry list" where
  "kid_entries kids skip e = map (\<lambda>(k, v). (dotted (fst e) k, v)) (open_kids kids skip e)"

definition kid_hit :: "(json \<Rightarrow> fields) \<Rightarrow> (json \<Rightarrow> bool) \<Rightarrow> str list \<Rightarrow> entry \<Rightarrow> str option" where
  "kid_hit kids arr skip e =
     first_some (\<lambda>(k, v). if arr v then Some (dotted (fst e) k) else None) (open_kids kids skip e)"

fun level :: "(json \<Rightarrow> fields) \<Rightarrow> str list \<Rightarrow> nat \<Rightarrow> entry list \<Rightarrow> entry list" where
  "level kids skip 0 q = q"
| "level kids skip (Suc n) q = level kids skip n (concat (map (kid_entries kids skip) q))"

lemma join_snoc: "ks \<noteq> [] \<Longrightarrow> join sep (ks @ [k]) = join sep ks @ sep @ k"
  by (induction sep ks rule: join.induct) auto

lemma dotted_join: "(ks \<noteq> [] \<Longrightarrow> join ''.'' ks \<noteq> []) \<Longrightarrow> dotted (join ''.'' ks) k = join ''.'' (ks @ [k])"
  by (cases "ks = []") (simp_all add: dotted_def join_snoc)

lemma join_nonempty: "ks \<noteq> [] \<Longrightarrow> [] \<notin> set ks \<Longrightarrow> join ''.'' ks \<noteq> []"
  by (induction "''.''" ks rule: join.induct) auto

lemma descend_snoc: "descend kids v (ks @ [k]) = Option.bind (descend kids v ks) (\<lambda>w. map_of (kids w) k)"
  by (induction ks arbitrary: v) (auto split: bind_splits)

text \<open>
  The two walks are the same search over different children. \<open>good\<close> is the shape the search needs
  of a node: distinct, non-empty keys, passed on to the children.
\<close>

locale level_search =
  fixes kids :: "json \<Rightarrow> fields" and arr :: "json \<Rightarrow> bool" and skip :: "str list"
    and walk :: "entry list \<Rightarrow> str option" and good :: "json \<Rightarrow> bool"
  assumes walk_Nil: "walk [] = None"
    and walk_Cons: "walk (e # q) =
      (case kid_hit kids arr skip e of Some p \<Rightarrow> Some p | None \<Rightarrow> walk (q @ kid_entries kids skip e))"
    and lighter: "sum_list (map (\<lambda>kv. jweight (snd kv)) (kids v)) < jweight v"
    and good_keys: "good v \<Longrightarrow> distinct (map fst (kids v))"
    and good_named: "good v \<Longrightarrow> (k, w) \<in> set (kids v) \<Longrightarrow> k \<noteq> [] \<and> good w"
begin

lemma walk_append:
  "walk (xs @ ys) = (case first_some (kid_hit kids arr skip) xs of
     Some p \<Rightarrow> Some p | None \<Rightarrow> walk (ys @ concat (map (kid_entries kids skip) xs)))"
  by (induction xs arbitrary: ys) (auto simp: walk_Cons split: option.splits)

lemma walk_level:
  "walk q = (case first_some (kid_hit kids arr skip) q of
     Some p \<Rightarrow> Some p | None \<Rightarrow> walk (concat (map (kid_entries kids skip) q)))"
  using walk_append [of q "[]"]
  by (cases "first_some (kid_hit kids arr skip) q") simp_all

lemma kid_weight: "sum_list (map (\<lambda>e. jweight (snd e)) (kid_entries kids skip e)) < jweight (snd e)"
proof -
  have "sum_list (map (\<lambda>kv. jweight (snd kv)) (open_kids kids skip e)) \<le>
      sum_list (map (\<lambda>kv. jweight (snd kv)) (kids (snd e)))"
    unfolding open_kids_def by (rule weight_filter)
  then show ?thesis
    using lighter [of "snd e"] by (simp add: kid_entries_def comp_def case_prod_unfold)
qed

lemma level_weight:
  "q \<noteq> [] \<Longrightarrow> sum_list (map (\<lambda>e. jweight (snd e)) (concat (map (kid_entries kids skip) q))) <
     sum_list (map (\<lambda>e. jweight (snd e)) q)"
proof (induction q)
  case (Cons e q)
  then show ?case using kid_weight [of e] by (cases "q = []") (auto simp: add_strict_mono)
qed simp

lemma level_Nil: "level kids skip n [] = []"
  by (induction n) auto

lemma walk_levels:
  "case walk q of
     Some p \<Rightarrow> \<exists>n. first_some (kid_hit kids arr skip) (level kids skip n q) = Some p \<and>
       (\<forall>m < n. first_some (kid_hit kids arr skip) (level kids skip m q) = None)
   | None \<Rightarrow> \<forall>n. first_some (kid_hit kids arr skip) (level kids skip n q) = None"
proof (induction "sum_list (map (\<lambda>e. jweight (snd e)) q)" arbitrary: q rule: less_induct)
  case less
  let ?hit = "first_some (kid_hit kids arr skip)"
  let ?next = "concat (map (kid_entries kids skip) q)"
  show ?case
  proof (cases "?hit q")
    case (Some p)
    then have "walk q = Some p" by (subst walk_level) simp
    with Some show ?thesis by (auto intro: exI [of _ 0])
  next
    case None
    then have w: "walk q = walk ?next" by (subst walk_level) simp
    show ?thesis
    proof (cases "q = []")
      case True
      then show ?thesis by (simp add: walk_Nil level_Nil)
    next
      case False
      have IH: "case walk ?next of
          Some p \<Rightarrow> \<exists>n. ?hit (level kids skip n ?next) = Some p \<and>
            (\<forall>m < n. ?hit (level kids skip m ?next) = None)
        | None \<Rightarrow> \<forall>n. ?hit (level kids skip n ?next) = None"
        using less level_weight [OF False] by blast
      show ?thesis
      proof (cases "walk ?next")
        case wn: None
        have "?hit (level kids skip n q) = None" for n
          using IH wn None by (cases n) auto
        then show ?thesis using w wn by simp
      next
        case wn: (Some p)
        then obtain n where n: "?hit (level kids skip n ?next) = Some p"
            "\<forall>m < n. ?hit (level kids skip m ?next) = None"
          using IH by auto
        have "\<forall>m < Suc n. ?hit (level kids skip m q) = None"
        proof (intro allI impI)
          fix m assume "m < Suc n"
          then show "?hit (level kids skip m q) = None" using n(2) None by (cases m) auto
        qed
        moreover have "?hit (level kids skip (Suc n) q) = Some p" using n(1) by simp
        ultimately show ?thesis unfolding w wn option.case by blast
      qed
    qed
  qed
qed

lemma level_snoc:
  "level kids skip (Suc n) q = concat (map (kid_entries kids skip) (level kids skip n q))"
  by (induction n arbitrary: q) (simp_all only: level.simps)

lemma descend_good:
  "good v \<Longrightarrow> descend kids v ks = Some w \<Longrightarrow> good w \<and> [] \<notin> set ks"
proof (induction ks arbitrary: v)
  case (Cons k ks)
  then obtain x where x: "map_of (kids v) k = Some x" "descend kids x ks = Some w"
    by (auto split: bind_splits)
  with Cons.prems good_named map_of_SomeD have "k \<noteq> []" "good x" by metis+
  with Cons.IH x show ?case by auto
qed simp

lemma mem_open_kids:
  assumes "good v"
  shows "(k, w) \<in> set (open_kids kids skip (path, v)) \<longleftrightarrow>
    map_of (kids v) k = Some w \<and> \<not> (path = [] \<and> List.member skip k)"
  using map_of_eq_Some_iff [OF good_keys [OF assms], of k w] by (auto simp: open_kids_def)

definition at_path :: "json \<Rightarrow> nat \<Rightarrow> entry \<Rightarrow> bool" where
  "at_path v n e \<longleftrightarrow> (\<exists>ks. length ks = n \<and> fst e = join ''.'' ks \<and> descend kids v ks = Some (snd e) \<and>
     (ks \<noteq> [] \<longrightarrow> \<not> List.member skip (hd ks)))"

lemma open_key:
  assumes "good v" "descend kids v ks = Some x" "ks \<noteq> [] \<longrightarrow> \<not> List.member skip (hd ks)"
  shows "(k, w) \<in> set (open_kids kids skip (join ''.'' ks, x)) \<longleftrightarrow>
    descend kids v (ks @ [k]) = Some w \<and> \<not> List.member skip (hd (ks @ [k]))"
proof -
  have g: "good x" and n: "ks \<noteq> [] \<Longrightarrow> join ''.'' ks \<noteq> []"
    using descend_good [OF assms(1,2)] join_nonempty by auto
  show ?thesis
    using n assms(2,3) by (cases "ks = []") (auto simp: mem_open_kids [OF g] descend_snoc)
qed

lemma level_at_path:
  assumes "good v"
  shows "e \<in> set (level kids skip n [([], v)]) \<longleftrightarrow> at_path v n e"
proof (induction n arbitrary: e)
  case 0
  then show ?case by (cases e) (auto simp: at_path_def)
next
  case (Suc n)
  have "e \<in> set (level kids skip (Suc n) [([], v)]) \<longleftrightarrow>
      (\<exists>d. at_path v n d \<and> e \<in> set (kid_entries kids skip d))"
    unfolding level_snoc using Suc by auto
  also have "\<dots> \<longleftrightarrow> at_path v (Suc n) e"
  proof
    assume "\<exists>d. at_path v n d \<and> e \<in> set (kid_entries kids skip d)"
    then obtain d where d: "at_path v n d" "e \<in> set (kid_entries kids skip d)" by blast
    from d(1) obtain ks x where ks: "length ks = n" "descend kids v ks = Some x"
        "ks \<noteq> [] \<longrightarrow> \<not> List.member skip (hd ks)" and dx: "d = (join ''.'' ks, x)"
      by (cases d) (auto simp: at_path_def)
    from d(2) obtain k where k: "(k, snd e) \<in> set (open_kids kids skip (join ''.'' ks, x))"
        "fst e = dotted (join ''.'' ks) k"
      unfolding dx kid_entries_def by force
    have "fst e = join ''.'' (ks @ [k])"
      using k(2) descend_good [OF assms ks(2)] by (simp add: dotted_join join_nonempty)
    then show "at_path v (Suc n) e"
      unfolding at_path_def using ks(1) k(1) open_key [OF assms ks(2,3)]
      by (intro exI [of _ "ks @ [k]"]) simp
  next
    assume "at_path v (Suc n) e"
    then obtain js where js: "length js = Suc n" "fst e = join ''.'' js" "descend kids v js = Some (snd e)"
        "\<not> List.member skip (hd js)"
      by (auto simp: at_path_def)
    then obtain ks k where j: "js = ks @ [k]" by (cases js rule: rev_cases) auto
    with js(3) obtain x where x: "descend kids v ks = Some x" by (auto simp: descend_snoc split: bind_splits)
    have h: "ks \<noteq> [] \<longrightarrow> \<not> List.member skip (hd ks)" using js(4) j by auto
    have "(k, snd e) \<in> set (open_kids kids skip (join ''.'' ks, x))"
      using open_key [OF assms x h] js j by simp
    moreover have "fst e = dotted (join ''.'' ks) k"
      using js(2) j descend_good [OF assms x] by (simp add: dotted_join join_nonempty)
    ultimately have "e \<in> set (kid_entries kids skip (join ''.'' ks, x))"
      by (cases e) (force simp: kid_entries_def)
    moreover have "at_path v n (join ''.'' ks, x)" unfolding at_path_def using js(1) j x h by auto
    ultimately show "\<exists>d. at_path v n d \<and> e \<in> set (kid_entries kids skip d)" by blast
  qed
  finally show ?case .
qed

lemma hit_path:
  assumes "good v" "at_path v n e" "kid_hit kids arr skip e = Some p"
  shows "\<exists>ks. array_path kids arr skip v ks \<and> length ks = Suc n \<and> p = join ''.'' ks"
proof -
  from assms(2) obtain ks where ks: "length ks = n" "fst e = join ''.'' ks"
      "descend kids v ks = Some (snd e)" "ks \<noteq> [] \<longrightarrow> \<not> List.member skip (hd ks)"
    by (auto simp: at_path_def)
  from assms(3) obtain k w where k: "(k, w) \<in> set (open_kids kids skip e)" "arr w"
      "p = dotted (fst e) k"
    unfolding kid_hit_def by (auto dest!: first_some_SomeD split: if_splits)
  have "descend kids v (ks @ [k]) = Some w \<and> \<not> List.member skip (hd (ks @ [k]))"
    using k(1) open_key [OF assms(1) ks(3,4)] ks(2) by (cases e) simp
  moreover have "p = join ''.'' (ks @ [k])"
    using k(3) ks(2) descend_good [OF assms(1) ks(3)] by (simp add: dotted_join join_nonempty)
  ultimately show ?thesis
    using k(2) ks(1) by (intro exI [of _ "ks @ [k]"]) (simp add: array_path_def)
qed

lemma path_hit:
  assumes "good v" "array_path kids arr skip v js"
  shows "\<exists>e. at_path v (length js - 1) e \<and> kid_hit kids arr skip e \<noteq> None"
proof -
  obtain ks k where j: "js = ks @ [k]"
    using assms(2) unfolding array_path_def by (metis rev_exhaust)
  obtain w where w: "descend kids v js = Some w" "arr w" "\<not> List.member skip (hd js)"
    using assms(2) unfolding array_path_def by (auto split: option.splits)
  with j obtain x where x: "descend kids v ks = Some x" by (auto simp: descend_snoc split: bind_splits)
  have h: "ks \<noteq> [] \<longrightarrow> \<not> List.member skip (hd ks)" using w(3) j by auto
  have "(k, w) \<in> set (open_kids kids skip (join ''.'' ks, x))"
    using open_key [OF assms(1) x h] w j by simp
  then have "kid_hit kids arr skip (join ''.'' ks, x) \<noteq> None"
    using w(2) unfolding kid_hit_def first_some_None by - (rule notI, drule (1) bspec, simp)
  moreover have "at_path v (length js - 1) (join ''.'' ks, x)"
    unfolding at_path_def using j x h by auto
  ultimately show ?thesis by blast
qed

lemma search_exact:
  assumes "good v"
  shows "case walk [([], v)] of
      Some p \<Rightarrow> \<exists>ks. array_path kids arr skip v ks \<and> p = join ''.'' ks \<and>
        (\<forall>js. array_path kids arr skip v js \<longrightarrow> length ks \<le> length js)
    | None \<Rightarrow> \<forall>js. \<not> array_path kids arr skip v js"
proof -
  let ?hit = "first_some (kid_hit kids arr skip)"
  let ?level = "\<lambda>n. level kids skip n [([], v)]"
  have none: "?hit (?level (length js - 1)) \<noteq> None" if "array_path kids arr skip v js" for js
    using path_hit [OF assms that] level_at_path [OF assms] by (auto simp: first_some_None)
  show ?thesis
  proof (cases "walk [([], v)]")
    case None
    with walk_levels [of "[([], v)]"] have "?hit (?level n) = None" for n by simp
    with none have "\<not> array_path kids arr skip v js" for js by blast
    then show ?thesis unfolding None option.case by blast
  next
    case (Some p)
    then obtain n where n: "?hit (?level n) = Some p" "\<forall>m < n. ?hit (?level m) = None"
      using walk_levels [of "[([], v)]"] by auto
    from first_some_SomeD [OF n(1)] obtain e where
      "e \<in> set (?level n)" and hit: "kid_hit kids arr skip e = Some p" ..
    then have "at_path v n e" by (simp only: level_at_path [OF assms])
    from hit_path [OF assms this hit] obtain ks where
      ks: "array_path kids arr skip v ks" "length ks = Suc n" "p = join ''.'' ks" by blast
    have "length ks \<le> length js" if "array_path kids arr skip v js" for js
    proof -
      have "\<not> length js - 1 < n" using none [OF that] n(2) by auto
      moreover have "js \<noteq> []" using that by (simp add: array_path_def)
      ultimately show ?thesis using ks(2) by (cases js) simp_all
    qed
    then show ?thesis using Some ks by auto
  qed
qed

end

section \<open>The two walks\<close>

definition schema_kids :: "json \<Rightarrow> fields" where
  "schema_kids v = unwrap_or [] (schema_props v)"

definition value_kids :: "json \<Rightarrow> fields" where
  "value_kids v = unwrap_or [] (as_object v)"

definition is_array :: "json \<Rightarrow> bool" where
  "is_array v \<longleftrightarrow> as_array v \<noteq> None"

text \<open>Keys are distinct and none is empty, at every depth of objects.\<close>

fun well_keyed :: "json \<Rightarrow> bool" where
  "well_keyed (JObj m) = (distinct (map fst m) \<and> (\<forall>kv \<in> set m. fst kv \<noteq> [] \<and> well_keyed (snd kv)))"
| "well_keyed _ = True"

lemma well_keyed_field: "well_keyed (JObj m) \<Longrightarrow> map_of m k = Some v \<Longrightarrow> k \<noteq> [] \<and> well_keyed v"
  by (auto dest!: map_of_SomeD)

lemma schema_props_keyed:
  assumes "well_keyed v" "schema_props v = Some m"
  shows "well_keyed (JObj m)"
proof -
  from assms(2) obtain n where "v = JObj n" "map_of n ''properties'' = Some (JObj m)"
    by (cases v) (auto simp: schema_props_def bind_eq_Some_conv elim!: as_object.elims)
  then show ?thesis using well_keyed_field assms(1) by blast
qed

lemma keyed_lists:
  assumes "well_keyed (JObj m)"
  shows "distinct (map fst m)" and "(k, w) \<in> set m \<Longrightarrow> k \<noteq> [] \<and> well_keyed w"
  using assms by auto

lemma kids_keyed:
  "well_keyed v \<Longrightarrow> well_keyed (JObj (schema_kids v))" "well_keyed v \<Longrightarrow> well_keyed (JObj (value_kids v))"
  by (cases "schema_props v"; simp add: schema_kids_def schema_props_keyed del: well_keyed.simps(1); simp)
    (cases v; simp add: value_kids_def)

lemma schema_kids_lighter: "sum_list (map (\<lambda>kv. jweight (snd kv)) (schema_kids v)) < jweight v"
  using weight_children [of "([], v)"]
  by (cases "schema_props v")
    (simp_all add: schema_kids_def schema_children_def comp_def case_prod_unfold jweight_pos)

lemma value_kids_lighter: "sum_list (map (\<lambda>kv. jweight (snd kv)) (value_kids v)) < jweight v"
  by (cases v) (simp_all add: value_kids_def)

lemma schema_hit_kids: "schema_hit e = kid_hit schema_kids declares_array [] e"
  by (cases "schema_props (snd e)") (simp_all add: schema_hit_def kid_hit_def open_kids_def schema_kids_def)

lemma schema_children_kids: "schema_children e = kid_entries schema_kids [] e"
  by (cases "schema_props (snd e)")
    (simp_all add: schema_children_def kid_entries_def open_kids_def schema_kids_def)

lemma walked_open: "walked_fields skip e = open_kids value_kids skip e"
  by (cases "as_object (snd e)") (simp_all add: walked_fields_def open_kids_def value_kids_def)

lemma value_hit_kids: "value_hit skip e = kid_hit value_kids is_array skip e"
  unfolding value_hit_def kid_hit_def walked_open is_array_def ..

lemma value_children_kids: "value_children skip e = kid_entries value_kids skip e"
  unfolding value_children_def kid_entries_def walked_open ..

interpretation schema_search: level_search schema_kids declares_array "[]" schema_walk well_keyed
proof unfold_locales
  fix v k w assume "well_keyed v"
  note keyed = keyed_lists [OF kids_keyed(1) [OF this]]
  show "distinct (map fst (schema_kids v))" by (rule keyed(1))
  assume "(k, w) \<in> set (schema_kids v)"
  then show "k \<noteq> [] \<and> well_keyed w" by (rule keyed(2))
qed (simp_all add: schema_hit_kids schema_children_kids schema_kids_lighter cong: option.case_cong)

interpretation value_search: level_search value_kids is_array skip "value_walk skip" well_keyed
  for skip
proof unfold_locales
  fix v k w assume "well_keyed v"
  note keyed = keyed_lists [OF kids_keyed(2) [OF this]]
  show "distinct (map fst (value_kids v))" by (rule keyed(1))
  assume "(k, w) \<in> set (value_kids v)"
  then show "k \<noteq> [] \<and> well_keyed w" by (rule keyed(2))
qed (simp_all add: value_hit_kids value_children_kids value_kids_lighter cong: option.case_cong)

section \<open>Properties\<close>

text \<open>
  C39. The primary array of a real result is a shallowest one: the path that is returned leads
  from the root, not through a skipped envelope key, to an array of the value, no such path is
  shorter, and no path is returned only when there is no array to find.
\<close>

theorem value_path_shallowest:
  assumes "well_keyed v"
  shows "case compute_primary_array_path_from_value v skip of
      Some p \<Rightarrow> \<exists>ks. array_path value_kids is_array skip v ks \<and> p = join ''.'' ks \<and>
        (\<forall>js. array_path value_kids is_array skip v js \<longrightarrow> length ks \<le> length js)
    | None \<Rightarrow> \<forall>js. \<not> array_path value_kids is_array skip v js"
  unfolding compute_primary_array_path_from_value_def by (rule value_search.search_exact [OF assms])

theorem value_path_shallowest_witness:
  "let v = JObj [(''data'', JObj [(''issues'', JArr []), (''meta'', JNull)]), (''error'', JArr [])];
       skip = [''successful'', ''error'', ''costUsd'', ''markdownFormatted''] in
   compute_primary_array_path_from_value v skip = Some ''data.issues'' \<and>
   (\<exists>ks. array_path value_kids is_array skip v ks \<and> ''data.issues'' = join ''.'' ks \<and>
     (\<forall>js. array_path value_kids is_array skip v js \<longrightarrow> length ks \<le> length js))"
proof -
  let ?v = "JObj [(''data'', JObj [(''issues'', JArr []), (''meta'', JNull)]), (''error'', JArr [])]"
  let ?skip = "[''successful'', ''error'', ''costUsd'', ''markdownFormatted'']"
  have "well_keyed ?v" by simp
  from value_path_shallowest [OF this, of ?skip]
  have all: "case compute_primary_array_path_from_value ?v ?skip of
      Some p \<Rightarrow> \<exists>ks. array_path value_kids is_array ?skip ?v ks \<and> p = join ''.'' ks \<and>
        (\<forall>js. array_path value_kids is_array ?skip ?v js \<longrightarrow> length ks \<le> length js)
    | None \<Rightarrow> \<forall>js. \<not> array_path value_kids is_array ?skip ?v js" .
  have "compute_primary_array_path_from_value ?v ?skip = Some ''data.issues''" by code_simp
  with all show ?thesis by (simp only: Let_def option.case simp_thms)
qed

text \<open>
  The same for a published schema, descending through \<open>properties\<close>: the path of the
  shallowest property declared as an array, absent only when none is declared.
\<close>

theorem schema_path_shallowest:
  assumes "well_keyed root"
  shows "case compute_primary_array_path (Some root) of
      Some p \<Rightarrow> \<exists>ks. array_path schema_kids declares_array [] root ks \<and> p = join ''.'' ks \<and>
        (\<forall>js. array_path schema_kids declares_array [] root js \<longrightarrow> length ks \<le> length js)
    | None \<Rightarrow> \<forall>js. \<not> array_path schema_kids declares_array [] root js"
  unfolding compute_primary_array_path_def option.case by (rule schema_search.search_exact [OF assms])

theorem schema_path_shallowest_witness:
  "let root = JObj [(''properties'', JObj [(''data'', JObj [(''properties'', JObj
       [(''rows'', JObj [(''type'', JArr [JStr ''null'', JStr ''array''])])])])])] in
   compute_primary_array_path (Some root) = Some ''data.rows'' \<and>
   (\<exists>ks. array_path schema_kids declares_array [] root ks \<and> ''data.rows'' = join ''.'' ks \<and>
     (\<forall>js. array_path schema_kids declares_array [] root js \<longrightarrow> length ks \<le> length js))"
proof -
  let ?v = "JObj [(''properties'', JObj [(''data'', JObj [(''properties'', JObj
       [(''rows'', JObj [(''type'', JArr [JStr ''null'', JStr ''array''])])])])])]"
  have "well_keyed ?v" by simp
  from schema_path_shallowest [OF this]
  have all: "case compute_primary_array_path (Some ?v) of
      Some p \<Rightarrow> \<exists>ks. array_path schema_kids declares_array [] ?v ks \<and> p = join ''.'' ks \<and>
        (\<forall>js. array_path schema_kids declares_array [] ?v js \<longrightarrow> length ks \<le> length js)
    | None \<Rightarrow> \<forall>js. \<not> array_path schema_kids declares_array [] ?v js" .
  have "compute_primary_array_path (Some ?v) = Some ''data.rows''" by code_simp
  with all show ?thesis by (simp only: Let_def option.case simp_thms)
qed

end
