(* ===== verification/Catalogs.thy ===== *)
theory Catalogs
  imports Slugs
begin

text \<open>
  The curated catalogs and the lookup over them:
  \<open>crates/tinyconnectors-sync/src/toolkits/catalog\<close>, one definition per table with its entries
  in declaration order, the canonical toolkit list and \<open>catalog_for_toolkit\<close> with its aliases;
  and the registry of native providers of \<open>toolkits/mod.rs\<close> and \<open>provider/registry.rs\<close> as far
  as their catalogs go.
\<close>

section \<open>The tables\<close>

definition shopify_curated :: catalog where
  "shopify_curated =
    [(''SHOPIFY_BULK_QUERY_OPERATION'', Read),
     (''SHOPIFY_COUNT_PRODUCTS'', Read),
     (''SHOPIFY_COUNT_ORDERS'', Read),
     (''SHOPIFY_COUNT_FULFILLMENTS'', Read),
     (''SHOPIFY_COUNT_CUSTOMERS'', Read),
     (''SHOPIFY_CREATE_ORDER'', Write),
     (''SHOPIFY_CREATE_PRODUCT'', Write),
     (''SHOPIFY_CREATE_DRAFT_ORDER'', Write),
     (''SHOPIFY_CREATE_FULFILLMENT'', Write),
     (''SHOPIFY_CREATE_CUSTOMER'', Write),
     (''SHOPIFY_CREATE_PRICE_RULE'', Write),
     (''SHOPIFY_ADJUST_INVENTORY_LEVEL'', Write),
     (''SHOPIFY_CREATE_DISCOUNT_CODE'', Write),
     (''SHOPIFY_UPDATE_PRODUCT'', Write),
     (''SHOPIFY_CREATE_CUSTOM_COLLECTION'', Write),
     (''SHOPIFY_CANCEL_ORDER'', Admin),
     (''SHOPIFY_CANCEL_FULFILLMENT'', Admin),
     (''SHOPIFY_DELETE_PRODUCT'', Admin),
     (''SHOPIFY_BULK_DELETE_CUSTOMER_ADDRESSES'', Admin),
     (''SHOPIFY_BULK_DELETE_METAFIELDS'', Admin)]"

definition stripe_curated :: catalog where
  "stripe_curated =
    [(''STRIPE_GET_PAYMENT_INTENT'', Read),
     (''STRIPE_LIST_INVOICES'', Read),
     (''STRIPE_GET_CUSTOMER'', Read),
     (''STRIPE_LIST_CHARGES'', Read),
     (''STRIPE_GET_SUBSCRIPTION'', Read),
     (''STRIPE_CREATE_PAYMENT_INTENT'', Write),
     (''STRIPE_CREATE_INVOICE'', Write),
     (''STRIPE_CREATE_CUSTOMER'', Write),
     (''STRIPE_CREATE_CUSTOMER_SUBSCRIPTION'', Write),
     (''STRIPE_CREATE_CHECKOUT_SESSION'', Write),
     (''STRIPE_CONFIRM_PAYMENT_INTENT'', Write),
     (''STRIPE_CAPTURE_PAYMENT_INTENT'', Write),
     (''STRIPE_ATTACH_PAYMENT_METHOD'', Write),
     (''STRIPE_CANCEL_SUBSCRIPTION'', Admin),
     (''STRIPE_CANCEL_PAYMENT_INTENT'', Admin),
     (''STRIPE_CREATE_CHARGE_REFUND'', Admin),
     (''STRIPE_CLOSE_DISPUTE'', Admin),
     (''STRIPE_CANCEL_SETUP_INTENT'', Admin),
     (''STRIPE_ARCHIVE_BILLING_ALERT'', Admin)]"

definition hubspot_curated :: catalog where
  "hubspot_curated =
    [(''HUBSPOT_GET_CONTACTS'', Read),
     (''HUBSPOT_SEARCH_CONTACTS_BY_CRITERIA'', Read),
     (''HUBSPOT_LIST_CONTACTS_PAGE'', Read),
     (''HUBSPOT_GET_COMPANIES'', Read),
     (''HUBSPOT_GET_DEALS'', Read),
     (''HUBSPOT_GET_CRM_OBJECT_BY_ID'', Read),
     (''HUBSPOT_BATCH_READ_COMPANIES_BY_PROPERTIES'', Read),
     (''HUBSPOT_CREATE_CONTACT'', Write),
     (''HUBSPOT_CREATE_COMPANY'', Write),
     (''HUBSPOT_CREATE_DEAL'', Write),
     (''HUBSPOT_CREATE_CONTACTS'', Write),
     (''HUBSPOT_UPDATE_CONTACT'', Write),
     (''HUBSPOT_UPDATE_COMPANY'', Write),
     (''HUBSPOT_CREATE_OBJECT_ASSOCIATION'', Write),
     (''HUBSPOT_CREATE_A_NEW_MARKETING_EMAIL'', Write),
     (''HUBSPOT_CREATE_BATCH_OF_OBJECTS'', Write),
     (''HUBSPOT_BATCH_UPDATE_QUOTES'', Write),
     (''HUBSPOT_ARCHIVE_CONTACT'', Admin),
     (''HUBSPOT_ARCHIVE_COMPANY'', Admin),
     (''HUBSPOT_ARCHIVE_DEAL'', Admin),
     (''HUBSPOT_ARCHIVE_CONTACTS'', Admin),
     (''HUBSPOT_ARCHIVE_COMPANIES'', Admin),
     (''HUBSPOT_ARCHIVE_DEALS'', Admin),
     (''HUBSPOT_ARCHIVE_CRM_OBJECT_BY_ID'', Admin),
     (''HUBSPOT_ARCHIVE_PROPERTY_BY_OBJECT_TYPE_AND_NAME'', Admin)]"

definition salesforce_curated :: catalog where
  "salesforce_curated =
    [(''SALESFORCE_RUN_SOQL_QUERY'', Read),
     (''SALESFORCE_EXECUTE_SOSL_SEARCH'', Read),
     (''SALESFORCE_GET_ACCOUNT'', Read),
     (''SALESFORCE_GET_CAMPAIGN'', Read),
     (''SALESFORCE_GET_ALL_FIELDS_FOR_OBJECT'', Read),
     (''SALESFORCE_GET_ALL_CUSTOM_OBJECTS'', Read),
     (''SALESFORCE_CREATE_ACCOUNT'', Write),
     (''SALESFORCE_CREATE_CONTACT'', Write),
     (''SALESFORCE_CREATE_LEAD'', Write),
     (''SALESFORCE_CREATE_OPPORTUNITY'', Write),
     (''SALESFORCE_CREATE_CAMPAIGN'', Write),
     (''SALESFORCE_CREATE_TASK'', Write),
     (''SALESFORCE_UPDATE_ACCOUNT'', Write),
     (''SALESFORCE_UPDATE_CONTACT'', Write),
     (''SALESFORCE_UPDATE_OPPORTUNITY'', Write),
     (''SALESFORCE_ADD_OPPORTUNITY_LINE_ITEM'', Write),
     (''SALESFORCE_ADD_CONTACT_TO_CAMPAIGN'', Write),
     (''SALESFORCE_ADD_LEAD_TO_CAMPAIGN'', Write),
     (''SALESFORCE_ASSOCIATE_CONTACT_TO_ACCOUNT'', Write),
     (''SALESFORCE_CLONE_OPPORTUNITY_WITH_PRODUCTS'', Write),
     (''SALESFORCE_DELETE_ACCOUNT'', Admin),
     (''SALESFORCE_DELETE_CONTACT'', Admin),
     (''SALESFORCE_DELETE_LEAD'', Admin),
     (''SALESFORCE_DELETE_OPPORTUNITY'', Admin),
     (''SALESFORCE_DELETE_CAMPAIGN'', Admin),
     (''SALESFORCE_DELETE_SOBJECT'', Admin),
     (''SALESFORCE_DELETE_SOBJECT_COLLECTIONS'', Admin),
     (''SALESFORCE_CREATE_CUSTOM_FIELD'', Admin)]"

definition airtable_curated :: catalog where
  "airtable_curated =
    [(''AIRTABLE_LIST_RECORDS'', Read),
     (''AIRTABLE_GET_RECORD'', Read),
     (''AIRTABLE_GET_BASE_SCHEMA'', Read),
     (''AIRTABLE_LIST_BASES'', Read),
     (''AIRTABLE_LIST_COMMENTS'', Read),
     (''AIRTABLE_CREATE_RECORDS'', Write),
     (''AIRTABLE_UPDATE_RECORD'', Write),
     (''AIRTABLE_UPDATE_MULTIPLE_RECORDS'', Write),
     (''AIRTABLE_CREATE_FIELD'', Write),
     (''AIRTABLE_CREATE_TABLE'', Write),
     (''AIRTABLE_CREATE_COMMENT'', Write),
     (''AIRTABLE_UPLOAD_ATTACHMENT'', Write),
     (''AIRTABLE_UPDATE_FIELD'', Write),
     (''AIRTABLE_UPDATE_TABLE'', Write),
     (''AIRTABLE_DELETE_RECORD'', Admin),
     (''AIRTABLE_DELETE_MULTIPLE_RECORDS'', Admin),
     (''AIRTABLE_DELETE_COMMENT'', Admin),
     (''AIRTABLE_CREATE_BASE'', Admin)]"

definition figma_curated :: catalog where
  "figma_curated =
    [(''FIGMA_GET_FILE_JSON'', Read),
     (''FIGMA_GET_FILE_NODES'', Read),
     (''FIGMA_GET_COMMENTS_IN_A_FILE'', Read),
     (''FIGMA_GET_CURRENT_USER'', Read),
     (''FIGMA_DISCOVER_FIGMA_RESOURCES'', Read),
     (''FIGMA_GET_FILE_COMPONENTS'', Read),
     (''FIGMA_GET_LOCAL_VARIABLES'', Read),
     (''FIGMA_EXTRACT_DESIGN_TOKENS'', Read),
     (''FIGMA_ADD_A_COMMENT_TO_A_FILE'', Write),
     (''FIGMA_CREATE_DEV_RESOURCES'', Write),
     (''FIGMA_CREATE_MODIFY_DELETE_VARIABLES'', Write),
     (''FIGMA_DELETE_A_COMMENT'', Admin),
     (''FIGMA_DELETE_A_WEBHOOK'', Admin),
     (''FIGMA_DELETE_DEV_RESOURCE'', Admin)]"

definition clickup_curated :: catalog where
  "clickup_curated =
    [(''CLICKUP_GET_AUTHORIZED_USER'', Read),
     (''CLICKUP_GET_AUTHORIZED_TEAMS_WORKSPACES'', Read),
     (''CLICKUP_GET_SPACES'', Read),
     (''CLICKUP_GET_FOLDERS'', Read),
     (''CLICKUP_GET_LISTS'', Read),
     (''CLICKUP_GET_FOLDERLESS_LISTS'', Read),
     (''CLICKUP_GET_FILTERED_TEAM_TASKS'', Read),
     (''CLICKUP_GET_TASKS'', Read),
     (''CLICKUP_GET_TASK'', Read),
     (''CLICKUP_GET_TASK_COMMENTS'', Read),
     (''CLICKUP_GET_LIST_COMMENTS'', Read),
     (''CLICKUP_SEARCH_DOCS'', Read),
     (''CLICKUP_GET_DOC_PAGES'', Read),
     (''CLICKUP_GET_VIEW_TASKS'', Read),
     (''CLICKUP_GET_TIME_ENTRIES_WITHIN_A_DATE_RANGE'', Read),
     (''CLICKUP_GET_WORKSPACE_MEMBERS'', Read),
     (''CLICKUP_GET_TASK_MEMBERS'', Read),
     (''CLICKUP_CREATE_TASK'', Write),
     (''CLICKUP_UPDATE_TASK'', Write),
     (''CLICKUP_CREATE_TASK_COMMENT'', Write),
     (''CLICKUP_UPDATE_COMMENT'', Write),
     (''CLICKUP_CREATE_LIST'', Write),
     (''CLICKUP_UPDATE_LIST'', Write),
     (''CLICKUP_DELETE_TASK'', Admin),
     (''CLICKUP_DELETE_COMMENT'', Admin),
     (''CLICKUP_DELETE_LIST'', Admin)]"

definition github_curated :: catalog where
  "github_curated =
    [(''GITHUB_GET_THE_AUTHENTICATED_USER'', Read),
     (''GITHUB_LIST_REPOSITORIES_FOR_THE_AUTHENTICATED_USER'', Read),
     (''GITHUB_GET_A_REPOSITORY'', Read),
     (''GITHUB_LIST_REPOSITORY_COLLABORATORS'', Read),
     (''GITHUB_SEARCH_REPOSITORIES'', Read),
     (''GITHUB_SEARCH_CODE'', Read),
     (''GITHUB_SEARCH_ISSUES_AND_PULL_REQUESTS'', Read),
     (''GITHUB_SEARCH_USERS'', Read),
     (''GITHUB_LIST_REPOSITORY_ISSUES'', Read),
     (''GITHUB_GET_AN_ISSUE'', Read),
     (''GITHUB_LIST_ISSUE_COMMENTS'', Read),
     (''GITHUB_LIST_PULL_REQUESTS'', Read),
     (''GITHUB_GET_A_PULL_REQUEST'', Read),
     (''GITHUB_LIST_BRANCHES'', Read),
     (''GITHUB_GET_A_BRANCH'', Read),
     (''GITHUB_LIST_COMMITS'', Read),
     (''GITHUB_GET_A_COMMIT'', Read),
     (''GITHUB_CREATE_A_REPOSITORY_FOR_THE_AUTHENTICATED_USER'', Write),
     (''GITHUB_CREATE_OR_UPDATE_FILE_CONTENTS'', Write),
     (''GITHUB_CREATE_A_COMMIT'', Write),
     (''GITHUB_CREATE_A_COMMIT_COMMENT'', Write),
     (''GITHUB_CREATE_AN_ISSUE'', Write),
     (''GITHUB_UPDATE_AN_ISSUE'', Write),
     (''GITHUB_CREATE_AN_ISSUE_COMMENT'', Write),
     (''GITHUB_ADD_LABELS_TO_AN_ISSUE'', Write),
     (''GITHUB_ADD_ASSIGNEES_TO_AN_ISSUE'', Write),
     (''GITHUB_CREATE_A_PULL_REQUEST'', Write),
     (''GITHUB_UPDATE_A_PULL_REQUEST'', Write),
     (''GITHUB_MERGE_A_PULL_REQUEST'', Write),
     (''GITHUB_CREATE_A_REVIEW_FOR_A_PULL_REQUEST'', Write),
     (''GITHUB_CREATE_A_REVIEW_COMMENT_FOR_A_PULL_REQUEST'', Write),
     (''GITHUB_CREATE_A_GIST'', Write),
     (''GITHUB_DELETE_A_REPOSITORY'', Admin),
     (''GITHUB_DELETE_A_REFERENCE'', Admin),
     (''GITHUB_DELETE_A_FILE'', Admin),
     (''GITHUB_ADD_A_REPOSITORY_COLLABORATOR'', Admin),
     (''GITHUB_CANCEL_A_WORKFLOW_RUN'', Admin)]"

definition gmail_curated :: catalog where
  "gmail_curated =
    [(''GMAIL_FETCH_EMAILS'', Read),
     (''GMAIL_LIST_MESSAGES'', Read),
     (''GMAIL_FETCH_MESSAGE_BY_MESSAGE_ID'', Read),
     (''GMAIL_FETCH_MESSAGE_BY_THREAD_ID'', Read),
     (''GMAIL_LIST_THREADS'', Read),
     (''GMAIL_GET_ATTACHMENT'', Read),
     (''GMAIL_GET_PROFILE'', Read),
     (''GMAIL_GET_CONTACTS'', Read),
     (''GMAIL_GET_PEOPLE'', Read),
     (''GMAIL_SEARCH_PEOPLE'', Read),
     (''GMAIL_LIST_DRAFTS'', Read),
     (''GMAIL_GET_DRAFT'', Read),
     (''GMAIL_LIST_LABELS'', Read),
     (''GMAIL_GET_LABEL'', Read),
     (''GMAIL_SEND_EMAIL'', Write),
     (''GMAIL_REPLY_TO_THREAD'', Write),
     (''GMAIL_FORWARD_MESSAGE'', Write),
     (''GMAIL_CREATE_EMAIL_DRAFT'', Write),
     (''GMAIL_UPDATE_DRAFT'', Write),
     (''GMAIL_SEND_DRAFT'', Write),
     (''GMAIL_ADD_LABEL_TO_EMAIL'', Write),
     (''GMAIL_DELETE_MESSAGE'', Admin),
     (''GMAIL_BATCH_DELETE_MESSAGES'', Admin),
     (''GMAIL_MOVE_TO_TRASH'', Admin),
     (''GMAIL_DELETE_THREAD'', Admin),
     (''GMAIL_MOVE_THREAD_TO_TRASH'', Admin),
     (''GMAIL_UNTRASH_THREAD'', Admin),
     (''GMAIL_DELETE_DRAFT'', Admin),
     (''GMAIL_DELETE_LABEL'', Admin)]"

definition googlecalendar_curated :: catalog where
  "googlecalendar_curated =
    [(''GOOGLECALENDAR_EVENTS_LIST'', Read),
     (''GOOGLECALENDAR_FIND_EVENT'', Read),
     (''GOOGLECALENDAR_LIST_CALENDARS'', Read),
     (''GOOGLECALENDAR_EVENTS_GET'', Read),
     (''GOOGLECALENDAR_FIND_FREE_SLOTS'', Read),
     (''GOOGLECALENDAR_GET_CALENDAR'', Read),
     (''GOOGLECALENDAR_EVENTS_LIST_ALL_CALENDARS'', Read),
     (''GOOGLECALENDAR_CREATE_EVENT'', Write),
     (''GOOGLECALENDAR_UPDATE_EVENT'', Write),
     (''GOOGLECALENDAR_PATCH_EVENT'', Write),
     (''GOOGLECALENDAR_QUICK_ADD'', Write),
     (''GOOGLECALENDAR_EVENTS_MOVE'', Write),
     (''GOOGLECALENDAR_REMOVE_ATTENDEE'', Write),
     (''GOOGLECALENDAR_EVENTS_IMPORT'', Write),
     (''GOOGLECALENDAR_DELETE_EVENT'', Admin),
     (''GOOGLECALENDAR_CLEAR_CALENDAR'', Admin),
     (''GOOGLECALENDAR_CALENDARS_DELETE'', Admin),
     (''GOOGLECALENDAR_DUPLICATE_CALENDAR'', Admin),
     (''GOOGLECALENDAR_PATCH_CALENDAR'', Admin),
     (''GOOGLECALENDAR_ACL_INSERT'', Admin),
     (''GOOGLECALENDAR_ACL_DELETE'', Admin)]"

definition googledrive_curated :: catalog where
  "googledrive_curated =
    [(''GOOGLEDRIVE_FIND_FILE'', Read),
     (''GOOGLEDRIVE_LIST_FILES'', Read),
     (''GOOGLEDRIVE_GET_FILE_METADATA'', Read),
     (''GOOGLEDRIVE_DOWNLOAD_FILE'', Read),
     (''GOOGLEDRIVE_LIST_PERMISSIONS'', Read),
     (''GOOGLEDRIVE_FIND_FOLDER'', Read),
     (''GOOGLEDRIVE_GET_ABOUT'', Read),
     (''GOOGLEDRIVE_CREATE_FILE'', Write),
     (''GOOGLEDRIVE_CREATE_FOLDER'', Write),
     (''GOOGLEDRIVE_UPLOAD_FILE'', Write),
     (''GOOGLEDRIVE_CREATE_FILE_FROM_TEXT'', Write),
     (''GOOGLEDRIVE_COPY_FILE_ADVANCED'', Write),
     (''GOOGLEDRIVE_MOVE_FILE'', Write),
     (''GOOGLEDRIVE_EDIT_FILE'', Write),
     (''GOOGLEDRIVE_RENAME_FILE'', Write),
     (''GOOGLEDRIVE_CREATE_PERMISSION'', Admin),
     (''GOOGLEDRIVE_DELETE_PERMISSION'', Admin),
     (''GOOGLEDRIVE_UPDATE_PERMISSION'', Admin),
     (''GOOGLEDRIVE_DELETE_FILE'', Admin),
     (''GOOGLEDRIVE_GOOGLE_DRIVE_DELETE_FOLDER_OR_FILE_ACTION'', Admin),
     (''GOOGLEDRIVE_EMPTY_TRASH'', Admin)]"

definition googledocs_curated :: catalog where
  "googledocs_curated =
    [(''GOOGLEDOCS_GET_DOCUMENT_BY_ID'', Read),
     (''GOOGLEDOCS_GET_DOCUMENT_PLAINTEXT'', Read),
     (''GOOGLEDOCS_SEARCH_DOCUMENTS'', Read),
     (''GOOGLEDOCS_CREATE_DOCUMENT'', Write),
     (''GOOGLEDOCS_CREATE_DOCUMENT_MARKDOWN'', Write),
     (''GOOGLEDOCS_INSERT_TEXT_ACTION'', Write),
     (''GOOGLEDOCS_INSERT_TABLE_ACTION'', Write),
     (''GOOGLEDOCS_INSERT_INLINE_IMAGE'', Write),
     (''GOOGLEDOCS_UPDATE_EXISTING_DOCUMENT'', Write),
     (''GOOGLEDOCS_UPDATE_DOCUMENT_MARKDOWN'', Write),
     (''GOOGLEDOCS_UPDATE_DOCUMENT_SECTION_MARKDOWN'', Write),
     (''GOOGLEDOCS_REPLACE_ALL_TEXT'', Write),
     (''GOOGLEDOCS_COPY_DOCUMENT'', Write),
     (''GOOGLEDOCS_CREATE_HEADER'', Write),
     (''GOOGLEDOCS_CREATE_FOOTER'', Write),
     (''GOOGLEDOCS_DELETE_CONTENT_RANGE'', Admin),
     (''GOOGLEDOCS_DELETE_HEADER'', Admin),
     (''GOOGLEDOCS_DELETE_FOOTER'', Admin),
     (''GOOGLEDOCS_DELETE_NAMED_RANGE'', Admin),
     (''GOOGLEDOCS_DELETE_TABLE_ROW'', Admin),
     (''GOOGLEDOCS_DELETE_TABLE_COLUMN'', Admin)]"

definition googlesheets_curated :: catalog where
  "googlesheets_curated =
    [(''GOOGLESHEETS_BATCH_GET'', Read),
     (''GOOGLESHEETS_VALUES_GET'', Read),
     (''GOOGLESHEETS_LOOKUP_SPREADSHEET_ROW'', Read),
     (''GOOGLESHEETS_GET_SPREADSHEET_INFO'', Read),
     (''GOOGLESHEETS_GET_SHEET_NAMES'', Read),
     (''GOOGLESHEETS_SEARCH_SPREADSHEETS'', Read),
     (''GOOGLESHEETS_VALUES_UPDATE'', Write),
     (''GOOGLESHEETS_UPDATE_VALUES_BATCH'', Write),
     (''GOOGLESHEETS_SPREADSHEETS_VALUES_APPEND'', Write),
     (''GOOGLESHEETS_UPSERT_ROWS'', Write),
     (''GOOGLESHEETS_CREATE_GOOGLE_SHEET1'', Write),
     (''GOOGLESHEETS_ADD_SHEET'', Write),
     (''GOOGLESHEETS_CREATE_SPREADSHEET_ROW'', Write),
     (''GOOGLESHEETS_CREATE_SPREADSHEET_COLUMN'', Write),
     (''GOOGLESHEETS_FIND_REPLACE'', Write),
     (''GOOGLESHEETS_FORMAT_CELL'', Write),
     (''GOOGLESHEETS_SET_DATA_VALIDATION_RULE'', Write),
     (''GOOGLESHEETS_SPREADSHEETS_VALUES_BATCH_CLEAR'', Admin),
     (''GOOGLESHEETS_DELETE_SHEET'', Admin),
     (''GOOGLESHEETS_DELETE_DIMENSION'', Admin),
     (''GOOGLESHEETS_UPDATE_SHEET_PROPERTIES'', Admin),
     (''GOOGLESHEETS_UPDATE_SPREADSHEET_PROPERTIES'', Admin)]"

definition linear_curated :: catalog where
  "linear_curated =
    [(''LINEAR_LIST_LINEAR_USERS'', Read),
     (''LINEAR_LIST_LINEAR_ISSUES'', Read),
     (''LINEAR_GET_LINEAR_ISSUE'', Read),
     (''LINEAR_SEARCH_ISSUES'', Read),
     (''LINEAR_LIST_LINEAR_TEAMS'', Read),
     (''LINEAR_LIST_LINEAR_PROJECTS'', Read),
     (''LINEAR_GET_LINEAR_PROJECT'', Read),
     (''LINEAR_LIST_LINEAR_STATES'', Read),
     (''LINEAR_GET_CYCLES_BY_TEAM_ID'', Read),
     (''LINEAR_LIST_LINEAR_LABELS'', Read),
     (''LINEAR_CREATE_LINEAR_ISSUE'', Write),
     (''LINEAR_UPDATE_ISSUE'', Write),
     (''LINEAR_CREATE_LINEAR_COMMENT'', Write),
     (''LINEAR_UPDATE_LINEAR_COMMENT'', Write),
     (''LINEAR_CREATE_ATTACHMENT'', Write),
     (''LINEAR_CREATE_ISSUE_RELATION'', Write),
     (''LINEAR_CREATE_LINEAR_PROJECT'', Write),
     (''LINEAR_UPDATE_LINEAR_PROJECT'', Write),
     (''LINEAR_CREATE_LINEAR_LABEL'', Write),
     (''LINEAR_DELETE_LINEAR_ISSUE'', Admin),
     (''LINEAR_REMOVE_ISSUE_LABEL'', Admin)]"

definition slack_curated :: catalog where
  "slack_curated =
    [(''SLACK_FIND_CHANNELS'', Read),
     (''SLACK_FIND_USERS'', Read),
     (''SLACK_FETCH_CONVERSATION_HISTORY'', Read),
     (''SLACK_FETCH_MESSAGE_THREAD_FROM_A_CONVERSATION'', Read),
     (''SLACK_LIST_ALL_CHANNELS'', Read),
     (''SLACK_LIST_ALL_USERS'', Read),
     (''SLACK_LIST_CONVERSATIONS'', Read),
     (''SLACK_FETCH_TEAM_INFO'', Read),
     (''SLACK_GET_USER_PRESENCE'', Read),
     (''SLACK_ASSISTANT_SEARCH_CONTEXT'', Read),
     (''SLACK_SEND_MESSAGE'', Write),
     (''SLACK_POST_MESSAGE_TO_CHANNEL'', Write),
     (''SLACK_SEND_MESSAGE_TO_CHANNEL'', Write),
     (''SLACK_CREATE_CHANNEL'', Write),
     (''SLACK_INVITE_USERS_TO_A_SLACK_CHANNEL'', Admin),
     (''SLACK_ADD_REACTION_TO_AN_ITEM'', Write),
     (''SLACK_UPLOAD_FILE'', Write),
     (''SLACK_CREATE_A_REMINDER'', Write),
     (''SLACK_CREATE_USER_GROUP'', Write),
     (''SLACK_DELETE_CHANNEL'', Admin),
     (''SLACK_ARCHIVE_CONVERSATION'', Admin),
     (''SLACK_DELETE_FILE'', Admin),
     (''SLACK_DELETES_A_MESSAGE_FROM_A_CHAT'', Admin),
     (''SLACK_DELETE_REMINDER'', Admin),
     (''SLACK_LEAVE_CONVERSATION'', Admin),
     (''SLACK_INVITE_USER_TO_WORKSPACE'', Admin),
     (''SLACK_CONVERT_CHANNEL_TO_PRIVATE'', Admin)]"

definition discord_curated :: catalog where
  "discord_curated =
    [(''DISCORD_GET_MY_USER'', Read),
     (''DISCORD_GET_USER'', Read),
     (''DISCORD_LIST_MY_GUILDS'', Read),
     (''DISCORD_GET_MY_GUILD_MEMBER'', Read),
     (''DISCORD_INVITE_RESOLVE'', Read),
     (''DISCORD_GET_GUILD_WIDGET'', Read),
     (''DISCORD_LIST_MY_CONNECTIONS'', Read)]"

definition telegram_curated :: catalog where
  "telegram_curated =
    [(''TELEGRAM_GET_UPDATES'', Read),
     (''TELEGRAM_GET_CHAT'', Read),
     (''TELEGRAM_GET_CHAT_HISTORY'', Read),
     (''TELEGRAM_GET_CHAT_MEMBER'', Read),
     (''TELEGRAM_GET_CHAT_MEMBERS_COUNT'', Read),
     (''TELEGRAM_GET_CHAT_ADMINISTRATORS'', Read),
     (''TELEGRAM_GET_ME'', Read),
     (''TELEGRAM_SEND_MESSAGE'', Write),
     (''TELEGRAM_SEND_PHOTO'', Write),
     (''TELEGRAM_SEND_DOCUMENT'', Write),
     (''TELEGRAM_SEND_LOCATION'', Write),
     (''TELEGRAM_SEND_POLL'', Write),
     (''TELEGRAM_FORWARD_MESSAGE'', Write),
     (''TELEGRAM_EDIT_MESSAGE'', Write),
     (''TELEGRAM_ANSWER_CALLBACK_QUERY'', Write),
     (''TELEGRAM_DELETE_MESSAGE'', Admin),
     (''TELEGRAM_CREATE_CHAT_INVITE_LINK'', Admin),
     (''TELEGRAM_SET_MY_COMMANDS'', Admin)]"

definition whatsapp_curated :: catalog where
  "whatsapp_curated =
    [(''WHATSAPP_GET_PHONE_NUMBERS'', Read),
     (''WHATSAPP_GET_MESSAGE_TEMPLATES'', Read),
     (''WHATSAPP_GET_PHONE_NUMBER'', Read),
     (''WHATSAPP_GET_BUSINESS_PROFILE'', Read),
     (''WHATSAPP_GET_TEMPLATE_STATUS'', Read),
     (''WHATSAPP_GET_MEDIA_INFO'', Read),
     (''WHATSAPP_SEND_MESSAGE'', Write),
     (''WHATSAPP_SEND_TEMPLATE_MESSAGE'', Write),
     (''WHATSAPP_SEND_MEDIA'', Write),
     (''WHATSAPP_SEND_MEDIA_BY_ID'', Write),
     (''WHATSAPP_SEND_INTERACTIVE_BUTTONS'', Write),
     (''WHATSAPP_SEND_INTERACTIVE_LIST'', Write),
     (''WHATSAPP_UPLOAD_MEDIA'', Write),
     (''WHATSAPP_CREATE_MESSAGE_TEMPLATE'', Admin),
     (''WHATSAPP_DELETE_MESSAGE_TEMPLATE'', Admin)]"

definition microsoft_teams_curated :: catalog where
  "microsoft_teams_curated =
    [(''MICROSOFT_TEAMS_GET_CHAT'', Read),
     (''MICROSOFT_TEAMS_GET_CHANNEL'', Read),
     (''MICROSOFT_TEAMS_GET_TEAM_FROM_GROUP'', Read),
     (''MICROSOFT_TEAMS_CHATS_GET_ALL_CHATS'', Read),
     (''MICROSOFT_TEAMS_GET_PRESENCE'', Read),
     (''MICROSOFT_TEAMS_GET_ONLINE_MEETING'', Read),
     (''MICROSOFT_TEAMS_GET_SCHEDULE'', Read),
     (''MICROSOFT_TEAMS_CREATE_CHANNEL'', Write),
     (''MICROSOFT_TEAMS_CREATE_TEAM'', Write),
     (''MICROSOFT_TEAMS_CREATE_MEETING'', Write),
     (''MICROSOFT_TEAMS_ADD_TEAM_MEMBER'', Write),
     (''MICROSOFT_TEAMS_ADD_CHAT_MEMBER'', Write),
     (''MICROSOFT_TEAMS_CREATE_SHIFT'', Write),
     (''MICROSOFT_TEAMS_CREATE_TIME_OFF_REQUEST'', Write),
     (''MICROSOFT_TEAMS_DELETE_TEAM'', Admin),
     (''MICROSOFT_TEAMS_DELETE_CHANNEL'', Admin),
     (''MICROSOFT_TEAMS_ARCHIVE_TEAM'', Admin),
     (''MICROSOFT_TEAMS_ARCHIVE_CHANNEL'', Admin),
     (''MICROSOFT_TEAMS_DELETE_TAB'', Admin),
     (''MICROSOFT_TEAMS_DELETE_TIME_OFF'', Admin)]"

definition one_drive_curated :: catalog where
  "one_drive_curated =
    [(''ONE_DRIVE_GET_FILE'', Read),
     (''ONE_DRIVE_GET_FILE_METADATA'', Read),
     (''ONE_DRIVE_LIST_FILES'', Read),
     (''ONE_DRIVE_LIST_CHILDREN'', Read),
     (''ONE_DRIVE_SEARCH_FILES'', Read),
     (''ONE_DRIVE_DOWNLOAD_FILE'', Read),
     (''ONE_DRIVE_GET_DRIVE'', Read),
     (''ONE_DRIVE_UPLOAD_FILE'', Write),
     (''ONE_DRIVE_CREATE_FOLDER'', Write),
     (''ONE_DRIVE_COPY_FILE'', Write),
     (''ONE_DRIVE_MOVE_FILE'', Write),
     (''ONE_DRIVE_UPDATE_FILE'', Write),
     (''ONE_DRIVE_CREATE_SHARE_LINK'', Write),
     (''ONE_DRIVE_DELETE_FILE'', Admin),
     (''ONE_DRIVE_DELETE_FOLDER'', Admin),
     (''ONE_DRIVE_RESTORE_FILE'', Admin)]"

definition excel_curated :: catalog where
  "excel_curated =
    [(''EXCEL_GET_WORKBOOK'', Read),
     (''EXCEL_LIST_WORKSHEETS'', Read),
     (''EXCEL_GET_WORKSHEET'', Read),
     (''EXCEL_GET_RANGE'', Read),
     (''EXCEL_GET_USED_RANGE'', Read),
     (''EXCEL_LIST_TABLES'', Read),
     (''EXCEL_GET_TABLE_ROWS'', Read),
     (''EXCEL_CREATE_WORKSHEET'', Write),
     (''EXCEL_UPDATE_RANGE'', Write),
     (''EXCEL_APPEND_ROWS'', Write),
     (''EXCEL_INSERT_TABLE_ROW'', Write),
     (''EXCEL_UPDATE_TABLE_ROW'', Write),
     (''EXCEL_CREATE_TABLE'', Write),
     (''EXCEL_FORMAT_RANGE'', Write),
     (''EXCEL_DELETE_WORKSHEET'', Admin),
     (''EXCEL_DELETE_TABLE'', Admin),
     (''EXCEL_DELETE_TABLE_ROW'', Admin),
     (''EXCEL_CLEAR_RANGE'', Admin)]"

definition notion_curated :: catalog where
  "notion_curated =
    [(''NOTION_SEARCH_NOTION_PAGE'', Read),
     (''NOTION_FETCH_DATA'', Read),
     (''NOTION_FETCH_DATABASE'', Read),
     (''NOTION_FETCH_ROW'', Read),
     (''NOTION_FETCH_BLOCK_METADATA'', Read),
     (''NOTION_FETCH_BLOCK_CONTENTS'', Read),
     (''NOTION_FETCH_ALL_BLOCK_CONTENTS'', Read),
     (''NOTION_FETCH_COMMENTS'', Read),
     (''NOTION_GET_PAGE_MARKDOWN'', Read),
     (''NOTION_GET_PAGE_PROPERTY_ACTION'', Read),
     (''NOTION_QUERY_DATABASE'', Read),
     (''NOTION_QUERY_DATABASE_WITH_FILTER'', Read),
     (''NOTION_QUERY_DATA_SOURCE'', Read),
     (''NOTION_RETRIEVE_PAGE'', Read),
     (''NOTION_RETRIEVE_COMMENT'', Read),
     (''NOTION_RETRIEVE_DATABASE_PROPERTY'', Read),
     (''NOTION_LIST_USERS'', Read),
     (''NOTION_GET_ABOUT_USER'', Read),
     (''NOTION_GET_ABOUT_ME'', Read),
     (''NOTION_LIST_FILE_UPLOADS'', Read),
     (''NOTION_RETRIEVE_FILE_UPLOAD'', Read),
     (''NOTION_LIST_DATA_SOURCE_TEMPLATES'', Read),
     (''NOTION_CREATE_NOTION_PAGE'', Write),
     (''NOTION_CREATE_DATABASE'', Write),
     (''NOTION_CREATE_COMMENT'', Write),
     (''NOTION_CREATE_FILE_UPLOAD'', Write),
     (''NOTION_SEND_FILE_UPLOAD'', Write),
     (''NOTION_UPDATE_PAGE'', Write),
     (''NOTION_UPDATE_BLOCK'', Write),
     (''NOTION_UPDATE_ROW_DATABASE'', Write),
     (''NOTION_INSERT_ROW_DATABASE'', Write),
     (''NOTION_INSERT_ROW_FROM_NL'', Write),
     (''NOTION_REPLACE_PAGE_CONTENT'', Write),
     (''NOTION_ADD_PAGE_CONTENT'', Write),
     (''NOTION_ADD_MULTIPLE_PAGE_CONTENT'', Write),
     (''NOTION_APPEND_BLOCK_CHILDREN'', Write),
     (''NOTION_APPEND_TEXT_BLOCKS'', Write),
     (''NOTION_APPEND_TASK_BLOCKS'', Write),
     (''NOTION_APPEND_CODE_BLOCKS'', Write),
     (''NOTION_APPEND_MEDIA_BLOCKS'', Write),
     (''NOTION_APPEND_LAYOUT_BLOCKS'', Write),
     (''NOTION_APPEND_TABLE_BLOCKS'', Write),
     (''NOTION_DUPLICATE_PAGE'', Write),
     (''NOTION_MOVE_PAGE'', Write),
     (''NOTION_DELETE_BLOCK'', Admin),
     (''NOTION_ARCHIVE_NOTION_PAGE'', Admin)]"

definition outlook_curated :: catalog where
  "outlook_curated =
    [(''OUTLOOK_GET_MESSAGE'', Read),
     (''OUTLOOK_LIST_MESSAGES'', Read),
     (''OUTLOOK_SEARCH_MESSAGES'', Read),
     (''OUTLOOK_LIST_CALENDARS'', Read),
     (''OUTLOOK_LIST_CALENDAR_EVENTS'', Read),
     (''OUTLOOK_GET_CALENDAR_EVENT'', Read),
     (''OUTLOOK_LIST_CONTACTS'', Read),
     (''OUTLOOK_LIST_MAIL_FOLDERS'', Read),
     (''OUTLOOK_SEND_EMAIL'', Write),
     (''OUTLOOK_CREATE_DRAFT'', Write),
     (''OUTLOOK_SEND_DRAFT'', Write),
     (''OUTLOOK_CREATE_DRAFT_REPLY'', Write),
     (''OUTLOOK_CREATE_ME_FORWARD_DRAFT'', Write),
     (''OUTLOOK_CALENDAR_CREATE_EVENT'', Write),
     (''OUTLOOK_CREATE_CONTACT'', Write),
     (''OUTLOOK_CREATE_MAIL_FOLDER'', Write),
     (''OUTLOOK_DELETE_MESSAGE'', Admin),
     (''OUTLOOK_BATCH_MOVE_MESSAGES'', Admin),
     (''OUTLOOK_BATCH_UPDATE_MESSAGES'', Admin),
     (''OUTLOOK_ACCEPT_EVENT'', Admin),
     (''OUTLOOK_CANCEL_EVENT'', Admin),
     (''OUTLOOK_CREATE_ME_CALENDAR_PERMISSION'', Admin),
     (''OUTLOOK_CREATE_EMAIL_RULE'', Admin)]"

definition jira_curated :: catalog where
  "jira_curated =
    [(''JIRA_GET_ISSUE'', Read),
     (''JIRA_GET_ALL_PROJECTS'', Read),
     (''JIRA_FETCH_BULK_ISSUES'', Read),
     (''JIRA_GET_ISSUE_TYPES'', Read),
     (''JIRA_GET_PROJECT_ROLES'', Read),
     (''JIRA_FIND_USERS2'', Read),
     (''JIRA_GET_FIELDS'', Read),
     (''JIRA_GET_ISSUE_EDIT_METADATA'', Read),
     (''JIRA_GET_PROJECT_VERSIONS'', Read),
     (''JIRA_CREATE_ISSUE'', Write),
     (''JIRA_BULK_CREATE_ISSUE'', Write),
     (''JIRA_EDIT_ISSUE'', Write),
     (''JIRA_ADD_COMMENT'', Write),
     (''JIRA_ASSIGN_ISSUE'', Write),
     (''JIRA_ADD_ATTACHMENT'', Write),
     (''JIRA_CREATE_ISSUE_LINK'', Write),
     (''JIRA_ADD_WORKLOG'', Write),
     (''JIRA_TRANSITION_ISSUE'', Write),
     (''JIRA_DELETE_ISSUE'', Admin),
     (''JIRA_DELETE_COMMENT'', Admin),
     (''JIRA_DELETE_VERSION'', Admin),
     (''JIRA_DELETE_WORKLOG'', Admin),
     (''JIRA_CREATE_PROJECT'', Admin),
     (''JIRA_ADD_USERS_TO_PROJECT_ROLE'', Admin)]"

definition trello_curated :: catalog where
  "trello_curated =
    [(''TRELLO_GET_BOARDS_BY_ID_BOARD'', Read),
     (''TRELLO_GET_ACTIONS_BY_ID_ACTION'', Read),
     (''TRELLO_GET_BATCH'', Read),
     (''TRELLO_GET_BOARDS_ACTIONS_BY_ID_BOARD'', Read),
     (''TRELLO_GET_MEMBERS_BOARDS_BY_ID_MEMBER'', Read),
     (''TRELLO_ADD_CARDS'', Write),
     (''TRELLO_ADD_BOARDS'', Write),
     (''TRELLO_ADD_LISTS'', Write),
     (''TRELLO_ADD_CARDS_ACTIONS_COMMENTS_BY_ID_CARD'', Write),
     (''TRELLO_ADD_MEMBER_TO_CARD'', Write),
     (''TRELLO_CREATE_CARD_LABEL'', Write),
     (''TRELLO_ADD_CARDS_ATTACHMENTS_BY_ID_CARD'', Write),
     (''TRELLO_ADD_CARDS_CHECKLISTS_BY_ID_CARD'', Write),
     (''TRELLO_CREATE_WEBHOOK'', Write),
     (''TRELLO_DELETE_CARDS_BY_ID_CARD'', Admin),
     (''TRELLO_DELETE_BOARD'', Admin),
     (''TRELLO_DELETE_CHECKLISTS_BY_ID_CHECKLIST'', Admin),
     (''TRELLO_ARCHIVE_ALL_LIST_CARDS'', Admin),
     (''TRELLO_DELETE_CARD_COMMENT'', Admin),
     (''TRELLO_DELETE_LABELS_BY_ID_LABEL'', Admin),
     (''TRELLO_DELETE_ORGANIZATIONS_BY_ID_ORG'', Admin),
     (''TRELLO_DELETE_WEBHOOKS_BY_ID_WEBHOOK'', Admin)]"

definition asana_curated :: catalog where
  "asana_curated =
    [(''ASANA_GET_A_TASK'', Read),
     (''ASANA_GET_A_PROJECT'', Read),
     (''ASANA_GET_MULTIPLE_TASKS'', Read),
     (''ASANA_GET_MULTIPLE_PROJECTS'', Read),
     (''ASANA_GET_CURRENT_USER'', Read),
     (''ASANA_GET_MULTIPLE_WORKSPACES'', Read),
     (''ASANA_GET_PORTFOLIO'', Read),
     (''ASANA_GET_GOALS'', Read),
     (''ASANA_GET_CUSTOM_FIELDS_FOR_WORKSPACE'', Read),
     (''ASANA_CREATE_A_TASK'', Write),
     (''ASANA_CREATE_A_PROJECT'', Write),
     (''ASANA_CREATE_SUBTASK'', Write),
     (''ASANA_CREATE_TASK_COMMENT'', Write),
     (''ASANA_UPDATE_A_TASK'', Write),
     (''ASANA_ADD_FOLLOWERS_TO_TASK'', Write),
     (''ASANA_ADD_TAG_TO_TASK'', Write),
     (''ASANA_ADD_PROJECT_FOR_TASK'', Write),
     (''ASANA_ADD_TASK_DEPENDENCIES'', Write),
     (''ASANA_CREATE_ATTACHMENT_FOR_TASK'', Write),
     (''ASANA_DELETE_TASK'', Admin),
     (''ASANA_DELETE_PROJECT'', Admin),
     (''ASANA_DELETE_SECTION'', Admin),
     (''ASANA_DELETE_TAG'', Admin),
     (''ASANA_DELETE_CUSTOM_FIELD'', Admin),
     (''ASANA_DELETE_MEMBERSHIP'', Admin)]"

definition dropbox_curated :: catalog where
  "dropbox_curated =
    [(''DROPBOX_GET_METADATA'', Read),
     (''DROPBOX_FILES_SEARCH'', Read),
     (''DROPBOX_LIST_FILE_MEMBERS'', Read),
     (''DROPBOX_GET_SHARED_LINK_METADATA'', Read),
     (''DROPBOX_GET_ABOUT_ME'', Read),
     (''DROPBOX_GET_SPACE_USAGE'', Read),
     (''DROPBOX_ALPHA_UPLOAD_FILE'', Write),
     (''DROPBOX_CREATE_FOLDER'', Write),
     (''DROPBOX_COPY_FILE_OR_FOLDER'', Write),
     (''DROPBOX_CREATE_SHARED_LINK'', Write),
     (''DROPBOX_ADD_FILE_MEMBER'', Write),
     (''DROPBOX_DELETE_FILE'', Admin),
     (''DROPBOX_DELETE_BATCH'', Admin),
     (''DROPBOX_ADD_TEAM_MEMBERS'', Admin),
     (''DROPBOX_CREATE_TEAM_FOLDER'', Admin),
     (''DROPBOX_ARCHIVE_TEAM_FOLDER'', Admin)]"

definition todoist_curated :: catalog where
  "todoist_curated =
    [(''TODOIST_GET_TASK'', Read),
     (''TODOIST_GET_ALL_TASKS'', Read),
     (''TODOIST_LIST_COMPLETED_TASKS'', Read),
     (''TODOIST_GET_PROJECTS'', Read),
     (''TODOIST_GET_PROJECT'', Read),
     (''TODOIST_GET_SECTIONS'', Read),
     (''TODOIST_GET_LABELS'', Read),
     (''TODOIST_GET_COMMENTS'', Read),
     (''TODOIST_CREATE_TASK'', Write),
     (''TODOIST_UPDATE_TASK'', Write),
     (''TODOIST_CLOSE_TASK'', Write),
     (''TODOIST_REOPEN_TASK'', Write),
     (''TODOIST_CREATE_PROJECT'', Write),
     (''TODOIST_UPDATE_PROJECT'', Write),
     (''TODOIST_CREATE_SECTION'', Write),
     (''TODOIST_CREATE_LABEL'', Write),
     (''TODOIST_CREATE_COMMENT'', Write),
     (''TODOIST_DELETE_TASK'', Admin),
     (''TODOIST_DELETE_PROJECT'', Admin),
     (''TODOIST_DELETE_SECTION'', Admin),
     (''TODOIST_DELETE_LABEL'', Admin),
     (''TODOIST_DELETE_COMMENT'', Admin)]"

definition twitter_curated :: catalog where
  "twitter_curated =
    [(''TWITTER_RECENT_SEARCH'', Read),
     (''TWITTER_GET_USER_BY_ID'', Read),
     (''TWITTER_POST_LOOKUP_BY_POST_ID'', Read),
     (''TWITTER_FOLLOWERS_BY_USER_ID'', Read),
     (''TWITTER_FOLLOWING_BY_USER_ID'', Read),
     (''TWITTER_BOOKMARKS_BY_USER'', Read),
     (''TWITTER_GET_LIST_MEMBERS'', Read),
     (''TWITTER_FULL_ARCHIVE_SEARCH'', Read),
     (''TWITTER_CREATION_OF_A_POST'', Write),
     (''TWITTER_RETWEET_POST'', Write),
     (''TWITTER_ADD_POST_TO_BOOKMARKS'', Write),
     (''TWITTER_FOLLOW_USER'', Write),
     (''TWITTER_MUTE_USER'', Write),
     (''TWITTER_CREATE_DM_CONVERSATION'', Write),
     (''TWITTER_CREATE_LIST'', Write),
     (''TWITTER_ADD_LIST_MEMBER'', Write),
     (''TWITTER_POST_DELETE_BY_POST_ID'', Admin),
     (''TWITTER_DELETE_LIST'', Admin),
     (''TWITTER_REMOVE_LIST_MEMBER'', Admin),
     (''TWITTER_DELETE_DM'', Admin),
     (''TWITTER_REMOVE_POST_FROM_BOOKMARKS'', Admin)]"

definition spotify_curated :: catalog where
  "spotify_curated =
    [(''SPOTIFY_GET_CURRENT_USER_S_PROFILE'', Read),
     (''SPOTIFY_GET_USER_S_TOP_TRACKS'', Read),
     (''SPOTIFY_GET_PLAYLIST'', Read),
     (''SPOTIFY_GET_PLAYLIST_ITEMS'', Read),
     (''SPOTIFY_GET_RECENTLY_PLAYED_TRACKS'', Read),
     (''SPOTIFY_GET_USER_S_SAVED_TRACKS'', Read),
     (''SPOTIFY_SEARCH_FOR_ITEM'', Read),
     (''SPOTIFY_GET_AVAILABLE_DEVICES'', Read),
     (''SPOTIFY_ADD_ITEMS_TO_PLAYLIST'', Write),
     (''SPOTIFY_CREATE_PLAYLIST'', Write),
     (''SPOTIFY_SAVE_TRACKS_FOR_CURRENT_USER'', Write),
     (''SPOTIFY_PAUSE_PLAYBACK'', Write),
     (''SPOTIFY_ADD_ITEM_TO_PLAYBACK_QUEUE'', Write),
     (''SPOTIFY_CHANGE_PLAYLIST_DETAILS'', Write),
     (''SPOTIFY_REMOVE_PLAYLIST_ITEMS'', Admin),
     (''SPOTIFY_REMOVE_USER_S_SAVED_TRACKS'', Admin),
     (''SPOTIFY_UNFOLLOW_ARTISTS_OR_USERS'', Admin),
     (''SPOTIFY_REMOVE_USER_S_SAVED_ALBUMS'', Admin)]"

definition youtube_curated :: catalog where
  "youtube_curated =
    [(''YOUTUBE_SEARCH_YOU_TUBE'', Read),
     (''YOUTUBE_LIST_CHANNEL_VIDEOS'', Read),
     (''YOUTUBE_GET_CHANNEL_STATISTICS'', Read),
     (''YOUTUBE_LIST_COMMENT_THREADS2'', Read),
     (''YOUTUBE_LIST_COMMENTS'', Read),
     (''YOUTUBE_GET_VIDEO_DETAILS_BATCH'', Read),
     (''YOUTUBE_LIST_USER_PLAYLISTS'', Read),
     (''YOUTUBE_LIST_PLAYLIST_ITEMS'', Read),
     (''YOUTUBE_UPLOAD_VIDEO'', Write),
     (''YOUTUBE_UPDATE_VIDEO'', Write),
     (''YOUTUBE_CREATE_PLAYLIST'', Write),
     (''YOUTUBE_ADD_VIDEO_TO_PLAYLIST'', Write),
     (''YOUTUBE_POST_COMMENT'', Write),
     (''YOUTUBE_RATE_VIDEO'', Write),
     (''YOUTUBE_UPDATE_PLAYLIST'', Write),
     (''YOUTUBE_DELETE_VIDEO'', Admin),
     (''YOUTUBE_DELETE_PLAYLIST'', Admin),
     (''YOUTUBE_DELETE_COMMENT'', Admin),
     (''YOUTUBE_DELETE_PLAYLIST_ITEM'', Admin)]"

section \<open>Lookup\<close>

definition native_providers :: "str list" where
  "native_providers = [''gmail'', ''notion'', ''slack'', ''clickup'', ''github'', ''linear'']"

definition curated_toolkits :: "str list" where
  "curated_toolkits =
     [''gmail'', ''notion'', ''slack'', ''clickup'', ''github'',
      ''discord'', ''googlecalendar'', ''googledrive'', ''googledocs'', ''googlesheets'',
      ''outlook'', ''microsoft_teams'', ''linear'', ''jira'', ''trello'',
      ''asana'', ''dropbox'', ''twitter'', ''spotify'', ''telegram'',
      ''whatsapp'', ''shopify'', ''stripe'', ''hubspot'', ''salesforce'',
      ''airtable'', ''figma'', ''youtube'', ''one_drive'', ''excel'',
      ''todoist'']"

definition has_native_provider :: "str \<Rightarrow> bool" where
  "has_native_provider toolkit = List.member native_providers toolkit"

text \<open>The arms of the match, in the code's order; the first that lists the key answers.\<close>

definition catalog_arms :: "(str list \<times> catalog) list" where
  "catalog_arms =
     [([''gmail''], gmail_curated),
      ([''notion''], notion_curated),
      ([''github''], github_curated),
      ([''linear''], linear_curated),
      ([''clickup''], clickup_curated),
      ([''slack''], slack_curated),
      ([''discord''], discord_curated),
      ([''googlecalendar'', ''google_calendar''], googlecalendar_curated),
      ([''googledrive'', ''google_drive''], googledrive_curated),
      ([''googledocs'', ''google_docs''], googledocs_curated),
      ([''googlesheets'', ''google_sheets''], googlesheets_curated),
      ([''outlook''], outlook_curated),
      ([''microsoft'', ''microsoft_teams''], microsoft_teams_curated),
      ([''jira''], jira_curated),
      ([''trello''], trello_curated),
      ([''asana''], asana_curated),
      ([''dropbox''], dropbox_curated),
      ([''twitter''], twitter_curated),
      ([''spotify''], spotify_curated),
      ([''telegram''], telegram_curated),
      ([''whatsapp''], whatsapp_curated),
      ([''shopify''], shopify_curated),
      ([''stripe''], stripe_curated),
      ([''hubspot''], hubspot_curated),
      ([''salesforce''], salesforce_curated),
      ([''airtable''], airtable_curated),
      ([''figma''], figma_curated),
      ([''youtube''], youtube_curated),
      ([''one'', ''one_drive'', ''onedrive''], one_drive_curated),
      ([''excel''], excel_curated),
      ([''todoist''], todoist_curated)]"

definition catalog_for_toolkit :: "str \<Rightarrow> catalog option" where
  "catalog_for_toolkit toolkit =
     (let key = to_lower (trim toolkit) in
      first_some (\<lambda>(names, cat). if List.member names key then Some cat else None) catalog_arms)"

section \<open>The registry's providers\<close>

text \<open>A \<open>BTreeMap\<close> from toolkit to provider: the entries in ascending order, with their catalogs.\<close>

definition default_registry :: "(str \<times> catalog option) list" where
  "default_registry =
     [(''clickup'', Some clickup_curated), (''github'', Some github_curated),
      (''gmail'', Some gmail_curated), (''linear'', Some linear_curated),
      (''notion'', Some notion_curated), (''slack'', Some slack_curated)]"

definition registry_get :: "(str \<times> catalog option) list \<Rightarrow> str \<Rightarrow> catalog option option" where
  "registry_get reg toolkit = map_of reg (to_lower (trim toolkit))"

definition registry_agent_ready :: "(str \<times> catalog option) list \<Rightarrow> str list" where
  "registry_agent_ready reg =
     map fst (filter (\<lambda>(t, c). case c of None \<Rightarrow> False | Some cat \<Rightarrow> cat \<noteq> []) reg)"

section \<open>Laws\<close>

text \<open>The canonical toolkits with their tables, in display order.\<close>

definition canonical_tables :: "(str \<times> catalog) list" where
  "canonical_tables =
     [(''gmail'', gmail_curated), (''notion'', notion_curated), (''slack'', slack_curated),
      (''clickup'', clickup_curated), (''github'', github_curated), (''discord'', discord_curated),
      (''googlecalendar'', googlecalendar_curated), (''googledrive'', googledrive_curated), (''googledocs'', googledocs_curated),
      (''googlesheets'', googlesheets_curated), (''outlook'', outlook_curated), (''microsoft_teams'', microsoft_teams_curated),
      (''linear'', linear_curated), (''jira'', jira_curated), (''trello'', trello_curated),
      (''asana'', asana_curated), (''dropbox'', dropbox_curated), (''twitter'', twitter_curated),
      (''spotify'', spotify_curated), (''telegram'', telegram_curated), (''whatsapp'', whatsapp_curated),
      (''shopify'', shopify_curated), (''stripe'', stripe_curated), (''hubspot'', hubspot_curated),
      (''salesforce'', salesforce_curated), (''airtable'', airtable_curated), (''figma'', figma_curated),
      (''youtube'', youtube_curated), (''one_drive'', one_drive_curated), (''excel'', excel_curated),
      (''todoist'', todoist_curated)]"

lemma curated_lookup:
  "map catalog_for_toolkit curated_toolkits = map (\<lambda>e. Some (snd e)) canonical_tables"
  "map fst canonical_tables = curated_toolkits"
  by (simp_all add: catalog_for_toolkit_def catalog_arms_def canonical_tables_def
      curated_toolkits_def str_eval)

text \<open>
  A slug of capitals, digits and underscores is its own trimmed upper form, so both splitters
  decide on its prefix.
\<close>

definition slug_char :: "char \<Rightarrow> bool" where
  "slug_char c \<longleftrightarrow> is_upper c \<or> is_digit c \<or> c = CHR ''_''"

definition settled :: "str \<Rightarrow> bool" where
  "settled T \<longleftrightarrow>
     list_all (\<lambda>(p, t). prefix p T \<or> apart p T) multi_segment_prefixes \<and>
     list_all (\<lambda>(p, t). prefix p T \<or> apart p T) sync_multi_segment \<and>
     list_all (\<lambda>(p, t, c). prefix p T \<or> apart p T) aliased_prefixes \<and>
     List.member T CHR ''_'' \<and> 1 < length T"

definition table_ok :: "str \<times> catalog \<Rightarrow> bool" where
  "table_ok e = (case e of (t, cat) \<Rightarrow>
     (let T = to_upper t @ ''_'' in
      list_all (\<lambda>e. prefix T (fst e) \<and> list_all slug_char (fst e)) cat \<and>
      distinct (map (\<lambda>e. rev (fst e)) cat)))"

definition family_ok :: "str \<Rightarrow> bool" where
  "family_ok t =
     (let T = to_upper t @ ''_'' in
      settled T \<and> bus_toolkit_from_slug T = Some t \<and> sync_toolkit_from_slug T = Some t)"

lemma tables_ok_1: "list_all table_ok (take 11 canonical_tables)"
  by (simp add: canonical_tables_def, intro conjI; code_simp)

lemma tables_ok_2: "list_all table_ok (take 10 (drop 11 canonical_tables))"
  by (simp add: canonical_tables_def, intro conjI; code_simp)

lemma tables_ok_3: "list_all table_ok (drop 10 (drop 11 canonical_tables))"
  by (simp add: canonical_tables_def, intro conjI; code_simp)

lemma tables_ok: "list_all table_ok canonical_tables"
  using tables_ok_1 tables_ok_2 tables_ok_3 by (metis append_take_drop_id list_all_append)

lemma families_ok: "list_all family_ok curated_toolkits"
  by code_simp

lemma slug_char_solid: "slug_char c \<Longrightarrow> solid c"
  by (cases c) (auto simp: slug_char_def solid_def ws1_def)

lemma slug_char_upper: "slug_char c \<Longrightarrow> upper_char c = c"
  by (cases c) (auto simp: slug_char_def)

lemma slug_upper: "list_all slug_char s \<Longrightarrow> to_upper s = s"
  unfolding to_upper_def by (rule map_idI) (auto simp: list_all_iff slug_char_upper)

lemma slug_trim:
  assumes "list_all slug_char s" "1 < length s"
  shows "trim s = s"
proof -
  obtain r where "trim (s @ []) = s @ r"
    using assms trim_keeps_solid_prefix [of s "[]"] by (auto simp: list_all_iff slug_char_solid)
  moreover have "length (trim s) \<le> length s" by (rule trim_length)
  ultimately show ?thesis by simp
qed

lemma prefix_settled: "prefix p T \<or> apart p T \<Longrightarrow> prefix p (T @ r) = prefix p T"
  by (metis apart_append prefix_order.trans prefixI apart_def)

lemma first_some_settled:
  "list_all (\<lambda>(p, t). prefix p T \<or> apart p T) L \<Longrightarrow>
   first_some (\<lambda>(p, t). if prefix p (T @ r) then Some t else None) L =
   first_some (\<lambda>(p, t). if prefix p T then Some t else None) L"
  "list_all (\<lambda>(p, t, c). prefix p T \<or> apart p T) M \<Longrightarrow>
   first_some (\<lambda>(p, t, c). if prefix p (T @ r) then Some t else None) M =
   first_some (\<lambda>(p, t, c). if prefix p T then Some t else None) M"
  by (induction L; auto simp: prefix_settled) (induction M; auto simp: prefix_settled)

lemma split_settled:
  assumes "list_all slug_char (T @ r)" "settled T"
  shows "bus_toolkit_from_slug (T @ r) = bus_toolkit_from_slug T"
    and "sync_toolkit_from_slug (T @ r) = sync_toolkit_from_slug T"
proof -
  have T: "list_all slug_char T" "1 < length T" "CHR ''_'' \<in> set T"
    using assms by (auto simp: settled_def)
  then have l: "1 < length (T @ r)" by simp
  note norm = slug_trim [OF T(1,2)] slug_upper [OF T(1)] slug_trim [OF assms(1) l] slug_upper [OF assms(1)]
  have ne: "T \<noteq> []" "T @ r \<noteq> []" using T(2) by auto
  have lists: "list_all (\<lambda>(p, t). prefix p T \<or> apart p T) multi_segment_prefixes"
    "list_all (\<lambda>(p, t). prefix p T \<or> apart p T) sync_multi_segment"
    "list_all (\<lambda>(p, t, c). prefix p T \<or> apart p T) aliased_prefixes"
    using assms(2) unfolding settled_def by blast+
  show "bus_toolkit_from_slug (T @ r) = bus_toolkit_from_slug T"
    unfolding bus_toolkit_from_slug_def Let_def norm first_some_settled(1) [OF lists(1)]
      first_some_settled(2) [OF lists(3)] takeWhile_has [OF T(3)]
    by (simp only: ne if_False)
  show "sync_toolkit_from_slug (T @ r) = sync_toolkit_from_slug T"
    unfolding sync_toolkit_from_slug_def Let_def norm first_some_settled(1) [OF lists(2)]
      takeWhile_has [OF T(3)]
    by (simp only: ne if_False)
qed

lemma entry_attributed:
  assumes "table_ok (t, cat)" "family_ok t" "e \<in> set cat"
  shows "sync_toolkit_from_slug (fst e) = Some t" "bus_toolkit_from_slug (fst e) = Some t"
    "to_upper (fst e) = fst e" "trim (fst e) = fst e"
proof -
  let ?T = "to_upper t @ ''_''"
  from assms obtain r where r: "fst e = ?T @ r" and c: "list_all slug_char (fst e)"
    unfolding table_ok_def Let_def prod.case list_all_iff prefix_def by blast
  have f: "settled ?T" "bus_toolkit_from_slug ?T = Some t" "sync_toolkit_from_slug ?T = Some t"
    using assms(2) unfolding family_ok_def Let_def by blast+
  have "1 < length (fst e)" using f(1) unfolding r settled_def by simp
  then show "to_upper (fst e) = fst e" "trim (fst e) = fst e"
    by (simp_all only: slug_upper [OF c] slug_trim [OF c])
  show "sync_toolkit_from_slug (fst e) = Some t" "bus_toolkit_from_slug (fst e) = Some t"
    using split_settled [of ?T r] c f by (simp_all only: r)
qed

lemma table_distinct:
  assumes "table_ok (t, cat)"
  shows "distinct (map fst cat)"
proof -
  have "distinct (map rev (map fst cat))"
    using assms unfolding table_ok_def Let_def prod.case map_map comp_def by blast
  then show ?thesis unfolding distinct_map by blast
qed

lemma find_first: "distinct (map f xs) \<Longrightarrow> x \<in> set xs \<Longrightarrow> (\<And>y. y \<in> set xs \<Longrightarrow> P y \<longleftrightarrow> f y = f x) \<Longrightarrow> find P xs = Some x"
  by (induction xs) (auto simp: image_iff)

lemma find_curated_entry:
  assumes "table_ok (t, cat)" "family_ok t" "e \<in> set cat"
  shows "find_curated cat (fst e) = Some e"
  unfolding find_curated_def
proof (rule find_first [OF table_distinct [OF assms(1)] assms(3)])
  fix y assume "y \<in> set cat"
  then show "eq_ignore_case (fst y) (fst e) = (fst y = fst e)"
    using entry_attributed(3) [OF assms(1,2)] assms(3) by (simp add: eq_ignore_case_upper)
qed

lemma curated_table:
  assumes "t \<in> set curated_toolkits"
  obtains cat where "catalog_for_toolkit t = Some cat" "table_ok (t, cat)" "family_ok t"
proof -
  from assms obtain i where i: "i < length curated_toolkits" "t = curated_toolkits ! i"
    by (auto simp: in_set_conv_nth)
  have len: "length canonical_tables = length curated_toolkits"
    using curated_lookup(2) by (metis length_map)
  have t: "fst (canonical_tables ! i) = t"
    using i len curated_lookup(2) by (metis nth_map)
  have "map catalog_for_toolkit curated_toolkits ! i = map (\<lambda>e. Some (snd e)) canonical_tables ! i"
    by (simp only: curated_lookup(1))
  then have c: "catalog_for_toolkit t = Some (snd (canonical_tables ! i))"
    using i len by simp
  have "table_ok (canonical_tables ! i)"
    using tables_ok i len by (simp add: list_all_length)
  then have "table_ok (t, snd (canonical_tables ! i))" using t by (metis prod.collapse)
  moreover have "family_ok t" using families_ok assms by (simp add: list_all_iff)
  ultimately show thesis using c that by blast
qed

section \<open>Properties\<close>

text \<open>
  C38. Every curated toolkit has a catalog without duplicate slugs, and every slug in it is
  canonical text which both splitters attribute to that toolkit and which the curated lookup
  finds with its own scope: no entry of a table is unreachable or gated as another toolkit's.
\<close>

theorem curated_entries_reachable:
  "list_all (\<lambda>t. case catalog_for_toolkit t of
       None \<Rightarrow> False
     | Some cat \<Rightarrow> distinct (map fst cat) \<and>
         list_all (\<lambda>e. sync_toolkit_from_slug (fst e) = Some t \<and> bus_toolkit_from_slug (fst e) = Some t \<and>
           trim (fst e) = fst e \<and> to_upper (fst e) = fst e \<and> find_curated cat (fst e) = Some e) cat)
     curated_toolkits"
  unfolding list_all_iff
proof
  fix t assume "t \<in> set curated_toolkits"
  then obtain cat where c: "catalog_for_toolkit t = Some cat" "table_ok (t, cat)" "family_ok t"
    by (rule curated_table)
  show "case catalog_for_toolkit t of
       None \<Rightarrow> False
     | Some cat \<Rightarrow> distinct (map fst cat) \<and>
         (\<forall>e \<in> set cat. sync_toolkit_from_slug (fst e) = Some t \<and> bus_toolkit_from_slug (fst e) = Some t \<and>
           trim (fst e) = fst e \<and> to_upper (fst e) = fst e \<and> find_curated cat (fst e) = Some e)"
    using entry_attributed [OF c(2,3)] find_curated_entry [OF c(2,3)] table_distinct [OF c(2)]
    by (simp add: c(1))
qed

end
