(* ===== verification/Prefs.thy ===== *)
theory Prefs
  imports Slugs Json
begin

text \<open>
  The stored scope preferences: the preference store's interface and the row of one toolkit
  (\<open>crates/tinyconnectors-sync/src/prefs\<close>), the storage form of a preference
  (\<open>crates/tinyconnectors-bus/src/storage/preference.rs\<close>), the store over documents
  (\<open>crates/tinyconnectors/src/state/document_store.rs\<close>, with the document ids of
  \<open>migration.rs\<close>), the host's offer policy (\<open>vocabulary/offered.rs\<close>) and which row governs an
  action (\<open>pref_for\<close> of \<open>tinybus_module/mod.rs\<close>). The document port is a record of two
  functions of an arbitrary state: a storage driver is not part of the repository.
\<close>

section \<open>Operations on a store's state\<close>

type_synonym ('s, 'x, 'a) op = "'s \<Rightarrow> ('x + 'a) \<times> 's"

definition retO :: "'a \<Rightarrow> ('s, 'x, 'a) op" where
  "retO a = (\<lambda>s. (Inr a, s))"

definition failO :: "'x \<Rightarrow> ('s, 'x, 'a) op" where
  "failO e = (\<lambda>s. (Inl e, s))"

definition bindO :: "('s, 'x, 'a) op \<Rightarrow> ('a \<Rightarrow> ('s, 'x, 'b) op) \<Rightarrow> ('s, 'x, 'b) op" where
  "bindO m f = (\<lambda>s. case m s of (Inl e, s') \<Rightarrow> (Inl e, s') | (Inr a, s') \<Rightarrow> f a s')"

definition map_errO :: "('x \<Rightarrow> 'y) \<Rightarrow> ('s, 'x, 'a) op \<Rightarrow> ('s, 'y, 'a) op" where
  "map_errO g m = (\<lambda>s. case m s of (Inl e, s') \<Rightarrow> (Inl (g e), s') | (Inr a, s') \<Rightarrow> (Inr a, s'))"

lemmas [eff] = retO_def failO_def bindO_def map_errO_def

section \<open>Errors of the preference crate\<close>

datatype sync_error = Store str str | Action str str | Decode_stored str str

fun sync_error_text :: "sync_error \<Rightarrow> str" where
  "sync_error_text (Store key message) = ''preference store failed for '' @ key @ '': '' @ message"
| "sync_error_text (Action action message) = ''action `'' @ action @ ''` failed: '' @ message"
| "sync_error_text (Decode_stored key message) =
     ''stored value for '' @ key @ '' did not match its shape: '' @ message"

section \<open>One toolkit's row\<close>

text \<open>
  The row as \<open>serde\<close> reads it: every flag may be left out of an object, and then has its
  default; a present flag must be a boolean. An array is read by position. Other fields are
  ignored. The wording of a refusal belongs to the library.
\<close>

definition flag_at :: "fields \<Rightarrow> str \<Rightarrow> bool \<Rightarrow> bool option" where
  "flag_at m k d = (case map_of m k of None \<Rightarrow> Some d | Some v \<Rightarrow> as_bool v)"

fun flag_nth :: "json list \<Rightarrow> nat \<Rightarrow> bool \<Rightarrow> bool option" where
  "flag_nth [] n d = Some d"
| "flag_nth (v # vs) 0 d = as_bool v"
| "flag_nth (v # vs) (Suc n) d = flag_nth vs n d"

definition pref_of_flags :: "bool option \<Rightarrow> bool option \<Rightarrow> bool option \<Rightarrow> scope_pref option" where
  "pref_of_flags r w a =
     Option.bind r (\<lambda>r. Option.bind w (\<lambda>w. map_option (\<lambda>a.
       \<lparr>pref_read = r, pref_write = w, pref_admin = a\<rparr>) a))"

definition pref_from_value :: "json \<Rightarrow> scope_pref option" where
  "pref_from_value v =
     (case v of
        JObj m \<Rightarrow> pref_of_flags (flag_at m ''read'' True) (flag_at m ''write'' True) (flag_at m ''admin'' False)
      | JArr vs \<Rightarrow>
          (if length vs \<le> 3
           then pref_of_flags (flag_nth vs 0 True) (flag_nth vs 1 True) (flag_nth vs 2 False)
           else None)
      | _ \<Rightarrow> None)"

definition pref_to_value :: "scope_pref \<Rightarrow> json" where
  "pref_to_value p =
     JObj (obj_of [(''read'', JBool (pref_read p)), (''write'', JBool (pref_write p)),
                   (''admin'', JBool (pref_admin p))])"

record 's prefs_store =
  ps_get :: "str \<Rightarrow> ('s, sync_error, json option) op"
  ps_set :: "str \<Rightarrow> json \<Rightarrow> ('s, sync_error, unit) op"

definition load_pref :: "(json \<Rightarrow> str) \<Rightarrow> 's prefs_store \<Rightarrow> str \<Rightarrow> ('s, sync_error, scope_pref) op" where
  "load_pref refusal ps toolkit =
     (let key = pref_key toolkit in
      bindO (ps_get ps key) (\<lambda>found. case found of
        None \<Rightarrow> retO default_pref
      | Some v \<Rightarrow> (case pref_from_value v of
          Some p \<Rightarrow> retO p
        | None \<Rightarrow> failO (Decode_stored key (refusal v)))))"

definition save_pref :: "'s prefs_store \<Rightarrow> scope_pref \<Rightarrow> str \<Rightarrow> ('s, sync_error, unit) op" where
  "save_pref ps p toolkit = ps_set ps (pref_key toolkit) (pref_to_value p)"

section \<open>How a preference is stored\<close>

definition non_object_field :: str where "non_object_field = ''non_object_value''"

definition encode_preference :: "json \<Rightarrow> json" where
  "encode_preference v =
     (case v of
        JObj m \<Rightarrow> (if map_of m non_object_field = None then v else JObj [(non_object_field, v)])
      | other \<Rightarrow> JObj [(non_object_field, other)])"

definition decode_preference :: "json \<Rightarrow> json" where
  "decode_preference body =
     (case body of
        JObj m \<Rightarrow>
          (if length m = 1 \<and> map_of m non_object_field \<noteq> None
           then unwrap_or JNull (map_of m non_object_field)
           else body)
      | other \<Rightarrow> other)"

lemma decode_preference_encode: "decode_preference (encode_preference v) = v"
  by (cases v) (auto simp: encode_preference_def decode_preference_def)

interpretation stored: codec encode_preference decode_preference "\<lambda>v. v"
  by unfold_locales (simp_all add: decode_preference_encode)

section \<open>Document ids\<close>

fun escape_char :: "bool \<Rightarrow> char \<Rightarrow> str" where
  "escape_char first c =
     (if c = CHR ''%'' then ''%25''
      else if c = CHR ''/'' then ''%2F''
      else if c = CHR 0x00 then ''%00''
      else if c = CHR ''~'' \<and> first then ''%7E''
      else [c])"

fun escape_part :: "bool \<Rightarrow> str \<Rightarrow> str" where
  "escape_part first [] = []"
| "escape_part first (c # cs) = escape_char first c @ escape_part False cs"

fun escape_parts :: "str list \<Rightarrow> str" where
  "escape_parts [] = []"
| "escape_parts (p # ps) = escape_part True p @ concat (map (\<lambda>q. CHR ''/'' # escape_part False q) ps)"

text \<open>
  \<open>mk_key\<close> is the port's own key constructor, \<open>digest\<close> the lowercase base-32 text of the
  SHA-256 of its argument.
\<close>

definition legacy_key :: "(str \<Rightarrow> str) \<Rightarrow> (str \<Rightarrow> str + str) \<Rightarrow> str list \<Rightarrow> str + str" where
  "legacy_key digest mk_key parts =
     (if parts = [] then Inl ''a key needs at least one part''
      else
        (let escaped = escape_parts parts in
         mk_key (if 512 < length escaped then CHR ''~'' # digest escaped else escaped)))"

section \<open>The store over documents\<close>

definition prefs_namespace :: str where "prefs_namespace = ''connectors.user_scopes''"

definition prefs_schema_version :: nat where "prefs_schema_version = 2"

text \<open>
  A document port: \<open>doc_get collection id\<close> answers the stored body if there is one, and
  \<open>doc_put collection id body schema\<close> replaces it without a precondition. Failures carry the
  port's text.
\<close>

record 's doc_port =
  doc_get :: "str \<Rightarrow> str \<Rightarrow> ('s, str, json option) op"
  doc_put :: "str \<Rightarrow> str \<Rightarrow> json \<Rightarrow> nat \<Rightarrow> ('s, str, unit) op"

definition failed :: "str \<Rightarrow> str \<Rightarrow> str \<Rightarrow> sync_error" where
  "failed key action err = Store key (''could not '' @ action @ '': '' @ err)"

definition document_id :: "(str \<Rightarrow> str) \<Rightarrow> (str \<Rightarrow> str + str) \<Rightarrow> str \<Rightarrow> sync_error + str" where
  "document_id digest mk_key key =
     (case legacy_key digest mk_key [key] of
        Inl e \<Rightarrow> Inl (failed key ''address the preference'' e)
      | Inr i \<Rightarrow> Inr i)"

definition document_get ::
  "(str \<Rightarrow> str) \<Rightarrow> (str \<Rightarrow> str + str) \<Rightarrow> 's doc_port \<Rightarrow> str \<Rightarrow> ('s, sync_error, json option) op" where
  "document_get digest mk_key port key =
     (case document_id digest mk_key key of
        Inl e \<Rightarrow> failO e
      | Inr i \<Rightarrow>
          bindO (map_errO (failed key ''read the preference'') (doc_get port prefs_namespace i))
            (\<lambda>found. retO (map_option decode_preference found)))"

definition document_set ::
  "(str \<Rightarrow> str) \<Rightarrow> (str \<Rightarrow> str + str) \<Rightarrow> 's doc_port \<Rightarrow> str \<Rightarrow> json \<Rightarrow> ('s, sync_error, unit) op" where
  "document_set digest mk_key port key v =
     (case document_id digest mk_key key of
        Inl e \<Rightarrow> failO e
      | Inr i \<Rightarrow>
          map_errO (failed key ''write the preference'')
            (doc_put port prefs_namespace i (encode_preference v) prefs_schema_version))"

definition document_prefs_store ::
  "(str \<Rightarrow> str) \<Rightarrow> (str \<Rightarrow> str + str) \<Rightarrow> 's doc_port \<Rightarrow> 's prefs_store" where
  "document_prefs_store digest mk_key port =
     \<lparr>ps_get = document_get digest mk_key port, ps_set = document_set digest mk_key port\<rparr>"

text \<open>The store the module runs with connects to the host's documents before each call.\<close>

definition link_failed :: "str \<Rightarrow> str \<Rightarrow> sync_error" where
  "link_failed key err = Store key (''could not connect to host storage: '' @ err)"

definition linked_get ::
  "(str \<Rightarrow> str) \<Rightarrow> (str \<Rightarrow> str + str) \<Rightarrow> ('s, str, 's doc_port) op \<Rightarrow> str \<Rightarrow> ('s, sync_error, json option) op" where
  "linked_get digest mk_key documents key =
     bindO (map_errO (link_failed key) documents) (\<lambda>port. document_get digest mk_key port key)"

definition linked_set ::
  "(str \<Rightarrow> str) \<Rightarrow> (str \<Rightarrow> str + str) \<Rightarrow> ('s, str, 's doc_port) op \<Rightarrow> str \<Rightarrow> json \<Rightarrow> ('s, sync_error, unit) op" where
  "linked_set digest mk_key documents key v =
     bindO (map_errO (link_failed key) documents) (\<lambda>port. document_set digest mk_key port key v)"

definition linked_prefs_store ::
  "(str \<Rightarrow> str) \<Rightarrow> (str \<Rightarrow> str + str) \<Rightarrow> ('s, str, 's doc_port) op \<Rightarrow> 's prefs_store" where
  "linked_prefs_store digest mk_key documents =
     \<lparr>ps_get = linked_get digest mk_key documents, ps_set = linked_set digest mk_key documents\<rparr>"

section \<open>The row that governs an action\<close>

text \<open>\<open>rmatch_indices('_')\<close>: the positions of underscores, last first.\<close>

definition underscore_ends :: "str \<Rightarrow> nat list" where
  "underscore_ends s = rev (filter (\<lambda>i. s ! i = CHR ''_'') [0..<length s])"

fun pref_loop :: "(json \<Rightarrow> str) \<Rightarrow> 's prefs_store \<Rightarrow> str \<Rightarrow> nat list \<Rightarrow> ('s, str, scope_pref) op" where
  "pref_loop refusal ps slug [] = retO default_pref"
| "pref_loop refusal ps slug (n # ns) =
     bindO (map_errO sync_error_text (ps_get ps (pref_key (take n slug)))) (\<lambda>found.
       if found \<noteq> None then map_errO sync_error_text (load_pref refusal ps (take n slug))
       else pref_loop refusal ps slug ns)"

definition pref_for :: "(json \<Rightarrow> str) \<Rightarrow> 's prefs_store \<Rightarrow> str \<Rightarrow> ('s, str, scope_pref) op" where
  "pref_for refusal ps action =
     (let slug = to_lower (trim action) in pref_loop refusal ps slug (underscore_ends slug))"

section \<open>Which toolkits a host offers\<close>

record offered_toolkits =
  allow :: "str list"
  deny :: "str list"

text \<open>
  \<open>offer_key\<close> drops underscores, dashes and white space, character by character, and lowers the
  rest.
\<close>

function offer_key :: "str \<Rightarrow> str" where
  "offer_key [] = []"
| "offer_key (c # cs) =
     (case skip_ws ws2 ws3 (c # cs) of
        Some rest \<Rightarrow> offer_key rest
      | None \<Rightarrow> if c = CHR ''_'' \<or> c = CHR ''-'' then offer_key cs else lower_char c # offer_key cs)"
  by pat_completeness auto
termination
  by (relation "measure length") (auto dest: skip_ws_length)

definition is_unrestricted :: "offered_toolkits \<Rightarrow> bool" where
  "is_unrestricted o_t \<longleftrightarrow> allow o_t = [] \<and> deny o_t = []"

definition offer_permits :: "offered_toolkits \<Rightarrow> str \<Rightarrow> bool" where
  "offer_permits o_t toolkit =
     (let wanted = offer_key toolkit in
      if list_ex (\<lambda>n. offer_key n = wanted) (deny o_t) then False
      else allow o_t = [] \<or> list_ex (\<lambda>n. offer_key n = wanted) (allow o_t))"

section \<open>Laws\<close>

lemma pref_value_round: "pref_from_value (pref_to_value p) = Some p"
  by (cases p) (simp add: pref_to_value_def pref_from_value_def pref_of_flags_def flag_at_def obj_of_def)

lemma encode_is_object: "wf_json v \<Longrightarrow> \<exists>m. encode_preference v = JObj m \<and> wf_json (JObj m)"
  by (cases v) (auto simp: encode_preference_def)

lemma escape_char_inj:
  "escape_char f c @ x = escape_char f d @ y \<Longrightarrow> c = d \<and> x = y"
  by (auto split: if_splits)

lemma escape_part_inj: "escape_part f a = escape_part f b \<Longrightarrow> a = b"
proof (induction a arbitrary: f b)
  case Nil
  then show ?case by (cases b) (auto split: if_splits)
next
  case (Cons c a)
  show ?case
  proof (cases b)
    case Nil
    with Cons.prems show ?thesis by (auto split: if_splits)
  next
    case b: (Cons d b')
    with Cons.prems have "c = d \<and> escape_part False a = escape_part False b'"
      by (intro escape_char_inj [of f]) simp
    with Cons.IH b show ?thesis by blast
  qed
qed

lemma escape_part_length: "length (escape_part f s) \<le> 3 * length s"
proof (induction f s rule: escape_part.induct)
  case (2 first c cs)
  have "length (escape_char first c) \<le> 3" by simp
  with 2 show ?case by (simp del: escape_char.simps)
qed simp

definition short_key :: "str \<Rightarrow> bool" where
  "short_key k \<longleftrightarrow> length k \<le> 170"

lemma legacy_key_short:
  "short_key k \<Longrightarrow> legacy_key digest mk_key [k] = mk_key (escape_part True k)"
  using escape_part_length [of True k] by (simp add: legacy_key_def short_key_def)

text \<open>What the code relies on of a document port and of its keys.\<close>

definition exact_keys :: "(str \<Rightarrow> str + str) \<Rightarrow> bool" where
  "exact_keys mk_key \<longleftrightarrow> (\<forall>a k. mk_key a = Inr k \<longrightarrow> k = a)"

definition port_keeps :: "'s doc_port \<Rightarrow> bool" where
  "port_keeps port \<longleftrightarrow>
     (\<forall>c i body v s s'. doc_put port c i body v s = (Inr (), s') \<longrightarrow>
        (\<forall>j. fst (doc_get port c j s') = (if j = i then Inr (Some body) else fst (doc_get port c j s))))"

lemma map_errO_Inr: "map_errO g m s = (Inr a, s') \<longleftrightarrow> m s = (Inr a, s')"
  by (auto simp: map_errO_def split: prod.splits sum.splits)

lemma fst_map_errO: "fst (map_errO g m s) = (case fst (m s) of Inl e \<Rightarrow> Inl (g e) | Inr a \<Rightarrow> Inr a)"
  by (auto simp: map_errO_def split: prod.splits sum.splits)

lemma fst_bind_ret: "fst (bindO m (\<lambda>a. retO (g a)) s) = (case fst (m s) of Inl e \<Rightarrow> Inl e | Inr a \<Rightarrow> Inr (g a))"
  by (auto simp: bindO_def retO_def split: prod.splits sum.splits)

lemma fst_load_pref:
  "fst (load_pref refusal ps toolkit s) =
     (case fst (ps_get ps (pref_key toolkit) s) of
        Inl e \<Rightarrow> Inl e
      | Inr None \<Rightarrow> Inr default_pref
      | Inr (Some v) \<Rightarrow> (case pref_from_value v of
          Some p \<Rightarrow> Inr p
        | None \<Rightarrow> Inl (Decode_stored (pref_key toolkit) (refusal v))))"
  by (auto simp: load_pref_def eff Let_def split: prod.splits sum.splits option.splits)

text \<open>A document written under one key is what is read under it, and no other key changes.\<close>

lemma document_get_after_set:
  assumes "exact_keys mk_key" "port_keeps port" "short_key k" "short_key k'"
    and "document_set digest mk_key port k v s = (Inr (), s')"
  shows "fst (document_get digest mk_key port k' s') =
    (if k' = k then Inr (Some v) else fst (document_get digest mk_key port k' s))"
proof -
  from assms(3,5) obtain i where i: "mk_key (escape_part True k) = Inr i" and
    put: "doc_put port prefs_namespace i (encode_preference v) prefs_schema_version s = (Inr (), s')"
    by (auto simp: document_set_def document_id_def legacy_key_short failO_def map_errO_Inr
        split: sum.splits)
  have get: "fst (doc_get port prefs_namespace j s') =
      (if j = i then Inr (Some (encode_preference v)) else fst (doc_get port prefs_namespace j s))" for j
    using assms(2) put unfolding port_keeps_def by blast
  show ?thesis
  proof (cases "mk_key (escape_part True k')")
    case (Inl e)
    with assms(4) i show ?thesis
      by (auto simp: document_get_def document_id_def legacy_key_short failO_def)
  next
    case (Inr j)
    then have "j = i \<longleftrightarrow> k' = k"
      using assms(1) i unfolding exact_keys_def by (metis escape_part_inj sum.inject(2))
    with assms(4) Inr get show ?thesis
      by (auto simp: document_get_def document_id_def legacy_key_short fst_bind_ret fst_map_errO
          decode_preference_encode split: sum.splits)
  qed
qed

lemma underscore_ends_mem: "n \<in> set (underscore_ends s) \<longleftrightarrow> n < length s \<and> s ! n = CHR ''_''"
  by (auto simp: underscore_ends_def)

lemma underscore_ends_sorted: "sorted_wrt (>) (underscore_ends s)"
  by (simp add: underscore_ends_def sorted_wrt_rev sorted_wrt_filter)

text \<open>A store whose reads are those of a fixed view and change nothing.\<close>

definition reads_as :: "'s prefs_store \<Rightarrow> (str \<Rightarrow> sync_error + json option) \<Rightarrow> bool" where
  "reads_as ps v \<longleftrightarrow> (\<forall>k s. ps_get ps k s = (v k, s))"

definition row_result :: "(json \<Rightarrow> str) \<Rightarrow> str \<Rightarrow> sync_error + json option \<Rightarrow> str + scope_pref" where
  "row_result refusal key found =
     (case found of
        Inl e \<Rightarrow> Inl (sync_error_text e)
      | Inr None \<Rightarrow> Inr default_pref
      | Inr (Some v) \<Rightarrow> (case pref_from_value v of
          Some p \<Rightarrow> Inr p
        | None \<Rightarrow> Inl (sync_error_text (Decode_stored key (refusal v)))))"

lemma pref_loop_find:
  assumes "reads_as ps v"
  shows "pref_loop refusal ps slug ns s =
    (case find (\<lambda>n. v (pref_key (take n slug)) \<noteq> Inr None) ns of
       None \<Rightarrow> (Inr default_pref, s)
     | Some n \<Rightarrow> (row_result refusal (pref_key (take n slug)) (v (pref_key (take n slug))), s))"
  using assms
  by (induction ns)
    (auto simp: reads_as_def eff load_pref_def row_result_def Let_def split: sum.splits option.splits)

lemma find_longest:
  assumes "sorted_wrt (>) ns" "n \<in> set ns" "P n" "\<And>m. m \<in> set ns \<Longrightarrow> n < m \<Longrightarrow> \<not> P m"
  shows "find P ns = Some n"
  using assms
  by (induction ns) auto

section \<open>Properties\<close>

text \<open>
  Every preference value is stored as a JSON object and read back as the same value, so two
  different values never share a stored form.
\<close>

theorem preference_storage_lossless:
  "decode_preference (encode_preference v) = v \<and>
   as_object (encode_preference v) \<noteq> None \<and>
   (encode_preference v = encode_preference w) = (v = w)"
  using stored.enc_inj by (auto simp: decode_preference_encode) (cases v; auto simp: encode_preference_def)

text \<open>
  C36. A preference saved for a toolkit through the document store is the one loaded for it under
  any spelling of its name, and no other toolkit's preference changes; nothing is lost by the
  storage form or the escaped document id.
\<close>

theorem saved_preference_loads:
  assumes "exact_keys mk_key" "port_keeps port"
    and "short_key (pref_key toolkit)" "short_key (pref_key other)"
    and "save_pref (document_prefs_store digest mk_key port) p toolkit s = (Inr (), s')"
  shows "fst (load_pref refusal (document_prefs_store digest mk_key port) other s') =
    (if pref_key other = pref_key toolkit then Inr p
     else fst (load_pref refusal (document_prefs_store digest mk_key port) other s))"
  using document_get_after_set [OF assms(1-4), of digest "pref_to_value p" s s'] assms(5)
  by (simp add: save_pref_def document_prefs_store_def fst_load_pref pref_value_round)

definition map_port :: "(str \<times> str \<Rightarrow> json option) doc_port" where
  "map_port = \<lparr>doc_get = \<lambda>c i m. (Inr (m (c, i)), m),
               doc_put = \<lambda>c i body v m. (Inr (), m((c, i) \<mapsto> body))\<rparr>"

theorem saved_preference_loads_witness:
  "fst (load_pref (\<lambda>_. []) (document_prefs_store (\<lambda>d. d) Inr map_port) '' Gmail''
     (snd (save_pref (document_prefs_store (\<lambda>d. d) Inr map_port)
       \<lparr>pref_read = True, pref_write = False, pref_admin = False\<rparr> ''GMAIL'' Map.empty))) =
   Inr \<lparr>pref_read = True, pref_write = False, pref_admin = False\<rparr>"
proof -
  let ?ps = "document_prefs_store (\<lambda>d. d) Inr map_port"
  let ?p = "\<lparr>pref_read = True, pref_write = False, pref_admin = False\<rparr>"
  have port: "port_keeps map_port" by (auto simp: port_keeps_def map_port_def)
  have keys: "exact_keys Inr" by (simp add: exact_keys_def)
  have key: "pref_key ''GMAIL'' = ''gmail''" "pref_key '' Gmail'' = ''gmail''" by code_simp+
  have short: "short_key (pref_key ''GMAIL'')" "short_key (pref_key '' Gmail'')"
    by (simp_all add: key short_key_def)
  have "fst (save_pref ?ps ?p ''GMAIL'' Map.empty) = Inr ()"
    using short by (simp add: save_pref_def document_prefs_store_def document_set_def document_id_def
        legacy_key_short map_port_def map_errO_def)
  then have "save_pref ?ps ?p ''GMAIL'' Map.empty = (Inr (), snd (save_pref ?ps ?p ''GMAIL'' Map.empty))"
    by (metis prod.collapse)
  from saved_preference_loads [OF keys port short this, of "\<lambda>_. []"] show ?thesis by (simp add: key)
qed

text \<open>
  C37. Which stored row governs an action: the one of the longest name, ending before an
  underscore of the slug, whose read does not say "never written". A store failure or an
  unreadable row there is a refusal, never a permission; when no such name exists the default
  applies.
\<close>

theorem governing_preference:
  assumes "reads_as ps v" "slug = to_lower (trim action)"
  shows "if list_all (\<lambda>n. v (pref_key (take n slug)) = Inr None) (underscore_ends slug)
         then fst (pref_for refusal ps action s) = Inr default_pref
         else \<exists>n. n < length slug \<and> slug ! n = CHR ''_'' \<and> v (pref_key (take n slug)) \<noteq> Inr None \<and>
           list_all (\<lambda>m. m \<le> n \<or> v (pref_key (take m slug)) = Inr None) (underscore_ends slug) \<and>
           fst (pref_for refusal ps action s) =
             row_result refusal (pref_key (take n slug)) (v (pref_key (take n slug)))"
proof (cases "list_all (\<lambda>n. v (pref_key (take n slug)) = Inr None) (underscore_ends slug)")
  case True
  then have "find (\<lambda>n. v (pref_key (take n slug)) \<noteq> Inr None) (underscore_ends slug) = None"
    by (simp add: find_None_iff list_all_iff)
  with True assms show ?thesis by (simp add: pref_for_def pref_loop_find Let_def)
next
  case False
  let ?P = "\<lambda>n. v (pref_key (take n slug)) \<noteq> Inr None"
  let ?ns = "filter ?P (underscore_ends slug)"
  define n where "n = Max (set ?ns)"
  from False have ne: "set ?ns \<noteq> {}" by (auto simp: list_all_iff)
  then have n: "n \<in> set ?ns" unfolding n_def by (intro Max_in) simp_all
  have top: "\<And>m. m \<in> set (underscore_ends slug) \<Longrightarrow> n < m \<Longrightarrow> \<not> ?P m"
    using Max_ge [of "set ?ns"] unfolding n_def [symmetric] by fastforce
  have "find ?P (underscore_ends slug) = Some n"
    using n top by (intro find_longest) (auto simp: underscore_ends_sorted)
  then have "fst (pref_for refusal ps action s) =
      row_result refusal (pref_key (take n slug)) (v (pref_key (take n slug)))"
    using assms by (simp add: pref_for_def pref_loop_find Let_def)
  moreover have "list_all (\<lambda>m. m \<le> n \<or> v (pref_key (take m slug)) = Inr None) (underscore_ends slug)"
    unfolding list_all_iff using top by (meson not_le)
  ultimately show ?thesis using n False by (auto simp: underscore_ends_mem)
qed

text \<open>A read-only row saved for a toolkit whose name holds an underscore governs its actions.\<close>

definition zoho_view :: "str \<Rightarrow> sync_error + json option" where
  "zoho_view k = (if k = ''zoho_books'' then Inr (Some (JObj [(''write'', JBool False)])) else Inr None)"

definition view_store :: "(str \<Rightarrow> sync_error + json option) \<Rightarrow> unit prefs_store" where
  "view_store v = \<lparr>ps_get = \<lambda>k s. (v k, s), ps_set = \<lambda>k x s. (Inr (), s)\<rparr>"

theorem governing_preference_witness:
  "let slug = to_lower (trim '' ZOHO_BOOKS_ITEM'') in
   if list_all (\<lambda>n. zoho_view (pref_key (take n slug)) = Inr None) (underscore_ends slug)
   then fst (pref_for (\<lambda>_. []) (view_store zoho_view) '' ZOHO_BOOKS_ITEM'' ()) = Inr default_pref
   else \<exists>n. n < length slug \<and> slug ! n = CHR ''_'' \<and> zoho_view (pref_key (take n slug)) \<noteq> Inr None \<and>
     list_all (\<lambda>m. m \<le> n \<or> zoho_view (pref_key (take m slug)) = Inr None) (underscore_ends slug) \<and>
     fst (pref_for (\<lambda>_. []) (view_store zoho_view) '' ZOHO_BOOKS_ITEM'' ()) =
       row_result (\<lambda>_. []) (pref_key (take n slug)) (zoho_view (pref_key (take n slug)))"
  unfolding Let_def
  by (rule governing_preference) (simp_all add: reads_as_def view_store_def)

end
