(* ===== verification/Vocabulary.thy ===== *)
theory Vocabulary
  imports Catalogs Prefs
begin

text \<open>
  The compiled vocabulary members over the catalogs:
  \<open>crates/tinyconnectors/src/vocabulary/{mod,scopes}.rs\<close>, \<open>vocabulary/catalogs/mod.rs\<close>, the
  capability descriptions of \<open>toolkits/catalog/descriptions.rs\<close> and the confirmed-read test of
  \<open>crates/tinyconnectors/src/contracts/mod.rs\<close>.
\<close>

section \<open>Descriptions\<close>

definition toolkit_descriptions :: "(str list \<times> str) list" where
  "toolkit_descriptions =
     [([''gmail''],
       ''Send, read, draft, reply, forward, and search emails; manage labels and threads''),
      ([''notion''], ''Create, read, update, and search notion pages and notion databases''),
      ([''github''],
       ''Manage repositories, issues, and pull requests on GitHub; can be '' @
       ''synced into memory as a document source''),
      ([''slack''], ''Send messages, read channels, manage threads, and post updates in Slack''),
      ([''discord''], ''Send messages, manage channels, and interact with Discord servers''),
      ([''google_calendar'', ''googlecalendar''],
       ''Create, update, and query calendar events; check availability''),
      ([''google_drive'', ''googledrive''],
       ''Upload, download, search, and share files in Google Drive''),
      ([''google_docs'', ''googledocs''], ''Create, read, and edit Google Docs documents''),
      ([''google_sheets'', ''googlesheets''],
       ''Read, write, and manage Google Sheets spreadsheets''),
      ([''outlook''], ''Send, read, and manage emails in Microsoft Outlook''),
      ([''microsoft'', ''microsoft_teams''],
       ''Send messages and manage channels in Microsoft Teams''),
      ([''larksuite''],
       ''Connect Lark / Feishu workspace chat, docs, wiki, and meetings via Composio''),
      ([''linear''],
       ''Create, read, and manage issues, projects, and cycles in Linear; can be '' @
       ''synced into memory as a document source''),
      ([''jira''], ''Create and manage issues, projects, and sprints in Jira''),
      ([''trello''], ''Create and manage cards, lists, and boards in Trello''),
      ([''asana''], ''Create and manage tasks, projects, and sections in Asana''),
      ([''clickup''],
       ''Create, read, and manage tasks, lists, and docs in ClickUp; can be '' @
       ''synced into memory as a document source''),
      ([''dropbox''], ''Upload, download, and share files in Dropbox''),
      ([''twitter''], ''Post tweets, read timelines, and manage Twitter interactions''),
      ([''spotify''], ''Control playback, search music, and manage playlists on Spotify''),
      ([''telegram''], ''Send and receive messages via Telegram''),
      ([''whatsapp''], ''Send and receive messages via WhatsApp''),
      ([''twilio''], ''Send SMS, make calls, and manage communications via Twilio''),
      ([''shopify''], ''Manage products, orders, and customers in Shopify''),
      ([''stripe''], ''Manage payments, subscriptions, and customers in Stripe''),
      ([''hubspot''], ''Manage contacts, deals, and marketing in HubSpot''),
      ([''salesforce''], ''Manage contacts, leads, and opportunities in Salesforce''),
      ([''airtable''], ''Read and write records in Airtable bases''),
      ([''figma''], ''Access and manage Figma design files and components''),
      ([''youtube''], ''Search videos, manage playlists, and interact with YouTube''),
      ([''calendar''], ''Create, update, and query calendar events''),
      ([''one_drive'', ''onedrive'', ''one''],
       ''Upload, download, search, and share files in Microsoft OneDrive''),
      ([''excel''], ''Read, write, and manage workbooks, worksheets, and tables in Microsoft Excel''),
      ([''todoist''], ''Create and manage tasks, projects, sections, and labels in Todoist'')]"

definition toolkit_description :: "str \<Rightarrow> str" where
  "toolkit_description slug =
     unwrap_or ''Interact with this connected service via its available actions''
       (first_some (\<lambda>(names, d). if List.member names slug then Some d else None) toolkit_descriptions)"

section \<open>Agent-ready names\<close>

definition agent_ready_listed :: "str list" where
  "agent_ready_listed =
     [''gmail'', ''notion'', ''github'', ''clickup'', ''slack'', ''discord'', ''googlecalendar'',
      ''google_calendar'', ''googledrive'', ''google_drive'', ''googledocs'', ''google_docs'',
      ''googlesheets'', ''google_sheets'', ''outlook'', ''microsoft_teams'', ''microsoft'',
      ''linear'', ''jira'', ''trello'', ''asana'', ''dropbox'', ''twitter'', ''spotify'',
      ''telegram'', ''whatsapp'', ''shopify'', ''stripe'', ''hubspot'', ''salesforce'',
      ''airtable'', ''figma'', ''youtube'', ''one_drive'', ''onedrive'', ''one'', ''excel'', ''todoist'']"

definition agent_ready_toolkits :: "str list" where
  "agent_ready_toolkits = sort agent_ready_listed"

section \<open>Visibility and scope of an action\<close>

definition is_action_visible_with_pref :: "str \<Rightarrow> scope_pref \<Rightarrow> bool" where
  "is_action_visible_with_pref slug pref =
     (case bus_toolkit_from_slug slug of
        None \<Rightarrow> True
      | Some toolkit \<Rightarrow>
         (case catalog_for_toolkit toolkit of
            Some cat \<Rightarrow> (case find_curated cat slug of
                Some curated \<Rightarrow> allows pref (snd curated)
              | None \<Rightarrow> False)
          | None \<Rightarrow> allows pref (bus_classify_unknown slug)))"

definition curated_scope_for :: "str \<Rightarrow> tool_scope option" where
  "curated_scope_for slug =
     Option.bind (bus_toolkit_from_slug slug) (\<lambda>toolkit.
       Option.bind (catalog_for_toolkit toolkit) (\<lambda>cat.
         map_option snd (find_curated cat slug)))"

definition resolve_action_scope :: "str \<Rightarrow> tool_scope option" where
  "resolve_action_scope slug =
     Option.bind (bus_toolkit_from_slug slug) (\<lambda>toolkit.
       case catalog_for_toolkit toolkit of
         Some cat \<Rightarrow> map_option snd (find_curated cat slug)
       | None \<Rightarrow> Some (bus_classify_unknown slug))"

section \<open>The members\<close>

record toolkit_vocabulary =
  tv_toolkit :: str
  tv_description :: str
  tv_native_provider :: bool
  tv_actions :: "(str \<times> tool_scope) list option"

definition vocabulary_of :: "str \<Rightarrow> toolkit_vocabulary" where
  "vocabulary_of toolkit =
     (let lookup = to_lower (trim toolkit) in
      \<lparr>tv_toolkit = toolkit, tv_description = toolkit_description lookup,
       tv_native_provider = has_native_provider lookup, tv_actions = catalog_for_toolkit lookup\<rparr>)"

definition get_vocabulary :: "str list \<Rightarrow> toolkit_vocabulary list \<times> str list" where
  "get_vocabulary toolkits = (map vocabulary_of toolkits, agent_ready_toolkits)"

record curated_tool =
  cu_toolkit :: str
  cu_slug :: str
  cu_scope :: tool_scope

definition curated_rows :: "str \<Rightarrow> catalog \<Rightarrow> curated_tool list" where
  "curated_rows toolkit cat =
     map (\<lambda>a. \<lparr>cu_toolkit = toolkit, cu_slug = fst a, cu_scope = snd a\<rparr>) cat"

definition list_curated_catalog :: "str option \<Rightarrow> curated_tool list" where
  "list_curated_catalog request =
     concat (map (\<lambda>toolkit. curated_rows toolkit (unwrap_or [] (catalog_for_toolkit toolkit)))
       (case request of Some toolkit \<Rightarrow> [to_lower (trim toolkit)] | None \<Rightarrow> curated_toolkits))"

record visible_tools =
  vt_toolkit :: str
  vt_preference :: scope_pref
  vt_has_catalog :: bool
  vt_tools :: "curated_tool list"

definition list_visible_tools :: "str \<Rightarrow> scope_pref \<Rightarrow> visible_tools" where
  "list_visible_tools toolkit preference =
     (let cat = catalog_for_toolkit toolkit in
      \<lparr>vt_toolkit = toolkit, vt_preference = preference, vt_has_catalog = (cat \<noteq> None),
       vt_tools = curated_rows toolkit (filter (\<lambda>a. allows preference (snd a)) (unwrap_or [] cat))\<rparr>)"

datatype unknown_scope_profile = Substring_Compatibility | Leading_Verb

record action_request =
  aq_slug :: str
  aq_preference :: scope_pref
  aq_profile :: unknown_scope_profile
  aq_compare_with :: "str option"

record action_response =
  an_toolkit :: "str option"
  an_canonical_slug :: "str option"
  an_curated_scope :: "tool_scope option"
  an_scope :: tool_scope
  an_visible :: bool
  an_matches :: "bool option"

definition evaluate_action :: "action_request \<Rightarrow> action_response" where
  "evaluate_action q =
     (let canonical = canonical_action_slug (aq_slug q);
          slug = unwrap_or (aq_slug q) canonical;
          toolkit = bus_toolkit_from_slug slug;
          curated = curated_scope_for slug;
          scope = (case curated of Some s \<Rightarrow> s
            | None \<Rightarrow> (case aq_profile q of
                Substring_Compatibility \<Rightarrow> bus_classify_unknown slug
              | Leading_Verb \<Rightarrow> sync_classify_unknown slug))
      in
      \<lparr>an_toolkit = toolkit, an_canonical_slug = canonical, an_curated_scope = curated, an_scope = scope,
       an_visible =
         (if aq_profile q = Substring_Compatibility
          then is_action_visible_with_pref slug (aq_preference q)
          else (case toolkit of
              None \<Rightarrow> True
            | Some t \<Rightarrow> (catalog_for_toolkit t = None \<or> curated \<noteq> None) \<and> allows (aq_preference q) scope)),
       an_matches = map_option (action_slug_matches (aq_slug q)) (aq_compare_with q)\<rparr>)"

definition evaluate_actions :: "action_request list \<Rightarrow> action_response list" where
  "evaluate_actions requests = map evaluate_action requests"

section \<open>Laws\<close>

lemma first_some_names:
  "first_some (\<lambda>(names, c). if List.member names k then Some c else None) L \<noteq> None \<longleftrightarrow>
   List.member (concat (map fst L)) k"
  by (induction L) (auto split: option.splits)

lemma arm_names: "set (concat (map fst catalog_arms)) = set agent_ready_listed"
  unfolding catalog_arms_def agent_ready_listed_def
  by (simp only: list.map fst_conv concat.simps append.simps list.set) (simp only: insert_commute)

lemma agent_ready_names:
  "List.member agent_ready_toolkits k \<longleftrightarrow> List.member (concat (map fst catalog_arms)) k"
  using arm_names by (simp add: agent_ready_toolkits_def)

lemma curated_scope_unfold:
  assumes "bus_toolkit_from_slug slug = Some t" "catalog_for_toolkit t = Some cat"
  shows "curated_scope_for slug = map_option snd (find_curated cat slug)"
    and "resolve_action_scope slug = map_option snd (find_curated cat slug)"
    and "is_action_visible_with_pref slug pref =
      (case find_curated cat slug of None \<Rightarrow> False | Some e \<Rightarrow> allows pref (snd e))"
  using assms
  by (simp_all add: curated_scope_for_def resolve_action_scope_def is_action_visible_with_pref_def)

lemma filter_map_fst: "(\<And>e. e \<in> set xs \<Longrightarrow> P (fst e) = Q e) \<Longrightarrow> filter P (map fst xs) = map fst (filter Q xs)"
  by (induction xs) auto

section \<open>Properties\<close>

text \<open>
  A toolkit name has a curated catalog exactly when its trimmed lowercase form is on the
  agent-ready list, which is sorted and names nothing twice.
\<close>

theorem agent_ready_exact:
  "(catalog_for_toolkit t \<noteq> None) = List.member agent_ready_toolkits (to_lower (trim t)) \<and>
   sorted agent_ready_toolkits \<and> distinct agent_ready_toolkits"
proof (intro conjI)
  show "(catalog_for_toolkit t \<noteq> None) = List.member agent_ready_toolkits (to_lower (trim t))"
    unfolding catalog_for_toolkit_def Let_def agent_ready_names by (rule first_some_names)
  have "distinct agent_ready_listed" by (simp add: agent_ready_listed_def)
  then show "sorted agent_ready_toolkits" "distinct agent_ready_toolkits"
    by (simp_all add: agent_ready_toolkits_def)
qed

text \<open>
  Under either classifier profile an evaluated action is reported visible by one rule: a slug
  without a toolkit is visible, and any other exactly when its toolkit has no catalog or the
  catalog lists it, and the preference allows the scope that is reported with it.
\<close>

theorem evaluated_visibility_rule:
  "an_visible (evaluate_action q) =
     (case an_toolkit (evaluate_action q) of
        None \<Rightarrow> True
      | Some t \<Rightarrow>
          (if catalog_for_toolkit t = None then True else an_curated_scope (evaluate_action q) \<noteq> None) \<and>
          allows (aq_preference q) (an_scope (evaluate_action q)))"
proof -
  define slug where "slug = unwrap_or (aq_slug q) (canonical_action_slug (aq_slug q))"
  show ?thesis
  proof (cases "bus_toolkit_from_slug slug")
    case None
    then show ?thesis
      by (simp add: evaluate_action_def Let_def slug_def [symmetric] is_action_visible_with_pref_def)
  next
    case t: (Some t)
    show ?thesis
    proof (cases "catalog_for_toolkit t")
      case None
      with t show ?thesis
        by (cases "aq_profile q")
          (simp_all add: evaluate_action_def Let_def slug_def [symmetric]
            is_action_visible_with_pref_def curated_scope_for_def)
    next
      case (Some cat)
      with t show ?thesis
        by (cases "find_curated cat slug"; cases "aq_profile q")
          (simp_all add: evaluate_action_def Let_def slug_def [symmetric] curated_scope_unfold)
    qed
  qed
qed

text \<open>
  Listing the visible tools of a curated toolkit gives exactly the actions of its catalog that
  are visible one by one under the same preference, in catalog order.
\<close>

theorem visible_tools_agree:
  "list_all (\<lambda>t. case catalog_for_toolkit t of
       None \<Rightarrow> False
     | Some cat \<Rightarrow> vt_has_catalog (list_visible_tools t p) \<and>
         map cu_slug (vt_tools (list_visible_tools t p)) =
         filter (\<lambda>s. is_action_visible_with_pref s p) (map fst cat))
     curated_toolkits"
  unfolding list_all_iff
proof
  fix t assume "t \<in> set curated_toolkits"
  then obtain cat where c: "catalog_for_toolkit t = Some cat" "table_ok (t, cat)" "family_ok t"
    by (rule curated_table)
  have "is_action_visible_with_pref (fst e) p = allows p (snd e)" if "e \<in> set cat" for e
    using curated_scope_unfold(3) [OF entry_attributed(2) [OF c(2,3) that] c(1)]
      find_curated_entry [OF c(2,3) that] by simp
  then show "case catalog_for_toolkit t of
       None \<Rightarrow> False
     | Some cat \<Rightarrow> vt_has_catalog (list_visible_tools t p) \<and>
         map cu_slug (vt_tools (list_visible_tools t p)) =
         filter (\<lambda>s. is_action_visible_with_pref s p) (map fst cat)"
    by (simp add: c(1) list_visible_tools_def curated_rows_def Let_def comp_def
        filter_map_fst [where Q = "\<lambda>e. allows p (snd e)"])
qed

end
