(* ===== verification/Contracts.thy ===== *)
theory Contracts
  imports Schema_Walk Vocabulary Types
begin

text \<open>
  Live tool contracts: shaping a listing into contracts, the caches with their lifetime and the
  probe overlay, of \<open>crates/tinyconnectors/src/contracts/mod.rs\<close>, with the payloads of
  \<open>crates/tinyconnectors-bus/src/composio/contract/types.rs\<close>. Time is a number of
  milliseconds, handed in by the caller. An operation runs to its end before the next starts; the
  locks that let two callers share one fetch are in \<open>Fetch_Race\<close>.
\<close>

record tool_contract =
  tc_slug :: str
  tc_toolkit :: str
  tc_description :: "str option"
  tc_required_args :: "str list"
  tc_input_schema :: "json option"
  tc_output_fields :: "str list"
  tc_output_schema :: "json option"
  tc_primary_array_path :: "str option"
  tc_is_curated :: bool

record probed_sample =
  pb_primary_array_path :: "str option"
  pb_output_fields :: "str list"
  pb_sample :: json

definition envelope_meta_keys_at_root :: "str list" where
  "envelope_meta_keys_at_root = [''successful'', ''error'', ''costUsd'', ''markdownFormatted'']"

section \<open>Caches\<close>

type_synonym 'v ttl_cache = "str \<Rightarrow> (nat \<times> 'v) option"

definition catalog_cache_ttl :: nat where "catalog_cache_ttl = 30 * 60 * 1000"

definition ttl_get :: "nat \<Rightarrow> nat \<Rightarrow> 'v ttl_cache \<Rightarrow> str \<Rightarrow> 'v option" where
  "ttl_get ttl now c key =
     Option.bind (c key) (\<lambda>(stored_at, v). if now - stored_at < ttl then Some v else None)"

definition ttl_insert :: "nat \<Rightarrow> 'v ttl_cache \<Rightarrow> str \<Rightarrow> 'v \<Rightarrow> 'v ttl_cache" where
  "ttl_insert now c key v = c(key \<mapsto> (now, v))"

record contract_caches =
  cc_ttl :: nat
  cc_catalogs :: "tool_contract list ttl_cache"
  cc_probes :: "probed_sample ttl_cache"

definition caches_with_ttl :: "nat \<Rightarrow> contract_caches" where
  "caches_with_ttl ttl = \<lparr>cc_ttl = ttl, cc_catalogs = Map.empty, cc_probes = Map.empty\<rparr>"

definition default_caches :: contract_caches where
  "default_caches = caches_with_ttl catalog_cache_ttl"

definition caches_clear :: "contract_caches \<Rightarrow> contract_caches" where
  "caches_clear cc = cc\<lparr>cc_catalogs := Map.empty, cc_probes := Map.empty\<rparr>"

definition cached_catalog :: "nat \<Rightarrow> contract_caches \<Rightarrow> str \<Rightarrow> tool_contract list option" where
  "cached_catalog now cc toolkit = ttl_get (cc_ttl cc) now (cc_catalogs cc) toolkit"

definition remember_catalog ::
  "nat \<Rightarrow> str \<Rightarrow> tool_contract list \<Rightarrow> contract_caches \<Rightarrow> contract_caches" where
  "remember_catalog now toolkit contracts cc =
     cc\<lparr>cc_catalogs := ttl_insert now (cc_catalogs cc) toolkit contracts\<rparr>"

definition remember_probe :: "nat \<Rightarrow> str \<Rightarrow> probed_sample \<Rightarrow> contract_caches \<Rightarrow> contract_caches" where
  "remember_probe now slug smp cc =
     cc\<lparr>cc_probes := ttl_insert now (cc_probes cc) (to_upper (trim slug)) (smp\<lparr>pb_sample := JNull\<rparr>)\<rparr>"

definition cached_probe :: "nat \<Rightarrow> contract_caches \<Rightarrow> str \<Rightarrow> probed_sample option" where
  "cached_probe now cc slug = ttl_get (cc_ttl cc) now (cc_probes cc) (to_upper (trim slug))"

definition apply_probe :: "nat \<Rightarrow> contract_caches \<Rightarrow> tool_contract \<Rightarrow> tool_contract" where
  "apply_probe now cc contract =
     (case cached_probe now cc (tc_slug contract) of
        None \<Rightarrow> contract
      | Some probe \<Rightarrow>
          (let c = contract\<lparr>tc_primary_array_path := pb_primary_array_path probe\<rparr> in
           if pb_output_fields probe \<noteq> [] then c\<lparr>tc_output_fields := pb_output_fields probe\<rparr> else c))"

section \<open>Shaping a listing\<close>

definition compute_composio_array_path :: "json option \<Rightarrow> str option" where
  "compute_composio_array_path schema = map_option (\<lambda>path. ''data.'' @ path) (compute_primary_array_path schema)"

definition required_args :: "json option \<Rightarrow> str list" where
  "required_args parameters =
     unwrap_or [] (map_option (filter_map as_str)
       (Option.bind (Option.bind parameters (\<lambda>p. jget p ''required'')) as_array))"

definition contract_of :: "str \<Rightarrow> tool_function \<Rightarrow> tool_contract" where
  "contract_of toolkit f =
     \<lparr>tc_slug = tf_name f,
      tc_toolkit = toolkit,
      tc_description = tf_description f,
      tc_required_args = required_args (tf_parameters f),
      tc_input_schema = tf_parameters f,
      tc_output_fields = response_fields_from_schema (tf_output_parameters f),
      tc_output_schema = tf_output_parameters f,
      tc_primary_array_path = compute_composio_array_path (tf_output_parameters f),
      tc_is_curated =
        (case catalog_for_toolkit toolkit of
           None \<Rightarrow> False
         | Some cat \<Rightarrow> find_curated cat (tf_name f) \<noteq> None)\<rparr>"

definition contracts_from_listing :: "str \<Rightarrow> tool_schema list \<Rightarrow> tool_contract list" where
  "contracts_from_listing toolkit listing = map (\<lambda>tool. contract_of toolkit (ts_function tool)) listing"

section \<open>Laws\<close>

lemma ttl_get_insert:
  "ttl_get ttl now (ttl_insert t c k v) k' =
     (if k' = k then (if now - t < ttl then Some v else None) else ttl_get ttl now c k')"
  by (simp add: ttl_get_def ttl_insert_def)

lemma ttl_expired: "t + ttl \<le> now \<Longrightarrow> c k = Some (t, v) \<Longrightarrow> ttl_get ttl now c k = None"
  by (auto simp: ttl_get_def)

lemma cached_probe_remember:
  "cached_probe now (remember_probe t slug smp cc) slug' =
     (if to_upper (trim slug') = to_upper (trim slug)
      then (if now - t < cc_ttl cc then Some (smp\<lparr>pb_sample := JNull\<rparr>) else None)
      else cached_probe now cc slug')"
  by (simp add: cached_probe_def remember_probe_def ttl_get_insert)

text \<open>Every state the caches go through: whatever is fetched, probed or forgotten, in any order.\<close>

inductive caches_step :: "contract_caches \<Rightarrow> contract_caches \<Rightarrow> bool" where
  clear: "caches_step cc (caches_clear cc)"
| catalog: "caches_step cc (remember_catalog now toolkit contracts cc)"
| probe: "caches_step cc (remember_probe now slug smp cc)"

inductive_cases caches_stepE: "caches_step cc cc'"

definition redacted :: "contract_caches \<Rightarrow> bool" where
  "redacted cc \<longleftrightarrow> (\<forall>k t smp. cc_probes cc k = Some (t, smp) \<longrightarrow> pb_sample smp = JNull)"

lemma redacted_step: "caches_step cc cc' \<Longrightarrow> redacted cc \<Longrightarrow> redacted cc'"
  by (erule caches_stepE)
    (auto simp: redacted_def caches_clear_def remember_catalog_def remember_probe_def ttl_insert_def)

lemma redacted_reachable: "caches_step\<^sup>*\<^sup>* (caches_with_ttl ttl) cc \<Longrightarrow> redacted cc"
proof (induction rule: rtranclp_induct)
  case base
  show ?case by (simp add: redacted_def caches_with_ttl_def)
qed (rule redacted_step)

text \<open>A contract read at \<open>now\<close> after a probe of \<open>slug\<close> was remembered at \<open>t\<close>.\<close>

definition probed_contract ::
  "nat \<Rightarrow> nat \<Rightarrow> str \<Rightarrow> probed_sample \<Rightarrow> contract_caches \<Rightarrow> tool_contract \<Rightarrow> tool_contract" where
  "probed_contract now t slug smp cc c = apply_probe now (remember_probe t slug smp cc) c"

section \<open>Properties\<close>

text \<open>
  Whatever sequence of fetches, probes and resets the caches go through, a cached probe never
  holds the response it was derived from: a caller who reads the cache sees no user data.
\<close>

theorem probe_cache_redacted:
  assumes "caches_step\<^sup>*\<^sup>* default_caches cc" "cached_probe now cc slug = Some smp"
  shows "pb_sample smp = JNull"
proof -
  have "redacted cc" using redacted_reachable assms(1) unfolding default_caches_def by blast
  then show ?thesis
    using assms(2) by (auto simp: cached_probe_def ttl_get_def redacted_def split: bind_splits if_splits)
qed

theorem probe_cache_redacted_witness:
  "pb_sample (the (cached_probe 5 (remember_probe 3 '' gmail_get_profile ''
     \<lparr>pb_primary_array_path = None, pb_output_fields = [''email''], pb_sample = JStr ''private''\<rparr> default_caches)
     ''GMAIL_GET_PROFILE'')) = JNull"
proof -
  let ?smp = "\<lparr>pb_primary_array_path = None, pb_output_fields = [''email''], pb_sample = JStr ''private''\<rparr>"
  let ?cc = "remember_probe 3 '' gmail_get_profile '' ?smp default_caches"
  have "caches_step\<^sup>*\<^sup>* default_caches ?cc" by (rule r_into_rtranclp, rule caches_step.probe)
  moreover have "to_upper (trim ''GMAIL_GET_PROFILE'') = to_upper (trim '' gmail_get_profile '')" by code_simp
  then have "cached_probe 5 ?cc ''GMAIL_GET_PROFILE'' = Some (?smp\<lparr>pb_sample := JNull\<rparr>)"
    by (simp add: cached_probe_remember default_caches_def caches_with_ttl_def catalog_cache_ttl_def)
  ultimately show ?thesis using probe_cache_redacted by fastforce
qed

text \<open>
  A probe is laid over the contract of its action under any spelling of the slug for exactly
  the cache's lifetime: it replaces the array path even by none, replaces the fields only when it
  saw some, leaves the rest of the contract alone, and laying it twice is laying it once.
\<close>

theorem probe_overlay:
  "if to_upper (trim (tc_slug c)) \<noteq> to_upper (trim slug)
   then probed_contract now t slug smp cc c = apply_probe now cc c
   else if cc_ttl cc \<le> now - t then probed_contract now t slug smp cc c = c
   else probed_contract now t slug smp cc c =
       c\<lparr>tc_primary_array_path := pb_primary_array_path smp,
         tc_output_fields := (if pb_output_fields smp = [] then tc_output_fields c else pb_output_fields smp)\<rparr> \<and>
     probed_contract now t slug smp cc (probed_contract now t slug smp cc c) =
       probed_contract now t slug smp cc c"
  by (auto simp: probed_contract_def apply_probe_def cached_probe_remember Let_def not_less)

end
