(* ===== verification/Overview.thy ===== *)
theory Overview
  imports Vocabulary Types "HOL-Library.Option_ord"
begin

text \<open>
  The connected-integration overview assembled from raw listings:
  \<open>crates/tinyconnectors/src/contracts/overview.rs\<close>, with the toolkit payloads of
  \<open>crates/tinyconnectors-bus/src/composio/toolkits/types.rs\<close>. \<open>uppercase\<close> is the standard
  library's Unicode \<open>to_uppercase\<close>, which is \<open>to_upper\<close> on ASCII text.
\<close>

record catalog_entry =
  ce_slug :: str
  ce_name :: str
  ce_logo :: "str option"
  ce_description :: "str option"
  ce_categories :: "str list"
  ce_enabled :: "bool option"

record toolkits_response =
  tr_toolkits :: "str list"
  tr_catalog :: "catalog_entry list"

section \<open>Reading the listings\<close>

definition connectable_toolkit_slugs :: "str list \<Rightarrow> catalog_entry list \<Rightarrow> str list" where
  "connectable_toolkit_slugs toolkits cat =
     (if cat = [] then filter (\<lambda>s. s \<noteq> []) (map name_key toolkits)
      else filter (\<lambda>s. s \<noteq> [])
        (map (\<lambda>e. name_key (ce_slug e)) (filter (\<lambda>e. unwrap_or False (ce_enabled e)) cat)))"

definition entry_description :: "catalog_entry \<Rightarrow> (str \<times> str) option" where
  "entry_description e =
     (let slug = name_key (ce_slug e) in
      if slug = [] then None
      else map_option (Pair slug) (opt_filter (\<lambda>d. d \<noteq> []) (map_option trim (ce_description e))))"

text \<open>A later entry of the same slug replaces an earlier one.\<close>

definition catalog_descriptions :: "catalog_entry list \<Rightarrow> str \<Rightarrow> str option" where
  "catalog_descriptions cat = map_of (rev (filter_map entry_description cat))"

definition active_toolkits :: "connection list \<Rightarrow> str list" where
  "active_toolkits connections =
     remdups_adj (sort (filter (\<lambda>t. t \<noteq> []) (map normalized_toolkit (filter is_active connections))))"

definition status_priority :: "str \<Rightarrow> nat" where
  "status_priority status =
     (let s = to_upper (trim status) in
      if s = ''EXPIRED'' then 4
      else if List.member [''FAILED'', ''ERROR''] s then 3
      else if List.member [''INITIATED'', ''INITIALIZING'', ''PENDING''] s then 2
      else 1)"

definition note_status ::
  "str list \<Rightarrow> connection \<Rightarrow> (str \<Rightarrow> (nat \<times> str) option) \<Rightarrow> str \<Rightarrow> (nat \<times> str) option" where
  "note_status connected c best =
     (let toolkit = normalized_toolkit c; priority = status_priority (conn_status c) in
      if is_active c \<or> toolkit = [] \<or> List.member connected toolkit then best
      else case best toolkit of
          Some current \<Rightarrow> (if fst current < priority then best(toolkit \<mapsto> (priority, conn_status c)) else best)
        | None \<Rightarrow> best(toolkit \<mapsto> (priority, conn_status c)))"

definition non_active_status_by_toolkit :: "connection list \<Rightarrow> str list \<Rightarrow> str \<Rightarrow> str option" where
  "non_active_status_by_toolkit connections connected =
     (\<lambda>t. map_option snd (fold (note_status connected) connections Map.empty t))"

section \<open>The overview\<close>

record integration_tool =
  it_name :: str
  it_description :: str
  it_parameters :: "json option"

record gated_tool =
  gt_name :: str
  gt_description :: str
  gt_required_scope :: tool_scope

record integration_connection =
  ic_connection_id :: str
  ic_label :: "str option"
  ic_is_default :: bool

record integration =
  in_toolkit :: str
  in_description :: str
  in_tools :: "integration_tool list"
  in_gated_tools :: "gated_tool list"
  in_connected :: bool
  in_connections :: "integration_connection list"
  in_non_active_status :: "str option"

record listings =
  ls_allowlist :: "str list"
  ls_connections :: "connection list"
  ls_tools :: "tool_schema list"
  ls_descriptions :: "str \<Rightarrow> str option"
  ls_preferences :: "str \<Rightarrow> scope_pref option"

definition toolkit_tools :: "(str \<Rightarrow> str) \<Rightarrow> str \<Rightarrow> listings \<Rightarrow> tool_function list" where
  "toolkit_tools uppercase slug ls =
     filter (\<lambda>f. prefix (uppercase slug @ ''_'') (tf_name f)) (map ts_function (ls_tools ls))"

definition visible_tool :: "scope_pref \<Rightarrow> tool_function \<Rightarrow> integration_tool option" where
  "visible_tool pref f =
     (if is_action_visible_with_pref (tf_name f) pref
      then Some \<lparr>it_name = tf_name f, it_description = unwrap_or [] (tf_description f),
                 it_parameters = tf_parameters f\<rparr>
      else None)"

definition hidden_tool :: "scope_pref \<Rightarrow> tool_function \<Rightarrow> gated_tool option" where
  "hidden_tool pref f =
     (if is_action_visible_with_pref (tf_name f) pref then None
      else map_option (\<lambda>sc. \<lparr>gt_name = tf_name f, gt_description = unwrap_or [] (tf_description f),
                             gt_required_scope = sc\<rparr>) (curated_scope_for (tf_name f)))"

definition split_tools :: "(str \<Rightarrow> str) \<Rightarrow> str \<Rightarrow> listings \<Rightarrow> integration_tool list \<times> gated_tool list" where
  "split_tools uppercase slug ls =
     (let preference = unwrap_or default_pref (ls_preferences ls slug);
          tools = toolkit_tools uppercase slug ls in
      (filter_map (visible_tool preference) tools, filter_map (hidden_tool preference) tools))"

definition connection_label :: "connection \<Rightarrow> str option" where
  "connection_label c =
     find (\<lambda>l. l \<noteq> [])
       (map trim (filter_map (\<lambda>l. l) [conn_account_email c, conn_workspace c, conn_username c]))"

definition sorted_active :: "str \<Rightarrow> connection list \<Rightarrow> connection list" where
  "sorted_active slug connections =
     sort_key conn_created_at (filter (\<lambda>c. is_active c \<and> normalized_toolkit c = slug) connections)"

definition active_connections :: "str \<Rightarrow> connection list \<Rightarrow> integration_connection list" where
  "active_connections slug connections =
     map (\<lambda>(i, c). \<lparr>ic_connection_id = conn_id c, ic_label = connection_label c, ic_is_default = (i = (0::nat))\<rparr>)
       (enumerate 0 (sorted_active slug connections))"

definition integration_of :: "(str \<Rightarrow> str) \<Rightarrow> listings \<Rightarrow> str \<Rightarrow> integration" where
  "integration_of uppercase ls slug =
     (let connected = active_toolkits (ls_connections ls);
          is_connected = List.member connected slug;
          tools = (if is_connected then split_tools uppercase slug ls else ([], [])) in
      \<lparr>in_toolkit = slug,
       in_description = unwrap_or (toolkit_description slug) (ls_descriptions ls slug),
       in_tools = fst tools,
       in_gated_tools = snd tools,
       in_connected = is_connected,
       in_connections = (if is_connected then active_connections slug (ls_connections ls) else []),
       in_non_active_status =
         (if is_connected then None
          else non_active_status_by_toolkit (ls_connections ls) connected slug)\<rparr>)"

definition assemble :: "(str \<Rightarrow> str) \<Rightarrow> listings \<Rightarrow> integration list" where
  "assemble uppercase ls =
     sort_key in_toolkit
       (map (integration_of uppercase ls) (remdups_adj (sort (ls_allowlist ls))))"

section \<open>Laws\<close>

lemma active_toolkits_mem:
  "t \<in> set (active_toolkits cs) \<longleftrightarrow> t \<noteq> [] \<and> list_ex (\<lambda>c. is_active c \<and> normalized_toolkit c = t) cs"
  by (auto simp: active_toolkits_def list_ex_iff)

lemma distinct_dedup: "sorted xs \<Longrightarrow> distinct (remdups_adj (xs :: 'a :: linorder list))"
  by (induction xs rule: remdups_adj.induct) force+

lemma sorted_dedup: "remdups_adj (sort xs) = sorted_list_of_set (set (xs :: 'a :: linorder list))"
  by (rule sorted_distinct_set_unique) (simp_all add: sorted_remdups_adj distinct_dedup)

lemma assemble_eq:
  "assemble u ls = map (integration_of u ls) (sorted_list_of_set (set (ls_allowlist ls)))"
proof -
  have "map in_toolkit (map (integration_of u ls) xs) = xs" for xs
    by (simp add: comp_def integration_of_def Let_def)
  then show ?thesis unfolding assemble_def sorted_dedup by (simp add: sort_key_id_if_sorted)
qed

lemma hidden_not_allowed:
  assumes "hidden_tool pref f = Some g"
  shows "\<not> allows pref (gt_required_scope g) \<and> curated_scope_for (gt_name g) = Some (gt_required_scope g)"
proof -
  from assms obtain sc where sc: "curated_scope_for (tf_name f) = Some sc"
      "\<not> is_action_visible_with_pref (tf_name f) pref" "g = \<lparr>gt_name = tf_name f,
        gt_description = unwrap_or [] (tf_description f), gt_required_scope = sc\<rparr>"
    by (auto simp: hidden_tool_def split: if_splits)
  then obtain t cat where "bus_toolkit_from_slug (tf_name f) = Some t" "catalog_for_toolkit t = Some cat"
    by (auto simp: curated_scope_for_def bind_eq_Some_conv)
  with sc show ?thesis by (auto simp: curated_scope_unfold)
qed

lemma split_tools_sound:
  "split_tools u slug ls = (vs, gs) \<Longrightarrow> pref = unwrap_or default_pref (ls_preferences ls slug) \<Longrightarrow>
   list_all (\<lambda>v. is_action_visible_with_pref (it_name v) pref) vs \<and>
   list_all (\<lambda>g. \<not> allows pref (gt_required_scope g) \<and>
     curated_scope_for (gt_name g) = Some (gt_required_scope g)) gs"
  using hidden_not_allowed
  by (auto simp: split_tools_def Let_def list_all_iff set_filter_map visible_tool_def split: if_splits)

lemma defaults_of_enumerate:
  "map (\<lambda>(i, c). i = (0::nat)) (enumerate (Suc n) xs) = replicate (length xs) False"
  by (induction xs arbitrary: n) auto

lemma one_default:
  assumes "list_ex (\<lambda>c. is_active c \<and> normalized_toolkit c = slug) cs"
  shows "map ic_is_default (active_connections slug cs) =
    True # replicate (length (active_connections slug cs) - 1) False"
proof -
  let ?xs = "sorted_active slug cs"
  have "set ?xs \<noteq> {}" using assms by (auto simp: sorted_active_def list_ex_iff)
  then obtain c xs where xs: "?xs = c # xs" by (cases ?xs) auto
  show ?thesis
    using defaults_of_enumerate [of 0 xs]
    by (simp add: active_connections_def xs comp_def case_prod_unfold)
qed

text \<open>The rows that decide a toolkit's non-active status, and the first of highest priority.\<close>

definition waiting_rows :: "str \<Rightarrow> connection list \<Rightarrow> connection list" where
  "waiting_rows t cs = filter (\<lambda>c. \<not> is_active c \<and> normalized_toolkit c = t) cs"

fun most_urgent :: "connection list \<Rightarrow> (nat \<times> str) option \<Rightarrow> (nat \<times> str) option" where
  "most_urgent [] best = best"
| "most_urgent (c # cs) best =
     most_urgent cs (case best of
       None \<Rightarrow> Some (status_priority (conn_status c), conn_status c)
     | Some b \<Rightarrow> (if fst b < status_priority (conn_status c)
                  then Some (status_priority (conn_status c), conn_status c) else Some b))"

lemma fold_note_status:
  assumes "t \<noteq> []" "\<not> List.member connected t"
  shows "fold (note_status connected) cs best t = most_urgent (waiting_rows t cs) (best t)"
proof (induction cs arbitrary: best)
  case (Cons c cs)
  have "note_status connected c best t =
      (if \<not> is_active c \<and> normalized_toolkit c = t
       then (case best t of
         None \<Rightarrow> Some (status_priority (conn_status c), conn_status c)
       | Some b \<Rightarrow> (if fst b < status_priority (conn_status c)
           then Some (status_priority (conn_status c), conn_status c) else Some b))
       else best t)"
    using assms by (auto simp: note_status_def Let_def split: option.splits)
  with Cons show ?case by (simp add: waiting_rows_def)
qed (simp add: waiting_rows_def)

lemma most_urgent_max:
  assumes "most_urgent cs (Some (p, s)) = Some (q, t)"
  shows "p \<le> q \<and> list_all (\<lambda>c. status_priority (conn_status c) \<le> q) cs \<and>
    (if p = q then s = t
     else map_option conn_status (find (\<lambda>c. status_priority (conn_status c) = q) cs) = Some t)"
  using assms
proof (induction cs arbitrary: p s)
  case (Cons c cs)
  define pc where "pc = status_priority (conn_status c)"
  show ?case
  proof (cases "p < pc")
    case True
    with Cons.prems have "most_urgent cs (Some (pc, conn_status c)) = Some (q, t)"
      by (simp add: pc_def)
    from Cons.IH [OF this] True show ?thesis
      by (cases "pc = q") (auto simp: pc_def [symmetric])
  next
    case False
    with Cons.prems have "most_urgent cs (Some (p, s)) = Some (q, t)" by (simp add: pc_def)
    from Cons.IH [OF this] False show ?thesis
      by (cases "p = q") (auto simp: pc_def [symmetric])
  qed
qed simp

section \<open>Properties\<close>

text \<open>
  C40. The overview has one entry per allowlisted toolkit in strictly ascending order. An entry is
  connected exactly when some active connection row names its toolkit; then its callable tools
  are all visible under the user's preference, its gated tools are curated ones whose scope the
  preference refuses, and its first connection is its only default. Otherwise it has none of them.
\<close>

theorem overview_sound:
  "map in_toolkit (assemble u ls) = sorted_list_of_set (set (ls_allowlist ls)) \<and>
   list_all (\<lambda>i.
     in_connected i = (in_toolkit i \<noteq> [] \<and>
       list_ex (\<lambda>c. is_active c \<and> normalized_toolkit c = in_toolkit i) (ls_connections ls)) \<and>
     (let pref = unwrap_or default_pref (ls_preferences ls (in_toolkit i)) in
      if in_connected i then
        list_all (\<lambda>v. is_action_visible_with_pref (it_name v) pref) (in_tools i) \<and>
        list_all (\<lambda>g. \<not> allows pref (gt_required_scope g) \<and>
          curated_scope_for (gt_name g) = Some (gt_required_scope g)) (in_gated_tools i) \<and>
        map ic_is_default (in_connections i) = True # replicate (length (in_connections i) - 1) False
      else in_tools i = [] \<and> in_gated_tools i = [] \<and> in_connections i = []))
     (assemble u ls)"
proof (intro conjI)
  show "map in_toolkit (assemble u ls) = sorted_list_of_set (set (ls_allowlist ls))"
    by (simp add: assemble_eq comp_def integration_of_def Let_def)
next
  have entry: "in_connected i = (in_toolkit i \<noteq> [] \<and>
       list_ex (\<lambda>c. is_active c \<and> normalized_toolkit c = in_toolkit i) (ls_connections ls)) \<and>
     (let pref = unwrap_or default_pref (ls_preferences ls (in_toolkit i)) in
      if in_connected i then
        list_all (\<lambda>v. is_action_visible_with_pref (it_name v) pref) (in_tools i) \<and>
        list_all (\<lambda>g. \<not> allows pref (gt_required_scope g) \<and>
          curated_scope_for (gt_name g) = Some (gt_required_scope g)) (in_gated_tools i) \<and>
        map ic_is_default (in_connections i) = True # replicate (length (in_connections i) - 1) False
      else in_tools i = [] \<and> in_gated_tools i = [] \<and> in_connections i = [])"
    if "i = integration_of u ls slug" for i slug
    using split_tools_sound [OF prod.collapse [symmetric] refl, where u = u and slug = slug and ls = ls]
      one_default [of slug "ls_connections ls"]
    by (auto simp: that integration_of_def Let_def active_toolkits_mem)
  show "list_all (\<lambda>i.
     in_connected i = (in_toolkit i \<noteq> [] \<and>
       list_ex (\<lambda>c. is_active c \<and> normalized_toolkit c = in_toolkit i) (ls_connections ls)) \<and>
     (let pref = unwrap_or default_pref (ls_preferences ls (in_toolkit i)) in
      if in_connected i then
        list_all (\<lambda>v. is_action_visible_with_pref (it_name v) pref) (in_tools i) \<and>
        list_all (\<lambda>g. \<not> allows pref (gt_required_scope g) \<and>
          curated_scope_for (gt_name g) = Some (gt_required_scope g)) (in_gated_tools i) \<and>
        map ic_is_default (in_connections i) = True # replicate (length (in_connections i) - 1) False
      else in_tools i = [] \<and> in_gated_tools i = [] \<and> in_connections i = []))
     (assemble u ls)"
    unfolding list_all_iff assemble_eq using entry by (fastforce simp: list_all_iff)
qed

text \<open>
  A toolkit without an active connection reports the status of its first row of highest
  priority, and none exactly when it has no row.
\<close>

theorem overview_status_most_urgent:
  "let i = integration_of u ls slug;
       rows = waiting_rows slug (ls_connections ls);
       top = Max (set (map (\<lambda>c. status_priority (conn_status c)) rows)) in
   if slug = [] \<or> in_connected i then True
   else in_non_active_status i =
     (if rows = [] then None
      else map_option conn_status (find (\<lambda>c. status_priority (conn_status c) = top) rows))"
proof -
  let ?rows = "waiting_rows slug (ls_connections ls)"
  let ?pri = "\<lambda>c. status_priority (conn_status c)"
  define top where "top = Max (set (map ?pri ?rows))"
  have goal: "map_option snd (most_urgent ?rows None) =
      (if ?rows = [] then None else map_option conn_status (find (\<lambda>c. ?pri c = top) ?rows))"
  proof (cases ?rows)
    case (Cons c cs)
    have "most_urgent cs (Some b) \<noteq> None" for b by (induction cs arbitrary: b) auto
    then obtain q t where r: "most_urgent cs (Some (?pri c, conn_status c)) = Some (q, t)" by fastforce
    from most_urgent_max [OF r]
    have m: "?pri c \<le> q" "list_all (\<lambda>c. ?pri c \<le> q) cs"
      "if ?pri c = q then conn_status c = t
       else map_option conn_status (find (\<lambda>c. ?pri c = q) cs) = Some t" by simp_all
    have f: "map_option conn_status (find (\<lambda>c. ?pri c = q) (c # cs)) = Some t"
      using m(3) by (auto split: if_splits)
    then have "find (\<lambda>c. ?pri c = q) (c # cs) \<noteq> None" by (metis option.distinct(1) option.map(1))
    then have "q \<in> set (map ?pri (c # cs))" unfolding find_None_iff by (auto simp: image_iff)
    moreover have "\<forall>x \<in> set (map ?pri (c # cs)). x \<le> q"
      using m(1,2) by (auto simp: list_all_iff)
    ultimately have "top = q"
      unfolding top_def Cons by (intro Max_eqI) auto
    moreover have "map_option snd (most_urgent ?rows None) = Some t" by (simp add: Cons r)
    ultimately show ?thesis using f unfolding Cons by (simp only: list.distinct if_False)
  qed simp
  show ?thesis
    using goal fold_note_status [of slug "active_toolkits (ls_connections ls)" "ls_connections ls" Map.empty]
    unfolding Let_def top_def [symmetric]
    by (auto simp: integration_of_def Let_def non_active_status_by_toolkit_def)
qed

end
