(* ===== verification/Network.thy ===== *)
theory Network
  imports Errors
begin

text \<open>
  A host's network policy: \<open>crates/tinyconnectors/src/client/network.rs\<close> with the payload of
  \<open>crates/tinyconnectors-bus/src/composio/direct/types.rs\<close>. Addresses are machine words. The
  reading of an address is the standard library's; the URL parser, the percent decoder and the
  proxy builder are other packages' and are parameters.
\<close>

unbundle bit_operations_syntax

section \<open>Addresses\<close>

datatype ip = V4 "32 word" | V6 "128 word"

definition read_char :: "char \<Rightarrow> str \<Rightarrow> str option" where
  "read_char c s = (case s of [] \<Rightarrow> None | d # t \<Rightarrow> if d = c then Some t else None)"

fun digit_of :: "nat \<Rightarrow> char \<Rightarrow> nat option" where
  "digit_of radix c =
     (let n = of_char c;
          d = (if is_digit c then n - 48 else if is_lower c then n - 87 else if is_upper c then n - 55 else radix)
      in if d < radix then Some d else None)"

text \<open>
  A run of at most \<open>m\<close> digits whose value is below \<open>bound\<close>, with the text after it; a longer
  run is refused.
\<close>

definition read_number :: "nat \<Rightarrow> nat \<Rightarrow> bool \<Rightarrow> nat \<Rightarrow> str \<Rightarrow> (nat \<times> str) option" where
  "read_number radix m zeros bound s =
     (let ds = takeWhile (\<lambda>c. digit_of radix c \<noteq> None) s;
          n = fold (\<lambda>c acc. radix * acc + the (digit_of radix c)) ds 0 in
      if ds = [] \<or> m < length ds then None
      else if \<not> zeros \<and> hd ds = CHR ''0'' \<and> 1 < length ds then None
      else if n < bound then Some (n, drop (length ds) s) else None)"

text \<open>\<open>read_separator\<close>: a separator before every item but the first.\<close>

definition read_sep :: "char \<Rightarrow> nat \<Rightarrow> (str \<Rightarrow> ('a \<times> str) option) \<Rightarrow> str \<Rightarrow> ('a \<times> str) option" where
  "read_sep c i item s = (if i = 0 then item s else Option.bind (read_char c s) item)"

fun read_octets :: "nat \<Rightarrow> nat \<Rightarrow> str \<Rightarrow> (nat list \<times> str) option" where
  "read_octets i 0 s = Some ([], s)"
| "read_octets i (Suc n) s =
     Option.bind (read_sep CHR ''.'' i (read_number 10 3 False 256) s) (\<lambda>(o1, t).
       map_option (\<lambda>(os, u). (o1 # os, u)) (read_octets (Suc i) n t))"

definition value_of :: "nat \<Rightarrow> nat list \<Rightarrow> nat" where
  "value_of base ds = fold (\<lambda>d acc. base * acc + d) ds 0"

definition read_ipv4 :: "str \<Rightarrow> (nat list \<times> str) option" where
  "read_ipv4 s = read_octets 0 4 s"

text \<open>Up to \<open>limit - i\<close> groups of sixteen bits; the last two may be written as an IPv4 address.\<close>

function read_groups :: "nat \<Rightarrow> nat \<Rightarrow> str \<Rightarrow> nat list \<times> bool \<times> str" where
  "read_groups limit i s =
     (if limit \<le> i then ([], False, s)
      else case (if i < limit - 1 then read_sep CHR '':'' i read_ipv4 s else None) of
          Some (os, t) \<Rightarrow> ([value_of 256 (take 2 os), value_of 256 (drop 2 os)], True, t)
        | None \<Rightarrow>
            (case read_sep CHR '':'' i (read_number 16 4 True 65536) s of
               None \<Rightarrow> ([], False, s)
             | Some (g, t) \<Rightarrow>
                 (case read_groups limit (Suc i) t of (gs, v4, u) \<Rightarrow> (g # gs, v4, u))))"
  by pat_completeness auto
termination
  by (relation "measure (\<lambda>(limit, i, s). limit - i)") auto

declare read_groups.simps [simp del]

definition read_ipv6 :: "str \<Rightarrow> (nat list \<times> str) option" where
  "read_ipv6 s =
     (case read_groups 8 0 s of (head, v4, t) \<Rightarrow>
        if length head = 8 then Some (head, t)
        else if v4 then None
        else Option.bind (Option.bind (read_char CHR '':'' t) (read_char CHR '':'')) (\<lambda>u.
          case read_groups (8 - (length head + 1)) 0 u of (tl_gs, _, r) \<Rightarrow>
            Some (head @ replicate (8 - length head - length tl_gs) 0 @ tl_gs, r)))"

definition parse_ip :: "str \<Rightarrow> ip option" where
  "parse_ip s =
     (case (case read_ipv4 s of Some (os, t) \<Rightarrow> Some (V4 (word_of_nat (value_of 256 os)), t)
            | None \<Rightarrow> map_option (\<lambda>(gs, t). (V6 (word_of_nat (value_of 65536 gs)), t)) (read_ipv6 s)) of
        Some (a, []) \<Rightarrow> Some a
      | _ \<Rightarrow> None)"

section \<open>The policy\<close>

datatype tls_roots = Bundled | Platform

record transport_config =
  proxy_url :: "str option"
  no_proxy :: "str list"
  tls_root_store :: tls_roots

definition prefix_matches :: "128 word \<Rightarrow> 128 word \<Rightarrow> nat \<Rightarrow> nat \<Rightarrow> bool" where
  "prefix_matches network a width bits =
     (if bits = 0 then True
      else (let shift = width - bits in drop_bit shift network = drop_bit shift a))"

fun in_cidr :: "ip \<Rightarrow> nat \<Rightarrow> ip \<Rightarrow> bool" where
  "in_cidr (V4 network) bits (V4 a) =
     (if bits \<le> 32 then prefix_matches (ucast network) (ucast a) 32 bits else False)"
| "in_cidr (V6 network) bits (V6 a) =
     (if bits \<le> 128 then prefix_matches network a 128 bits else False)"
| "in_cidr _ bits _ = False"

definition trim_start_char :: "char \<Rightarrow> str \<Rightarrow> str" where
  "trim_start_char c s = dropWhile (\<lambda>x. x = c) s"

definition trim_end_char :: "char \<Rightarrow> str \<Rightarrow> str" where
  "trim_end_char c s = rev (dropWhile (\<lambda>x. x = c) (rev s))"

definition trim_brackets :: "str \<Rightarrow> str" where
  "trim_brackets s =
     (let b = (\<lambda>x. x = CHR ''['' \<or> x = CHR '']'') in rev (dropWhile b (rev (dropWhile b s))))"

definition entry_matches :: "str \<Rightarrow> str \<Rightarrow> ip option \<Rightarrow> bool" where
  "entry_matches entry host a =
     (if entry = ''*'' then True
      else case split_once CHR ''/'' entry of
          Some (network, bits) \<Rightarrow>
            (case (parse_ip network, parse_unsigned 8 bits, a) of
               (Some n, Some b, Some x) \<Rightarrow> in_cidr n b x
             | _ \<Rightarrow> False)
        | None \<Rightarrow>
            (case parse_ip (trim_brackets entry) of
               Some literal \<Rightarrow> a = Some literal
             | None \<Rightarrow>
                 (let domain = trim_start_char CHR ''.'' (trim_start_char CHR ''*'' entry) in
                  domain \<noteq> [] \<and> (host = domain \<or> suffix (''.'' @ domain) host))))"

definition proxy_host :: "str \<Rightarrow> str" where
  "proxy_host host = to_lower (trim_end_char CHR '']'' (trim_start_char CHR ''['' (trim host)))"

definition proxy_entries :: "str list \<Rightarrow> str list" where
  "proxy_entries entries =
     filter (\<lambda>e. e \<noteq> []) (map (\<lambda>e. to_lower (trim e)) (concat (map (split_on CHR '','') entries)))"

definition bypasses_proxy :: "str list \<Rightarrow> str \<Rightarrow> bool" where
  "bypasses_proxy entries host0 =
     (let host = proxy_host host0; a = parse_ip host in
      list_ex (\<lambda>e. entry_matches e host a) (proxy_entries entries))"

section \<open>URLs and proxies of other packages\<close>

datatype url_host = Domain str | Ipv4 "32 word" | Ipv6 "128 word"

record parsed_url =
  u_scheme :: str
  u_username :: str
  u_password :: "str option"
  u_host :: "url_host option"
  u_host_str :: "str option"
  u_port :: "nat option"

datatype proxy_protocol = Http | Https | Socks4 | Socks4A | Socks5 | Socks5h

record 'p proxy_builder =
  parse_url :: "str \<Rightarrow> parsed_url option"
  percent_decoded :: "str \<Rightarrow> str"
  build_proxy :: "proxy_protocol \<Rightarrow> str \<Rightarrow> nat option \<Rightarrow> (str \<times> str option) option \<Rightarrow> 'p option"

definition proxy_protocol_of :: "str \<Rightarrow> proxy_protocol option" where
  "proxy_protocol_of scheme =
     (if scheme = ''http'' then Some Http
      else if scheme = ''https'' then Some Https
      else if scheme = ''socks4'' then Some Socks4
      else if scheme = ''socks4a'' then Some Socks4A
      else if scheme = ''socks5'' \<or> scheme = ''socks'' then Some Socks5
      else if scheme = ''socks5h'' then Some Socks5h
      else None)"

definition parse_proxy :: "'p proxy_builder \<Rightarrow> str \<Rightarrow> 'p res" where
  "parse_proxy pb raw =
     (case parse_url pb raw of
        None \<Rightarrow> Inl (InvalidNetworkConfig ''the proxy URL is not a valid URL'')
      | Some u \<Rightarrow>
          (case proxy_protocol_of (u_scheme u) of
             None \<Rightarrow> Inl (InvalidNetworkConfig ''the proxy URL scheme is not supported'')
           | Some protocol \<Rightarrow>
               (case u_host_str u of
                  None \<Rightarrow> Inl (InvalidNetworkConfig ''the proxy URL has no host'')
                | Some host \<Rightarrow>
                    (case build_proxy pb protocol host (u_port u)
                        (if u_username u \<noteq> [] then
                           Some (percent_decoded pb (u_username u), map_option (percent_decoded pb) (u_password u))
                         else None) of
                       None \<Rightarrow> Inl (InvalidNetworkConfig ''the proxy URL cannot be used'')
                     | Some p \<Rightarrow> Inr p))))"

datatype 'p proxy_choice = Environment | Bypass | Use 'p

definition proxy_for :: "'p proxy_builder \<Rightarrow> transport_config \<Rightarrow> str \<Rightarrow> 'p proxy_choice res" where
  "proxy_for pb network host =
     (case opt_filter (\<lambda>u. u \<noteq> []) (map_option trim (proxy_url network)) of
        None \<Rightarrow> Inr Environment
      | Some raw \<Rightarrow>
          (if bypasses_proxy (no_proxy network) host then Inr Bypass
           else bind_result (parse_proxy pb raw) (\<lambda>p. Inr (Use p))))"

text \<open>
  What the agent is built with. \<open>Environment\<close> leaves the library's default, \<open>Bypass\<close> sets no
  proxy. The timeout is in seconds.
\<close>

datatype strictness = Backend | Credentialed

record 'p agent =
  ag_timeout :: nat
  ag_max_redirects :: "nat option"
  ag_redirects_will_error :: bool
  ag_status_as_error :: bool
  ag_proxy :: "'p proxy_choice"
  ag_roots :: tls_roots

definition base_agent :: "nat \<Rightarrow> strictness \<Rightarrow> 'p agent" where
  "base_agent timeout strict =
     \<lparr>ag_timeout = timeout,
      ag_max_redirects = (if strict = Credentialed then Some 0 else None),
      ag_redirects_will_error = (strict \<noteq> Credentialed),
      ag_status_as_error = (strict \<noteq> Credentialed),
      ag_proxy = Environment,
      ag_roots = Bundled\<rparr>"

definition build_agent ::
  "'p proxy_builder \<Rightarrow> nat \<Rightarrow> strictness \<Rightarrow> transport_config option \<Rightarrow> str \<Rightarrow> 'p agent res" where
  "build_agent pb timeout strict network host =
     (case network of
        None \<Rightarrow> Inr (base_agent timeout strict)
      | Some n \<Rightarrow>
          bind_result (proxy_for pb n host) (\<lambda>choice.
            Inr ((base_agent timeout strict)\<lparr>ag_proxy := choice, ag_roots := tls_root_store n\<rparr>)))"

section \<open>Laws\<close>

lemma drop_bit_word_iff: "drop_bit k (a :: 'a :: len word) = drop_bit k b \<longleftrightarrow> unat a div 2 ^ k = unat b div 2 ^ k"
  unfolding word_unat_eq_iff unat_drop_bit_eq drop_bit_eq_div [where 'a = nat] ..

lemma unat_widen: "unat (ucast (a :: 32 word) :: 128 word) = unat a"
  by transfer simp

lemma prefix_matches_div:
  assumes "unat n < 2 ^ w" "unat a < 2 ^ w"
  shows "prefix_matches n a w b \<longleftrightarrow> unat n div 2 ^ (w - b) = unat a div 2 ^ (w - b)"
  using assms by (simp add: prefix_matches_def drop_bit_word_iff Let_def)

lemma div_coarser: "(x :: nat) div 2 ^ k = y div 2 ^ k \<Longrightarrow> x div 2 ^ (k + j) = y div 2 ^ (k + j)"
  by (simp add: power_add div_mult2_eq)

lemma cidr_v4: "in_cidr (V4 n) b (V4 a) \<longleftrightarrow> b \<le> 32 \<and> unat n div 2 ^ (32 - b) = unat a div 2 ^ (32 - b)"
  using unsigned_less [of n, where ?'a = nat] unsigned_less [of a, where ?'a = nat]
  by (simp add: prefix_matches_div unat_widen)

lemma cidr_v6: "in_cidr (V6 n) b (V6 a) \<longleftrightarrow> b \<le> 128 \<and> unat n div 2 ^ (128 - b) = unat a div 2 ^ (128 - b)"
  using unsigned_less [of n, where ?'a = nat] unsigned_less [of a, where ?'a = nat]
  by (simp add: prefix_matches_div)

lemma cidr_shorter:
  assumes "b \<le> c" "c \<le> w" "(x :: nat) div 2 ^ (w - c) = y div 2 ^ (w - c)"
  shows "x div 2 ^ (w - b) = y div 2 ^ (w - b)"
  using div_coarser [OF assms(3), of "c - b"] assms(1,2) by simp

text \<open>An entry that is a plain domain name, as it is left after splitting and lowering.\<close>

definition plain_domain :: "str \<Rightarrow> bool" where
  "plain_domain d \<longleftrightarrow>
     d \<noteq> [] \<and> name_key d = d \<and> \<not> List.member d CHR ''/'' \<and> \<not> List.member d CHR '','' \<and>
     hd d \<noteq> CHR ''*'' \<and> hd d \<noteq> CHR ''.'' \<and> parse_ip (trim_brackets d) = None"

lemma split_on_none: "d \<notin> set s \<Longrightarrow> split_on d s = [s]"
  by (induction s) auto

lemma plain_entries: "plain_domain d \<Longrightarrow> proxy_entries [d] = [d]"
  by (auto simp: proxy_entries_def plain_domain_def split_on_none name_key_def)

lemma plain_matches:
  assumes "plain_domain d"
  shows "entry_matches d host a \<longleftrightarrow> host = d \<or> suffix (''.'' @ d) host"
proof -
  obtain c t where d: "d = c # t" using assms by (cases d) (auto simp: plain_domain_def)
  have "split_once CHR ''/'' d = None"
    using assms
    by (cases "split_once CHR ''/'' d") (auto simp: plain_domain_def dest!: split_once_Some [THEN iffD1])
  moreover have "trim_start_char CHR ''.'' (trim_start_char CHR ''*'' d) = d" "d \<noteq> ''*''"
    using assms by (auto simp: plain_domain_def trim_start_char_def d)
  ultimately show ?thesis
    using assms by (simp add: entry_matches_def plain_domain_def Let_def)
qed

section \<open>Properties\<close>

text \<open>
  An address is in a range exactly when both belong to the same family, the prefix length fits
  that family and the two addresses agree above the host bits; a shorter prefix of the same
  network only widens the range.
\<close>

theorem cidr_exact:
  "in_cidr (V4 n) b (V4 a) = (b \<le> 32 \<and> unat n div 2 ^ (32 - b) = unat a div 2 ^ (32 - b)) \<and>
   in_cidr (V6 m) b (V6 x) = (b \<le> 128 \<and> unat m div 2 ^ (128 - b) = unat x div 2 ^ (128 - b)) \<and>
   \<not> in_cidr (V4 n) b (V6 x) \<and> \<not> in_cidr (V6 m) b (V4 a) \<and>
   (if b \<le> c \<and> in_cidr (V4 n) c (V4 a) then in_cidr (V4 n) b (V4 a) else True) \<and>
   (if b \<le> c \<and> in_cidr (V6 m) c (V6 x) then in_cidr (V6 m) b (V6 x) else True)"
  using cidr_shorter [of b c 32 "unat n" "unat a"] cidr_shorter [of b c 128 "unat m" "unat x"]
  unfolding cidr_v4 cidr_v6 by auto

text \<open>
  A domain on the bypass list exempts exactly that host and its subdomains, whatever case,
  padding or brackets the host is written with; a host that merely ends in the same letters is
  still sent through the proxy.
\<close>

theorem no_proxy_domain_exact:
  assumes "plain_domain d"
  shows "bypasses_proxy [d] host = (proxy_host host = d \<or> suffix (''.'' @ d) (proxy_host host))"
  using assms by (simp add: bypasses_proxy_def Let_def plain_entries plain_matches)

theorem no_proxy_domain_exact_witness:
  "bypasses_proxy [''example.com''] '' API.Example.com'' =
     (proxy_host '' API.Example.com'' = ''example.com'' \<or>
      suffix (''.'' @ ''example.com'') (proxy_host '' API.Example.com'')) \<and>
   \<not> bypasses_proxy [''example.com''] ''evilexample.com''"
proof -
  have four: "(4 :: nat) = Suc 3" by simp
  have "read_ipv4 ''example.com'' = None"
    unfolding read_ipv4_def four read_octets.simps by (simp add: read_sep_def read_number_def)
  moreover have "read_groups 8 0 ''example.com'' = ([14], False, ''xample.com'')"
    using calculation
    by (subst read_groups.simps) (simp add: read_sep_def read_number_def read_groups.simps read_char_def)
  ultimately have "parse_ip ''example.com'' = None"
    by (simp add: parse_ip_def read_ipv6_def read_char_def)
  then have d: "plain_domain ''example.com''"
    by (simp add: plain_domain_def trim_brackets_def str_eval)
  have "\<not> (proxy_host ''evilexample.com'' = ''example.com'' \<or>
      suffix (''.'' @ ''example.com'') (proxy_host ''evilexample.com''))" by code_simp
  then show ?thesis using no_proxy_domain_exact [OF d] by blast
qed

end
