(* ===== verification/Http.thy ===== *)
theory Http
  imports Network Effects
begin

text \<open>
  The HTTP transport: \<open>crates/tinyconnectors/src/client/http.rs\<close>. Sending one request is the
  HTTP library's (\<open>send\<close>), parsing a body is the JSON library's (\<open>parse_json\<close>) and reading a URL
  the URL library's (inside \<open>pb\<close>); the base-URL guard, the headers, the treatment of a response
  and the wording of a failure are the code's.
\<close>

definition request_timeout :: nat where "request_timeout = 30"

definition timezone_header :: str where "timezone_header = ''x-timezone''"

definition timezone_max_len :: nat where "timezone_max_len = 64"

section \<open>The credential\<close>

datatype auth_scheme = Bearer | Api_Key

fun scheme_header :: "auth_scheme \<Rightarrow> str" where
  "scheme_header Bearer = ''authorization''"
| "scheme_header Api_Key = ''x-api-key''"

fun scheme_strictness :: "auth_scheme \<Rightarrow> strictness" where
  "scheme_strictness Bearer = Backend"
| "scheme_strictness Api_Key = Credentialed"

fun scheme_value :: "auth_scheme \<Rightarrow> str \<Rightarrow> str" where
  "scheme_value Bearer credential = ''Bearer '' @ credential"
| "scheme_value Api_Key credential = credential"

section \<open>The base URL\<close>

text \<open>\<open>127.0.0.0/8\<close> and \<open>::1\<close>.\<close>

fun is_loopback :: "url_host \<Rightarrow> bool" where
  "is_loopback (Domain h) = eq_ignore_case h ''localhost''"
| "is_loopback (Ipv4 a) = (drop_bit 24 a = 127)"
| "is_loopback (Ipv6 a) = (a = 1)"

definition check_base_url :: "'p proxy_builder \<Rightarrow> str \<Rightarrow> str res" where
  "check_base_url pb base_url =
     (case parse_url pb base_url of
        None \<Rightarrow> Inl (InsecureBaseUrl base_url ''not a valid URL'')
      | Some u \<Rightarrow>
          (if u_username u \<noteq> [] \<or> u_password u \<noteq> None
           then Inl (InsecureBaseUrl base_url ''URL carries embedded credentials'')
           else
             (let host = unwrap_or [] (u_host_str u) in
              if u_scheme u = ''https'' then Inr host
              else if u_scheme u = ''http'' then
                (if (case u_host u of None \<Rightarrow> False | Some h \<Rightarrow> is_loopback h) then Inr host
                 else Inl (InsecureBaseUrl base_url ''plain HTTP is only allowed to a loopback address''))
              else Inl (InsecureBaseUrl base_url ''URL scheme must be https''))))"

section \<open>Building a transport\<close>

record 'p http_transport =
  ht_base_url :: str
  ht_credential :: str
  ht_scheme :: auth_scheme
  ht_timezone :: "str option"
  ht_agent :: "'p agent"

definition build_http :: "'p proxy_builder \<Rightarrow> str \<Rightarrow> str \<Rightarrow> auth_scheme \<Rightarrow> 'p http_transport res" where
  "build_http pb base_url0 credential scheme =
     (let base_url = trim_end_char CHR ''/'' (trim base_url0) in
      bind_result (check_base_url pb base_url) (\<lambda>host.
        bind_result (build_agent pb request_timeout (scheme_strictness scheme) None host) (\<lambda>agent.
          Inr \<lparr>ht_base_url = base_url, ht_credential = credential, ht_scheme = scheme,
               ht_timezone = None, ht_agent = agent\<rparr>)))"

definition http_bearer :: "'p proxy_builder \<Rightarrow> str \<Rightarrow> str \<Rightarrow> 'p http_transport res" where
  "http_bearer pb base_url token = build_http pb base_url token Bearer"

definition http_api_key :: "'p proxy_builder \<Rightarrow> str \<Rightarrow> str \<Rightarrow> 'p http_transport res" where
  "http_api_key pb base_url key = build_http pb base_url key Api_Key"

definition with_network ::
  "'p proxy_builder \<Rightarrow> transport_config option \<Rightarrow> 'p http_transport \<Rightarrow> 'p http_transport res" where
  "with_network pb network t =
     bind_result (check_base_url pb (ht_base_url t)) (\<lambda>host.
       bind_result (build_agent pb request_timeout (scheme_strictness (ht_scheme t)) network host) (\<lambda>agent.
         Inr (t\<lparr>ht_agent := agent\<rparr>)))"

definition valid_zone :: "str \<Rightarrow> bool" where
  "valid_zone zone \<longleftrightarrow>
     zone \<noteq> [] \<and> length zone \<le> timezone_max_len \<and>
     list_all (\<lambda>c. is_alnum c \<or> List.member [CHR ''/'', CHR ''_'', CHR ''+'', CHR ''-''] c) zone"

definition with_timezone :: "str option \<Rightarrow> 'p http_transport \<Rightarrow> 'p http_transport" where
  "with_timezone timezone t = t\<lparr>ht_timezone := opt_filter valid_zone (map_option trim timezone)\<rparr>"

section \<open>Wording a failure\<close>

definition error_message_max_chars :: nat where "error_message_max_chars = 240"

definition ellipsis_chars :: nat where "ellipsis_chars = 3"

definition fix_label :: str where "fix_label = '' Suggested fix: ''"

definition redacted_markers :: "str list" where
  "redacted_markers =
     [''connected_account_id'', ''connectedAccountId'', ''entity_id'', ''entityId'', ''user_id'', ''userId'']"

definition truncate_text :: "str \<Rightarrow> nat \<Rightarrow> str" where
  "truncate_text s m = (case take_chars m s of Some t \<Rightarrow> trim_end t @ ''...'' | None \<Rightarrow> s)"

definition sanitize :: "str \<Rightarrow> nat \<Rightarrow> str" where
  "sanitize s m =
     truncate_text
       (fold (\<lambda>marker acc. replace_str marker ''[redacted]'' acc) redacted_markers
         (map (\<lambda>c. if c = CHR 0x0A then CHR '' '' else c) s)) m"

definition usable :: "json option \<Rightarrow> str option" where
  "usable v = opt_filter (\<lambda>s. s \<noteq> []) (map_option trim (Option.bind v as_str))"

definition api_error_message :: "(str \<Rightarrow> str + json) \<Rightarrow> str \<Rightarrow> (str \<times> str option) option" where
  "api_error_message parse_json body =
     (case parse_json body of
        Inl _ \<Rightarrow> None
      | Inr parsed \<Rightarrow>
          (let error = jget parsed ''error'';
               message = or_else (Option.bind (Option.bind error (\<lambda>e. jget e ''message'')) as_str)
                 (Option.bind (jget parsed ''message'') as_str);
               suggested = or_else (usable (Option.bind error (\<lambda>e. jget e ''suggested_fix'')))
                 (usable (jget parsed ''suggested_fix''))
           in map_option (\<lambda>m. (m, suggested)) message))"

definition status_message :: "(str \<Rightarrow> str + json) \<Rightarrow> nat \<Rightarrow> str \<Rightarrow> str" where
  "status_message parse_json status body =
     (case api_error_message parse_json body of
        None \<Rightarrow> ''HTTP '' @ show_nat status
      | Some (message, None) \<Rightarrow>
          ''HTTP '' @ show_nat status @ '': '' @ sanitize message error_message_max_chars
      | Some (message, Some suggested) \<Rightarrow>
          (let m = sanitize message (error_message_max_chars div 2 - ellipsis_chars);
               budget = error_message_max_chars - (char_count m + char_count fix_label + ellipsis_chars)
           in ''HTTP '' @ show_nat status @ '': '' @ m @ fix_label @ sanitize suggested budget))"

section \<open>Requests\<close>

datatype http_method = GET | POST | DELETE

record http_request =
  rq_method :: http_method
  rq_url :: str
  rq_headers :: "(str \<times> str) list"
  rq_body :: "json option"

record http_response =
  rs_status :: nat
  rs_body :: "str + str"

text \<open>
  Sending yields the failure of the task that ran the request, or the library's result: its error
  text, or a response whose body is still to be read.
\<close>

type_synonym ('p, 'e) sender = "'p agent \<Rightarrow> http_request \<Rightarrow> 'e \<Rightarrow> (str + (str + http_response)) \<times> 'e"

definition no_content :: nat where "no_content = 204"

definition no_content_body :: str where "no_content_body = ''null''"

definition finish :: "(str \<Rightarrow> str + json) \<Rightarrow> str \<Rightarrow> strictness \<Rightarrow> str + http_response \<Rightarrow> str + str" where
  "finish parse_json url strict result =
     (if strict = Backend then
        (case result of
           Inl e \<Rightarrow> Inl e
         | Inr r \<Rightarrow> if rs_status r = no_content then Inr no_content_body else rs_body r)
      else
        (case result of
           Inl e \<Rightarrow> Inl (''error sending request for url ('' @ url @ ''): '' @ e)
         | Inr r \<Rightarrow>
             (if rs_status r = no_content then Inr no_content_body
              else if 200 \<le> rs_status r \<and> rs_status r < 300 then rs_body r
              else Inl (status_message parse_json (rs_status r)
                (case rs_body r of Inl _ \<Rightarrow> [] | Inr b \<Rightarrow> b)))))"

definition http_url :: "'p http_transport \<Rightarrow> str \<Rightarrow> str" where
  "http_url t path = ht_base_url t @ path"

definition auth_header :: "'p http_transport \<Rightarrow> str \<times> str" where
  "auth_header t = (scheme_header (ht_scheme t), scheme_value (ht_scheme t) (ht_credential t))"

definition request_for ::
  "'p http_transport \<Rightarrow> http_method \<Rightarrow> str \<Rightarrow> json option \<Rightarrow> http_request" where
  "request_for t meth path body =
     \<lparr>rq_method = meth, rq_url = http_url t path,
      rq_headers = auth_header t # (case ht_timezone t of None \<Rightarrow> [] | Some z \<Rightarrow> [(timezone_header, z)]),
      rq_body = body\<rparr>"

definition http_call ::
  "(str \<Rightarrow> str + json) \<Rightarrow> ('p, 'e) sender \<Rightarrow> 'p http_transport \<Rightarrow> http_method \<Rightarrow> str \<Rightarrow> json option \<Rightarrow>
   'e \<Rightarrow> json res \<times> 'e" where
  "http_call parse_json send t meth path body e =
     (case send (ht_agent t) (request_for t meth path body) e of
        (Inl task, e') \<Rightarrow> (Inl (Transport path (''request task failed: '' @ task)), e')
      | (Inr result, e') \<Rightarrow>
          ((case finish parse_json (http_url t path) (scheme_strictness (ht_scheme t)) result of
              Inl message \<Rightarrow> Inl (Transport path message)
            | Inr text \<Rightarrow>
                (case parse_json text of
                   Inl message \<Rightarrow> Inl (Decode path message)
                 | Inr v \<Rightarrow> Inr v)), e'))"

definition http_as_transport ::
  "(str \<Rightarrow> str + json) \<Rightarrow> ('p, 'e) sender \<Rightarrow> 'p http_transport \<Rightarrow> 'e transport" where
  "http_as_transport parse_json send t =
     \<lparr>send_get = \<lambda>path. http_call parse_json send t GET path None,
      send_post = \<lambda>path body. http_call parse_json send t POST path (Some body),
      send_delete = \<lambda>path. http_call parse_json send t DELETE path None\<rparr>"

section \<open>Laws\<close>

text \<open>Replacing a marker by bracketed text removes it and brings back no other marker.\<close>

definition marker_text :: "str \<Rightarrow> bool" where
  "marker_text m \<longleftrightarrow> m \<noteq> [] \<and> CHR ''['' \<notin> set m \<and> CHR '']'' \<notin> set m \<and> CHR ''.'' \<notin> set m \<and>
     CHR '' '' \<notin> set m \<and> \<not> contains ''[redacted'' m"

lemma markers_ok: "list_all marker_text redacted_markers"
  by code_simp

lemma contains_sep:
  "contains (a @ c # b) m \<Longrightarrow> c \<notin> set m \<Longrightarrow> m \<noteq> [] \<Longrightarrow> contains a m \<or> contains b m"
proof (induction a)
  case Nil
  then show ?case by (cases m) auto
next
  case (Cons x a)
  from Cons.prems(1) consider "prefix m ((x # a) @ c # b)" | "contains (a @ c # b) m" by auto
  then show ?case
  proof cases
    case 1
    then have "prefix m (x # a) \<or> prefix (x # a @ [c]) m"
      using prefix_same_cases [of m "(x # a) @ c # b" "x # a @ [c]"] by (auto simp: prefix_Cons prefix_append)
    then show ?thesis using Cons.prems(2) by (auto dest: prefix_contains set_mono_prefix)
  next
    case 2
    with Cons show ?thesis by auto
  qed
qed

lemma replace_step:
  "replace_str p r (c # t) =
     (if p \<noteq> [] \<and> prefix p (c # t) then r @ replace_str p r (drop (length p) (c # t))
      else c # replace_str p r t)"
  by (subst replace_str.simps) simp

lemma prefix_replace:
  assumes "CHR ''['' \<notin> set m"
  shows "prefix m (replace_str p ''[redacted]'' s) \<Longrightarrow> prefix m s"
  using assms
proof (induction s arbitrary: m)
  case (Cons c t)
  show ?case
  proof (cases "p \<noteq> [] \<and> prefix p (c # t)")
    case True
    with Cons.prems show ?thesis by (cases m) (auto simp: replace_step)
  next
    case False
    with Cons show ?thesis by (cases m) (auto simp: replace_step)
  qed
qed simp

lemma contains_replace:
  assumes "marker_text m" "contains (replace_str p ''[redacted]'' s) m"
  shows "contains s m"
  using assms(2)
proof (induction "length s" arbitrary: s rule: less_induct)
  case less
  show ?case
  proof (cases s)
    case Nil
    with less.prems show ?thesis by simp
  next
    case (Cons c t)
    show ?thesis
    proof (cases "p \<noteq> [] \<and> prefix p (c # t)")
      case True
      let ?rest = "drop (length p) (c # t)"
      have "contains (''[redacted'' @ CHR '']'' # replace_str p ''[redacted]'' ?rest) m"
        using less.prems True by (simp add: Cons replace_step)
      then have "contains (replace_str p ''[redacted]'' ?rest) m"
        using contains_sep assms(1) unfolding marker_text_def by blast
      moreover have "length ?rest < length s" using True by (cases p) (simp_all add: Cons)
      ultimately have "contains ?rest m" using less.hyps by blast
      then show ?thesis unfolding Cons by (metis append_take_drop_id contains_appendI2)
    next
      case False
      have step: "replace_str p ''[redacted]'' (c # t) = c # replace_str p ''[redacted]'' t"
        unfolding replace_step if_not_P [OF False] ..
      have "contains (c # replace_str p ''[redacted]'' t) m"
        using less.prems unfolding Cons step .
      then have "prefix m (c # replace_str p ''[redacted]'' t) \<or> contains (replace_str p ''[redacted]'' t) m"
        by simp
      moreover have "prefix m (c # replace_str p ''[redacted]'' t) \<Longrightarrow> prefix m (c # t)"
        using prefix_replace [of m p "c # t"] assms(1) step unfolding marker_text_def by simp
      moreover have "contains (replace_str p ''[redacted]'' t) m \<Longrightarrow> contains t m"
        using less.hyps [of t] Cons by simp
      ultimately show ?thesis unfolding Cons by auto
    qed
  qed
qed

lemma replaced_gone:
  assumes "marker_text m"
  shows "\<not> contains (replace_str m ''[redacted]'' s) m"
proof (induction "length s" arbitrary: s rule: less_induct)
  case less
  have ne: "m \<noteq> []" using assms unfolding marker_text_def by blast
  show ?case
  proof (cases s)
    case Nil
    with ne show ?thesis by simp
  next
    case (Cons c t)
    show ?thesis
    proof (cases "prefix m (c # t)")
      case True
      let ?rest = "drop (length m) (c # t)"
      have "length ?rest < length s" using ne by (cases m) (simp_all add: Cons)
      then have "\<not> contains (replace_str m ''[redacted]'' ?rest) m" by (rule less.hyps)
      then have "\<not> contains (''[redacted'' @ CHR '']'' # replace_str m ''[redacted]'' ?rest) m"
        using contains_sep assms unfolding marker_text_def by blast
      then show ?thesis using True ne by (simp add: Cons replace_step)
    next
      case False
      then have step: "replace_str m ''[redacted]'' (c # t) = c # replace_str m ''[redacted]'' t"
        by (simp add: replace_step)
      have "\<not> prefix m (c # replace_str m ''[redacted]'' t)"
        using prefix_replace [of m m "c # t"] assms False step unfolding marker_text_def by auto
      moreover have "\<not> contains (replace_str m ''[redacted]'' t) m"
        using less.hyps [of t] Cons by simp
      ultimately show ?thesis unfolding Cons step by simp
    qed
  qed
qed

lemma fold_replace_gone:
  assumes "list_all marker_text ms" "marker_text m" "m \<in> set ms \<or> \<not> contains s m"
  shows "\<not> contains (fold (\<lambda>marker acc. replace_str marker ''[redacted]'' acc) ms s) m"
  using assms(1,3)
proof (induction ms arbitrary: s)
  case (Cons a ms)
  have "m \<in> set ms \<or> \<not> contains (replace_str a ''[redacted]'' s) m"
    using Cons.prems(2) replaced_gone [OF assms(2)] contains_replace [OF assms(2)] by auto
  with Cons.IH Cons.prems(1) show ?case by simp
qed simp

lemma truncate_cases:
  obtains t where "truncate_text s m = t @ ''...''" "prefix t s" "char_count t \<le> m"
  | "truncate_text s m = s" "char_count s \<le> m"
proof (cases "take_chars m s")
  case None
  then have "truncate_text s m = s" "char_count s \<le> m"
    using None take_chars_None [of m s] by (simp_all add: truncate_text_def)
  then show thesis by (rule that(2))
next
  case (Some t)
  from take_chars_Some [OF this] have "prefix t s" "char_count t = m" by simp_all
  then show thesis
    using that(1) [of "trim_end t"] trim_end_prefix [of t] char_count_prefix [of "trim_end t" t] Some
    by (simp add: truncate_text_def prefix_order.trans [of "trim_end t" t])
qed

lemma char_count_Cons: "char_count (c # s) = (if is_cont c then 0 else 1) + char_count s"
  by (simp add: char_count_def)

lemma truncate_count: "char_count (truncate_text s m) \<le> m + 3"
  by (rule truncate_cases [of s m]) (simp_all add: char_count_def)

lemma truncate_clean:
  assumes "\<not> contains s w" "marker_text w"
  shows "\<not> contains (truncate_text s m) w"
proof (rule truncate_cases [of s m])
  fix t assume t: "truncate_text s m = t @ ''...''" "prefix t s"
  have "\<not> contains t w" using assms(1) t(2) by (metis contains_appendI1 prefix_def)
  moreover have "\<not> contains ''..'' w" using assms(2) unfolding marker_text_def by (cases w) auto
  ultimately show ?thesis
    using contains_sep [of t "CHR ''.''" "''..''" w] assms(2) unfolding t marker_text_def by auto
qed (use assms in simp)

lemma sanitize_clean: "m \<in> set redacted_markers \<Longrightarrow> \<not> contains (sanitize s n) m"
  unfolding sanitize_def using markers_ok
  by (intro truncate_clean fold_replace_gone) (auto simp: list_all_iff)

lemma sanitize_count: "char_count (sanitize s n) \<le> n + 3"
  unfolding sanitize_def by (rule truncate_count)

text \<open>The text after the status of a failure.\<close>

definition failure_detail :: "(str \<Rightarrow> str + json) \<Rightarrow> str \<Rightarrow> str" where
  "failure_detail parse_json body =
     (case api_error_message parse_json body of
        None \<Rightarrow> []
      | Some (message, None) \<Rightarrow> '': '' @ sanitize message error_message_max_chars
      | Some (message, Some suggested) \<Rightarrow>
          (let m = sanitize message (error_message_max_chars div 2 - ellipsis_chars)
           in '': '' @ m @ fix_label @ sanitize suggested
               (error_message_max_chars - (char_count m + char_count fix_label + ellipsis_chars))))"

lemma status_message_detail:
  "status_message parse_json status body = ''HTTP '' @ show_nat status @ failure_detail parse_json body"
  by (auto simp: status_message_def failure_detail_def Let_def split: option.splits)

lemma detail_count: "char_count (failure_detail parse_json body) \<le> 245"
proof -
  have label: "char_count fix_label = 16" "char_count '': '' = 2" by code_simp+
  show ?thesis
  proof (cases "api_error_message parse_json body")
    case None
    then show ?thesis by (simp add: failure_detail_def char_count_def)
  next
    case (Some e)
    obtain message suggested where e: "e = (message, suggested)" by (cases e)
    show ?thesis
    proof (cases suggested)
      case None
      then show ?thesis
        using Some e label sanitize_count [of message 240]
        by (simp add: failure_detail_def error_message_max_chars_def char_count_Cons)
    next
      case (Some remedy)
      define m where "m = sanitize message 117"
      have "char_count m \<le> 120" using sanitize_count [of message 117] by (simp add: m_def)
      moreover have "char_count (sanitize remedy (221 - char_count m)) \<le> 221 - char_count m + 3"
        by (rule sanitize_count)
      ultimately show ?thesis
        using Some \<open>api_error_message parse_json body = Some e\<close> e label
        by (simp add: failure_detail_def error_message_max_chars_def ellipsis_chars_def Let_def m_def
            char_count_Cons)
    qed
  qed
qed

lemma append_clean:
  assumes "\<not> contains a m" "\<not> contains b m" "marker_text m"
  shows "\<not> contains (a @ CHR '' '' # b) m"
  using contains_sep [of a "CHR '' ''" b m] assms unfolding marker_text_def by blast

lemma detail_clean:
  assumes "m \<in> set redacted_markers"
  shows "\<not> contains (failure_detail parse_json body) m"
proof -
  have m: "marker_text m" using markers_ok assms by (auto simp: list_all_iff)
  have words: "\<not> contains '':'' m" "\<not> contains [] m" "\<not> contains ''Suggested'' m" "\<not> contains ''fix:'' m"
    using assms unfolding redacted_markers_def by auto
  have label: "fix_label @ x = CHR '' '' # ''Suggested'' @ CHR '' '' # ''fix:'' @ CHR '' '' # x" for x
    by (simp add: fix_label_def)
  have colon: "'': '' @ x = '':'' @ CHR '' '' # x" for x by simp
  note clean = append_clean [OF _ _ m] words sanitize_clean [OF assms]
  show ?thesis
  proof (cases "api_error_message parse_json body")
    case None
    with words(2) show ?thesis by (simp only: failure_detail_def option.case not_False_eq_True)
  next
    case (Some e)
    obtain message suggested where e: "e = (message, suggested)" by (cases e)
    show ?thesis
      unfolding failure_detail_def Some e option.case prod.case Let_def
    proof (cases suggested)
      case None
      show "\<not> contains (case suggested of
          None \<Rightarrow> '': '' @ sanitize message error_message_max_chars
        | Some x \<Rightarrow> '': '' @ sanitize message (error_message_max_chars div 2 - ellipsis_chars) @ fix_label @
            sanitize x (error_message_max_chars -
              (char_count (sanitize message (error_message_max_chars div 2 - ellipsis_chars)) +
               char_count fix_label + ellipsis_chars))) m"
        unfolding None option.case colon by (intro clean)
    next
      case (Some x)
      show "\<not> contains (case suggested of
          None \<Rightarrow> '': '' @ sanitize message error_message_max_chars
        | Some x \<Rightarrow> '': '' @ sanitize message (error_message_max_chars div 2 - ellipsis_chars) @ fix_label @
            sanitize x (error_message_max_chars -
              (char_count (sanitize message (error_message_max_chars div 2 - ellipsis_chars)) +
               char_count fix_label + ellipsis_chars))) m"
        unfolding Some option.case colon label by (intro clean)
    qed
  qed
qed

section \<open>Properties\<close>

lemma check_base_url_ok:
  assumes "check_base_url pb base = Inr host"
  shows "\<exists>u. parse_url pb base = Some u \<and> u_username u = [] \<and> u_password u = None \<and>
    (u_scheme u = ''https'' \<or>
     u_scheme u = ''http'' \<and> (\<exists>h. u_host u = Some h \<and> is_loopback h))"
  using assms by (auto simp: check_base_url_def Let_def split: option.splits if_splits)

lemma build_agent_base:
  "build_agent pb timeout strict network host = Inr a \<Longrightarrow>
     ag_timeout a = timeout \<and> ag_max_redirects a = (if strict = Credentialed then Some 0 else None) \<and>
     (ag_status_as_error a = (strict \<noteq> Credentialed))"
  by (auto simp: build_agent_def base_agent_def split: option.splits sum.splits)

text \<open>
  C21. A transport is built only over a base URL without embedded credentials that is HTTPS or a
  loopback address. Whatever proxy policy is applied to it afterwards keeps that base URL, the
  credential and the scheme, and an API key's transport never follows a redirect under any policy.
\<close>

theorem accepted_transport_secure:
  assumes "build_http pb raw credential scheme = Inr t"
  shows "(\<exists>u. parse_url pb (ht_base_url t) = Some u \<and> u_username u = [] \<and> u_password u = None \<and>
      (u_scheme u = ''https'' \<or>
       u_scheme u = ''http'' \<and> (\<exists>h. u_host u = Some h \<and> is_loopback h))) \<and>
    ht_credential t = credential \<and> ht_scheme t = scheme \<and>
    ag_max_redirects (ht_agent t) = (if scheme = Api_Key then Some 0 else None) \<and>
    (case with_network pb network t of
       Inl _ \<Rightarrow> True
     | Inr t' \<Rightarrow> t' = t\<lparr>ht_agent := ht_agent t'\<rparr> \<and>
         ag_max_redirects (ht_agent t') = (if scheme = Api_Key then Some 0 else None) \<and>
         ag_timeout (ht_agent t') = 30)"
proof -
  obtain host agent where t:
    "check_base_url pb (ht_base_url t) = Inr host"
    "build_agent pb request_timeout (scheme_strictness scheme) None host = Inr agent"
    "ht_credential t = credential" "ht_scheme t = scheme" "ht_agent t = agent"
    using assms by (auto simp: build_http_def Let_def split: sum.splits)
  have strict: "scheme_strictness scheme = Credentialed \<longleftrightarrow> scheme = Api_Key"
    by (cases scheme) simp_all
  have "case with_network pb network t of
       Inl _ \<Rightarrow> True
     | Inr t' \<Rightarrow> t' = t\<lparr>ht_agent := ht_agent t'\<rparr> \<and>
         ag_max_redirects (ht_agent t') = (if scheme = Api_Key then Some 0 else None) \<and>
         ag_timeout (ht_agent t') = 30"
    using t strict
    by (auto simp: with_network_def request_timeout_def dest!: build_agent_base split: sum.splits)
  then show ?thesis
    using check_base_url_ok [OF t(1)] build_agent_base [OF t(2)] t(3-5) strict by simp
qed

theorem accepted_transport_secure_witness:
  "\<exists>t :: unit http_transport. ht_credential t = ''k'' \<and> ag_max_redirects (ht_agent t) = Some 0"
proof -
  define pb :: "unit proxy_builder" where
    "pb = \<lparr>parse_url = (\<lambda>u. if u = ''https://api.example''
              then Some \<lparr>u_scheme = ''https'', u_username = [], u_password = None,
                u_host = Some (Domain ''api.example''), u_host_str = Some ''api.example'', u_port = None\<rparr>
              else None),
           percent_decoded = id, build_proxy = (\<lambda>_ _ _ _. Some ())\<rparr>"
  have base: "trim_end_char CHR ''/'' (trim '' https://api.example/ '') = ''https://api.example''" by code_simp
  obtain t where "build_http pb '' https://api.example/ '' ''k'' Api_Key = Inr t"
    by (simp add: build_http_def base check_base_url_def pb_def build_agent_def)
  from accepted_transport_secure [OF this] show ?thesis by (intro exI [of _ t]) simp
qed

text \<open>
  A request goes to the base URL with the path appended and carries the credential's header
  and at most one other, a time zone of at most sixty-four letters, digits and \<open>/ _ + -\<close>.
\<close>

theorem request_shape:
  "rq_url (request_for (with_timezone zone t) meth path body) = ht_base_url t @ path \<and>
   rq_body (request_for (with_timezone zone t) meth path body) = body \<and>
   (rq_headers (request_for (with_timezone zone t) meth path body) = [auth_header t] \<or>
    (\<exists>z. rq_headers (request_for (with_timezone zone t) meth path body) = [auth_header t, (''x-timezone'', z)] \<and>
       zone \<noteq> None \<and> z = trim (the zone) \<and> 0 < length z \<and> length z \<le> 64 \<and>
       list_all (\<lambda>c. is_alnum c \<or> List.member ''/_+-'' c) z))"
  by (cases zone)
    (auto simp: request_for_def with_timezone_def http_url_def auth_header_def valid_zone_def timezone_max_len_def
      timezone_header_def opt_filter_def split: option.splits)

text \<open>
  C23. A refusal under an API key reads as its status followed by at most 245 characters, and those
  name none of the redacted identifier fields, whatever the provider's body says.
\<close>

theorem credentialed_failure_scrubbed:
  assumes "rs_status r < 200 \<or> 300 \<le> rs_status r"
  shows "\<exists>d. finish parse_json url Credentialed (Inr r) = Inl (''HTTP '' @ show_nat (rs_status r) @ d) \<and>
    char_count d \<le> 245 \<and> list_all (\<lambda>m. \<not> contains d m) redacted_markers"
  using assms detail_clean [of _ parse_json] detail_count [of parse_json]
  by (auto simp: finish_def no_content_def status_message_detail list_all_iff split: sum.splits)

theorem credentialed_failure_scrubbed_witness:
  "\<exists>d. finish (\<lambda>_. Inr (JObj [(''message'', JStr ''no user_id'')])) [] Credentialed
      (Inr \<lparr>rs_status = 401, rs_body = Inr []\<rparr>) = Inl (''HTTP '' @ show_nat 401 @ d) \<and>
    char_count d \<le> 245 \<and> \<not> contains d ''user_id''"
  using credentialed_failure_scrubbed
    [of "\<lparr>rs_status = 401, rs_body = Inr []\<rparr>" "\<lambda>_. Inr (JObj [(''message'', JStr ''no user_id'')])" "[]"]
  by (auto simp: redacted_markers_def)

end
