(* ===== verification/Providers.thy ===== *)
theory Providers
  imports Task_Window Catalogs Prefs Client
begin

text \<open>
  The toolkits' providers: \<open>crates/tinyconnectors-sync/src/provider\<close> and \<open>toolkits/*.rs\<close>, with the
  payloads of \<open>crates/tinyconnectors-bus/src/composio/connections/types.rs\<close>. A provider names the
  action that reads an account's identity and says which fields of its answer become the profile.
  Which account the action runs on is fixed by the caller's connection.
\<close>

section \<open>Identities\<close>

record user_profile =
  up_toolkit :: str
  up_connection_id :: "str option"
  up_display_name :: "str option"
  up_email :: "str option"
  up_username :: "str option"
  up_avatar_url :: "str option"
  up_profile_url :: "str option"
  up_extras :: json

definition pick :: "json \<Rightarrow> str list \<Rightarrow> str option" where
  "pick payload paths =
     first_some (\<lambda>path.
       opt_filter (\<lambda>v. v \<noteq> []) (map_option trim
         (Option.bind (jget_path payload (split_on CHR ''.'' path)) as_str))) paths"

definition empty_profile :: user_profile where
  "empty_profile =
     \<lparr>up_toolkit = [], up_connection_id = None, up_display_name = None, up_email = None,
      up_username = None, up_avatar_url = None, up_profile_url = None, up_extras = JNull\<rparr>"

definition gmail_profile :: "str \<Rightarrow> json \<Rightarrow> user_profile" where
  "gmail_profile connid payload =
     empty_profile\<lparr>up_toolkit := ''gmail'', up_connection_id := Some connid,
       up_email := pick payload [''emailAddress'', ''email''],
       up_display_name := pick payload [''name'', ''displayName''],
       up_extras := payload\<rparr>"

definition slack_profile :: "str \<Rightarrow> json \<Rightarrow> user_profile" where
  "slack_profile connid payload =
     empty_profile\<lparr>up_toolkit := ''slack'', up_connection_id := Some connid,
       up_display_name := pick payload [''team.name'', ''name'', ''data.team.name''],
       up_username := pick payload [''team.domain'', ''domain'', ''data.team.domain''],
       up_avatar_url := pick payload [''team.icon.image_132'', ''icon.image_132''],
       up_extras := payload\<rparr>"

definition notion_profile :: "str \<Rightarrow> json \<Rightarrow> user_profile" where
  "notion_profile connid payload =
     empty_profile\<lparr>up_toolkit := ''notion'', up_connection_id := Some connid,
       up_display_name := pick payload [''name''],
       up_email := pick payload [''person.email'', ''email''],
       up_avatar_url := pick payload [''avatar_url''],
       up_username := pick payload [''id''],
       up_extras := payload\<rparr>"

definition github_profile :: "str \<Rightarrow> json \<Rightarrow> user_profile" where
  "github_profile connid payload =
     \<lparr>up_toolkit = ''github'', up_connection_id = Some connid,
      up_display_name = pick payload [''name''],
      up_email = pick payload [''email''],
      up_username = pick payload [''login''],
      up_avatar_url = pick payload [''avatar_url''],
      up_profile_url = pick payload [''html_url''],
      up_extras = payload\<rparr>"

definition clickup_profile :: "str \<Rightarrow> json \<Rightarrow> user_profile" where
  "clickup_profile connid payload =
     empty_profile\<lparr>up_toolkit := ''clickup'', up_connection_id := Some connid,
       up_username := pick payload [''username''],
       up_display_name := pick payload [''username''],
       up_email := pick payload [''email''],
       up_avatar_url := pick payload [''profilePicture''],
       up_extras := payload\<rparr>"

definition linear_profile :: "str \<Rightarrow> json \<Rightarrow> user_profile" where
  "linear_profile connid payload =
     empty_profile\<lparr>up_toolkit := ''linear'', up_connection_id := Some connid,
       up_display_name := pick payload [''name'', ''displayName''],
       up_email := pick payload [''email''],
       up_extras := payload\<rparr>"

section \<open>Providers\<close>

record provider =
  pv_toolkit_slug :: str
  pv_description :: str
  pv_curated :: "catalog option"
  pv_profile_action :: str
  pv_profile :: "str \<Rightarrow> json \<Rightarrow> user_profile"

definition clickup_provider :: provider where
  "clickup_provider =
     \<lparr>pv_toolkit_slug = ''clickup'', pv_description = ''Read `ClickUp` tasks and spaces.'',
      pv_curated = Some clickup_curated, pv_profile_action = ''CLICKUP_GET_AUTHORIZED_USER'',
      pv_profile = clickup_profile\<rparr>"

definition github_provider :: provider where
  "github_provider =
     \<lparr>pv_toolkit_slug = ''github'', pv_description = ''Read issues, pull requests, and repositories.'',
      pv_curated = Some github_curated, pv_profile_action = ''GITHUB_GET_THE_AUTHENTICATED_USER'',
      pv_profile = github_profile\<rparr>"

definition gmail_provider :: provider where
  "gmail_provider =
     \<lparr>pv_toolkit_slug = ''gmail'', pv_description = ''Read and send email.'',
      pv_curated = Some gmail_curated, pv_profile_action = ''GMAIL_GET_PROFILE'',
      pv_profile = gmail_profile\<rparr>"

definition linear_provider :: provider where
  "linear_provider =
     \<lparr>pv_toolkit_slug = ''linear'', pv_description = ''Read Linear issues and projects.'',
      pv_curated = Some linear_curated, pv_profile_action = ''LINEAR_LIST_LINEAR_USERS'',
      pv_profile = linear_profile\<rparr>"

definition notion_provider :: provider where
  "notion_provider =
     \<lparr>pv_toolkit_slug = ''notion'', pv_description = ''Read and search a Notion workspace.'',
      pv_curated = Some notion_curated, pv_profile_action = ''NOTION_GET_ABOUT_ME'',
      pv_profile = notion_profile\<rparr>"

definition slack_provider :: provider where
  "slack_provider =
     \<lparr>pv_toolkit_slug = ''slack'', pv_description = ''Read and send Slack messages.'',
      pv_curated = Some slack_curated, pv_profile_action = ''SLACK_FETCH_TEAM_INFO'',
      pv_profile = slack_profile\<rparr>"

text \<open>
  The registry: a map from toolkit to provider, kept as a list in ascending order of the keys.
  Registering replaces the provider of the same toolkit.
\<close>

fun register_provider :: "provider \<Rightarrow> provider list \<Rightarrow> provider list" where
  "register_provider p [] = [p]"
| "register_provider p (q # qs) =
     (if pv_toolkit_slug p = pv_toolkit_slug q then p # qs
      else if pv_toolkit_slug p < pv_toolkit_slug q then p # q # qs
      else q # register_provider p qs)"

definition provider_registry :: "provider list" where
  "provider_registry =
     fold register_provider
       [clickup_provider, github_provider, gmail_provider, linear_provider, notion_provider, slack_provider] []"

definition provider_for :: "provider list \<Rightarrow> str \<Rightarrow> provider option" where
  "provider_for reg toolkit =
     (let key = to_lower (trim toolkit) in find (\<lambda>p. pv_toolkit_slug p = key) reg)"

record capability =
  cp_toolkit :: str
  cp_description :: str
  cp_native_provider :: bool
  cp_curated_tools :: bool
  cp_curated_tool_count :: nat
  cp_tool_execution :: bool
  cp_user_profile :: bool
  cp_trigger_webhooks :: bool

definition capability_of :: "provider \<Rightarrow> capability" where
  "capability_of p =
     (let curated = unwrap_or [] (pv_curated p) in
      \<lparr>cp_toolkit = pv_toolkit_slug p, cp_description = pv_description p, cp_native_provider = True,
       cp_curated_tools = (curated \<noteq> []), cp_curated_tool_count = length curated,
       cp_tool_execution = True, cp_user_profile = True, cp_trigger_webhooks = False\<rparr>)"

definition capabilities :: "provider list \<Rightarrow> capability list" where
  "capabilities reg = map capability_of reg"

definition agent_ready_providers :: "provider list \<Rightarrow> str list" where
  "agent_ready_providers reg =
     map pv_toolkit_slug (filter (\<lambda>p. case pv_curated p of None \<Rightarrow> False | Some c \<Rightarrow> c \<noteq> []) reg)"

section \<open>Laws\<close>

text \<open>The registry stays ordered and holds one provider per toolkit.\<close>

definition registry_ok :: "provider list \<Rightarrow> bool" where
  "registry_ok reg \<longleftrightarrow> sorted_wrt (<) (map pv_toolkit_slug reg)"

lemma register_slugs: "set (map pv_toolkit_slug (register_provider p reg)) = insert (pv_toolkit_slug p) (set (map pv_toolkit_slug reg))"
  by (induction p reg rule: register_provider.induct) auto

lemma register_ok: "registry_ok reg \<Longrightarrow> registry_ok (register_provider p reg)"
proof (induction p reg rule: register_provider.induct)
  case (2 p q qs)
  then show ?case
    using register_slugs [of p qs]
    by (auto simp: registry_ok_def)
qed (simp add: registry_ok_def)

lemma find_register:
  "registry_ok reg \<Longrightarrow>
     find (\<lambda>q. pv_toolkit_slug q = t) (register_provider p reg) =
     (if pv_toolkit_slug p = t then Some p else find (\<lambda>q. pv_toolkit_slug q = t) reg)"
  by (induction p reg rule: register_provider.induct) (auto simp: registry_ok_def find_None_iff)

lemma provider_registry_list:
  "provider_registry =
     [clickup_provider, github_provider, gmail_provider, linear_provider, notion_provider, slack_provider]"
  by (simp add: provider_registry_def clickup_provider_def github_provider_def gmail_provider_def
      linear_provider_def notion_provider_def slack_provider_def)

lemma provider_registry_default:
  "map (\<lambda>p. (pv_toolkit_slug p, pv_curated p)) provider_registry = default_registry"
  by (simp add: provider_registry_list default_registry_def clickup_provider_def github_provider_def
      gmail_provider_def linear_provider_def notion_provider_def slack_provider_def)

lemma provider_for_default:
  "map_option pv_curated (provider_for provider_registry t) = registry_get default_registry t"
proof -
  have "map_option g (find (\<lambda>p. f p = k) ps) = map_of (map (\<lambda>p. (f p, g p)) ps) k"
    for f :: "provider \<Rightarrow> str" and g :: "provider \<Rightarrow> catalog option" and k ps
    by (induction ps) auto
  then show ?thesis
    unfolding provider_for_def registry_get_def Let_def provider_registry_default [symmetric] by blast
qed

lemma pick_trimmed: "pick payload paths = Some v \<Longrightarrow> v \<noteq> [] \<and> trim v = v"
  by (auto simp: pick_def opt_filter_Some_iff dest!: first_some_SomeD)

lemma pick_shown: "pred_option (\<lambda>v. v \<noteq> [] \<and> trim v = v) (pick payload paths)"
  using pick_trimmed [of payload paths] by (cases "pick payload paths") simp_all

lemma list_all_filter_map: "list_all P (filter_map id xs) = list_all (pred_option P) xs"
  by (induction xs) (auto split: option.splits)

text \<open>A profile's fields.\<close>

definition profile_texts :: "user_profile \<Rightarrow> str list" where
  "profile_texts u =
     filter_map id [up_display_name u, up_email u, up_username u, up_avatar_url u, up_profile_url u]"

lemma provider_cases:
  "provider_for provider_registry t = Some p \<Longrightarrow>
     p \<in> {clickup_provider, github_provider, gmail_provider, linear_provider, notion_provider, slack_provider}"
  by (auto simp: provider_for_def Let_def provider_registry_list split: if_splits)

lemmas profile_defs =
  clickup_profile_def github_profile_def gmail_profile_def linear_profile_def notion_profile_def
  slack_profile_def empty_profile_def

lemmas provider_defs =
  clickup_provider_def github_provider_def gmail_provider_def linear_provider_def notion_provider_def
  slack_provider_def

lemma profile_action_toolkit:
  "p \<in> {clickup_provider, github_provider, gmail_provider, linear_provider, notion_provider, slack_provider} \<Longrightarrow>
     sync_toolkit_from_slug (pv_profile_action p) = Some (pv_toolkit_slug p)"
proof -
  have clickup: "sync_toolkit_from_slug (pv_profile_action clickup_provider) = Some (pv_toolkit_slug clickup_provider)"
    unfolding clickup_provider_def provider.simps by code_simp
  have github: "sync_toolkit_from_slug (pv_profile_action github_provider) = Some (pv_toolkit_slug github_provider)"
    unfolding github_provider_def provider.simps by code_simp
  have gmail: "sync_toolkit_from_slug (pv_profile_action gmail_provider) = Some (pv_toolkit_slug gmail_provider)"
    unfolding gmail_provider_def provider.simps by code_simp
  have linear: "sync_toolkit_from_slug (pv_profile_action linear_provider) = Some (pv_toolkit_slug linear_provider)"
    unfolding linear_provider_def provider.simps by code_simp
  have notion: "sync_toolkit_from_slug (pv_profile_action notion_provider) = Some (pv_toolkit_slug notion_provider)"
    unfolding notion_provider_def provider.simps by code_simp
  have slack: "sync_toolkit_from_slug (pv_profile_action slack_provider) = Some (pv_toolkit_slug slack_provider)"
    unfolding slack_provider_def provider.simps by code_simp
  assume "p \<in> {clickup_provider, github_provider, gmail_provider, linear_provider, notion_provider, slack_provider}"
  then show ?thesis using clickup github gmail linear notion slack by blast
qed

lemma profile_origin:
  assumes "provider_for provider_registry t = Some p"
  shows "up_toolkit (pv_profile p connid payload) = pv_toolkit_slug p \<and>
    up_connection_id (pv_profile p connid payload) = Some connid \<and>
    up_extras (pv_profile p connid payload) = payload"
  using provider_cases [OF assms] by (auto simp: profile_defs provider_defs)

section \<open>Properties\<close>

text \<open>
  Registering keeps the registry ordered with one provider per toolkit, makes the new provider
  the one found for its toolkit under any spelling, and leaves every other toolkit's provider alone.
\<close>

theorem register_replaces:
  assumes "registry_ok reg"
  shows "registry_ok (register_provider p reg) \<and>
    provider_for (register_provider p reg) t =
      (if pv_toolkit_slug p = to_lower (trim t) then Some p else provider_for reg t)"
  using assms by (simp add: register_ok find_register provider_for_def Let_def)

theorem register_replaces_witness:
  "registry_ok (register_provider (slack_provider\<lparr>pv_curated := None\<rparr>) provider_registry) \<and>
   map_option pv_curated (provider_for (register_provider (slack_provider\<lparr>pv_curated := None\<rparr>)
     provider_registry) ''slack'') = Some None"
proof -
  have "registry_ok provider_registry"
    by (simp add: registry_ok_def provider_registry_list provider_defs)
  moreover have "pv_toolkit_slug (slack_provider\<lparr>pv_curated := None\<rparr>) = to_lower (trim ''slack'')"
    by (simp add: slack_provider_def str_eval)
  ultimately show ?thesis
    using register_replaces [of provider_registry "slack_provider\<lparr>pv_curated := None\<rparr>" "''slack''"]
    by simp
qed

text \<open>
  Every provider of this build reports its own toolkit and the connection it was asked about,
  hands the whole answer on, and shows no blank or padded field.
\<close>

theorem profile_attributed:
  assumes "provider_for provider_registry t = Some p"
  shows "up_toolkit (pv_profile p connid payload) = to_lower (trim t) \<and>
    up_connection_id (pv_profile p connid payload) = Some connid \<and>
    up_extras (pv_profile p connid payload) = payload \<and>
    list_all (\<lambda>v. v \<noteq> [] \<and> trim v = v) (profile_texts (pv_profile p connid payload)) \<and>
    sync_toolkit_from_slug (pv_profile_action p) = Some (to_lower (trim t))"
proof -
  have t: "pv_toolkit_slug p = to_lower (trim t)"
    using assms by (auto simp: provider_for_def Let_def find_Some_iff)
  note profile_origin [OF assms, of connid payload]
  moreover have "list_all (\<lambda>v. v \<noteq> [] \<and> trim v = v) (profile_texts (pv_profile p connid payload))"
    using provider_cases [OF assms] unfolding profile_texts_def list_all_filter_map
    by (elim insertE emptyE) (simp_all add: pick_shown profile_defs provider_defs)
  moreover have "sync_toolkit_from_slug (pv_profile_action p) = Some (pv_toolkit_slug p)"
    using provider_cases [OF assms] profile_action_toolkit by blast
  ultimately show ?thesis unfolding t by blast
qed

theorem profile_attributed_witness:
  "up_toolkit (pv_profile gmail_provider ''c1'' JNull) = ''gmail''"
proof -
  have n: "to_lower (trim '' GMail'') = ''gmail''" by code_simp
  have "provider_for provider_registry '' GMail'' = Some gmail_provider"
    by (simp add: provider_for_def n provider_registry_list provider_defs)
  from profile_attributed [OF this] show ?thesis using n by simp
qed

end
