(* ===== verification/Service.thy ===== *)
theory Service
  imports Module_Config Providers Overview Contracts Prepare
begin

text \<open>
  The service the module exports: \<open>crates/tinyconnectors/src/tinybus_module/mod.rs\<close>, with
  \<open>providers/actions.rs\<close> and \<open>tinybus_module/processing.rs\<close>. Its mutable state is the outside
  world, the client of the configured route and the contract caches; what is fixed at load is the
  record \<open>host\<close>. A member yields the text of its bus failure or its reply, and the next state.
\<close>

record ('e, 'y) svc =
  sv_world :: "'e world"
  sv_client :: "('e, toolkits_response, 'y) route option"
  sv_caches :: contract_caches

text \<open>
  Fixed at load: the outside, the preference store, the offer policy, the wording of a refused
  row, of a JSON value and of a bus failure, the host language's upper-casing, the calendar
  library and the clock.
\<close>

record ('p, 'e, 'y) host =
  ho_outside :: "('p, 'e, toolkits_response, 'y) outside"
  ho_prefs :: "'e prefs_store"
  ho_offered :: offered_toolkits
  ho_refusal :: "json \<Rightarrow> str"
  ho_show_json :: "json \<Rightarrow> str"
  ho_show_failure :: "str \<Rightarrow> str"
  ho_uppercase :: "str \<Rightarrow> str"
  ho_chrono :: chrono
  ho_clock :: "'e \<Rightarrow> nat"

type_synonym ('e, 'y, 'a) member = "(('e, 'y) svc, str, 'a) op"

section \<open>Lifting the parts\<close>

definition acting :: "(error \<Rightarrow> 'z) \<Rightarrow> ('e, 'a) act \<Rightarrow> (('e, 'y) svc, 'z, 'a) op" where
  "acting f m = (\<lambda>s. case m (sv_world s) of
       (Inl e, w) \<Rightarrow> (Inl (f e), s\<lparr>sv_world := w\<rparr>)
     | (Inr a, w) \<Rightarrow> (Inr a, s\<lparr>sv_world := w\<rparr>))"

definition storing :: "('e, 'z, 'a) op \<Rightarrow> (('e, 'y) svc, 'z, 'a) op" where
  "storing m = (\<lambda>s. case m (env (sv_world s)) of
       (r, e) \<Rightarrow> (r, s\<lparr>sv_world := (sv_world s)\<lparr>env := e\<rparr>\<rparr>))"

definition no_route :: str where
  "no_route =
     ''this module was loaded without a connector route: pass a `route` of '' @
     ''\"proxy\" or \"direct\" in its configuration, or call Configure, to '' @
     ''reach Composio''"

definition service_client :: "('e, 'y, ('e, toolkits_response, 'y) route) member" where
  "service_client = (\<lambda>s. case sv_client s of None \<Rightarrow> (Inl no_route, s) | Some r \<Rightarrow> (Inr r, s))"

text \<open>A member that only passes on to the client.\<close>

definition forward ::
  "(error \<Rightarrow> str) \<Rightarrow> (('e, toolkits_response, 'y) route \<Rightarrow> ('e, 'a) act) \<Rightarrow> ('e, 'y, 'a) member" where
  "forward f g = bindO service_client (\<lambda>r. acting f (g r))"

section \<open>The scope preference\<close>

definition stored_pref :: "('p, 'e, 'y) host \<Rightarrow> str \<Rightarrow> ('e, 'y, scope_pref) member" where
  "stored_pref ho toolkit =
     storing (map_errO sync_error_text (load_pref (ho_refusal ho) (ho_prefs ho) toolkit))"

definition curated_scope :: "str \<Rightarrow> str \<Rightarrow> tool_scope option" where
  "curated_scope toolkit action =
     Option.bind (registry_get default_registry toolkit) (\<lambda>curated.
       Option.bind curated (\<lambda>cat. map_option snd (find_curated cat action)))"

definition permits :: "('p, 'e, 'y) host \<Rightarrow> str \<Rightarrow> ('e, 'y, bool) member" where
  "permits ho action =
     (case sync_toolkit_from_slug action of
        None \<Rightarrow> retO True
      | Some toolkit \<Rightarrow>
          bindO (storing (pref_for (ho_refusal ho) (ho_prefs ho) action)) (\<lambda>pref.
            retO (allows pref (unwrap_or (sync_classify_unknown action) (curated_scope toolkit action)))))"

definition listed :: "('p, 'e, 'y) host \<Rightarrow> str \<Rightarrow> ('e, 'y, bool) member" where
  "listed ho action =
     (if sync_toolkit_from_slug action = None then retO True
      else bindO (storing (pref_for (ho_refusal ho) (ho_prefs ho) action)) (\<lambda>pref.
        retO (is_action_visible_with_pref action pref)))"

definition not_permitted :: "str \<Rightarrow> str" where
  "not_permitted tool =
     ''`'' @ tool @ ''` is not permitted: the scope preference for this toolkit does not allow it''"

definition execute_checked ::
  "('p, 'e, 'y) host \<Rightarrow> str \<Rightarrow> json option \<Rightarrow> str option \<Rightarrow> ('e, 'y, execute_response) member" where
  "execute_checked ho tool arguments connid =
     bindO (permits ho tool) (\<lambda>ok.
       if \<not> ok then failO (not_permitted tool)
       else forward (\<lambda>e. format_provider_error tool (error_text e))
              (\<lambda>r. client_execute (ho_show_json ho) r tool arguments connid))"

definition no_active_connection :: "str \<Rightarrow> str" where
  "no_active_connection toolkit = ''no active connection for toolkit `'' @ toolkit @ ''`''"

definition first_active_connection :: "str \<Rightarrow> ('e, 'y, str) member" where
  "first_active_connection toolkit =
     (let wanted = to_lower (trim toolkit) in
      bindO (forward error_text r_list_connections) (\<lambda>connections.
        case find (\<lambda>c. is_active c \<and> normalized_toolkit c = wanted) connections of
          Some c \<Rightarrow> retO (conn_id c)
        | None \<Rightarrow> failO (no_active_connection toolkit)))"

section \<open>Configuration and listings\<close>

text \<open>A new client comes with a new route, which has counted no rejection yet.\<close>

definition configure :: "('p, 'e, 'y) host \<Rightarrow> configure_request \<Rightarrow> ('e, 'y, str) member" where
  "configure ho request = (\<lambda>s.
     case (case config_of_request request of
             Some c \<Rightarrow> bind_result (into_route (ho_outside ho) c) (\<lambda>r. Inr (Some r, route_name r))
           | None \<Rightarrow> Inr (None, ''none'')) of
       Inl e \<Rightarrow> (Inl (error_text e), s)
     | Inr (client, name) \<Rightarrow>
         (Inr name,
          s\<lparr>sv_client := client, sv_caches := caches_clear (sv_caches s),
            sv_world := (sv_world s)\<lparr>gate := Map.empty\<rparr>\<rparr>))"

definition list_toolkits :: "('p, 'e, 'y) host \<Rightarrow> ('e, 'y, toolkits_response) member" where
  "list_toolkits ho =
     bindO (forward error_text r_list_toolkits) (\<lambda>response.
       retO (response\<lparr>tr_toolkits := filter (offer_permits (ho_offered ho)) (tr_toolkits response),
              tr_catalog := filter (\<lambda>e. offer_permits (ho_offered ho) (ce_slug e)) (tr_catalog response)\<rparr>))"

definition list_connections :: "('e, 'y, connection list) member" where
  "list_connections = forward error_text r_list_connections"

definition service_authorize ::
  "str \<Rightarrow> json option \<Rightarrow> ('e, 'y, authorize_response) member" where
  "service_authorize toolkit extra_params =
     forward (\<lambda>e. error_text (wrap_authorize_rate_limit_error toolkit e))
       (\<lambda>r. authorize_with_rate_limit_retry (client_authorize r toolkit extra_params))"

definition delete_connection :: "str \<Rightarrow> ('e, 'y, bool) member" where
  "delete_connection connid = forward error_text (\<lambda>r. client_delete_connection r connid)"

fun keep_listed :: "('p, 'e, 'y) host \<Rightarrow> tool_schema list \<Rightarrow> ('e, 'y, tool_schema list) member" where
  "keep_listed ho [] = retO []"
| "keep_listed ho (tool # tools) =
     bindO (listed ho (tf_name (ts_function tool))) (\<lambda>ok.
       bindO (keep_listed ho tools) (\<lambda>rest. retO (if ok then tool # rest else rest)))"

definition offered_tool :: "('p, 'e, 'y) host \<Rightarrow> tool_schema \<Rightarrow> bool" where
  "offered_tool ho tool =
     (case sync_toolkit_from_slug (tf_name (ts_function tool)) of
        None \<Rightarrow> True | Some toolkit \<Rightarrow> offer_permits (ho_offered ho) toolkit)"

definition list_tools ::
  "('p, 'e, 'y) host \<Rightarrow> str list \<Rightarrow> str list \<Rightarrow> bool \<Rightarrow> ('e, 'y, tool_schema list) member" where
  "list_tools ho toolkits tags apply_user_scopes =
     bindO (forward error_text (\<lambda>r. client_list_tools r toolkits tags)) (\<lambda>tools.
       let offered = filter (offered_tool ho) tools in
       if apply_user_scopes then keep_listed ho offered else retO offered)"

definition scopes_response :: "str \<Rightarrow> scope_pref \<Rightarrow> str \<times> scope_pref" where
  "scopes_response toolkit pref = (to_lower (trim toolkit), pref)"

definition get_user_scopes :: "('p, 'e, 'y) host \<Rightarrow> str \<Rightarrow> ('e, 'y, str \<times> scope_pref) member" where
  "get_user_scopes ho toolkit = bindO (stored_pref ho toolkit) (\<lambda>pref. retO (scopes_response toolkit pref))"

definition set_user_scopes ::
  "('p, 'e, 'y) host \<Rightarrow> str \<Rightarrow> scope_pref \<Rightarrow> ('e, 'y, str \<times> scope_pref) member" where
  "set_user_scopes ho toolkit pref =
     bindO (storing (map_errO sync_error_text (save_pref (ho_prefs ho) pref toolkit)))
       (\<lambda>_. retO (scopes_response toolkit pref))"

section \<open>Preparation and classification\<close>

type_synonym provider_error = "str \<times> str"

definition classified :: "str \<Rightarrow> str \<Rightarrow> provider_error" where
  "classified tool message =
     (class_name (classify_composio_error tool message), format_provider_error tool message)"

definition bad_since :: str where
  "bad_since = ''invalid recency boundary; expected RFC3339''"

definition parse_since :: "chrono \<Rightarrow> str \<Rightarrow> str + int" where
  "parse_since ch v = (case parse_rfc3339 ch v of Some t \<Rightarrow> Inr t | None \<Rightarrow> Inl bad_since)"

definition prepare_arguments ::
  "('p, 'e, 'y) host \<Rightarrow> str \<Rightarrow> json option \<Rightarrow> str option \<Rightarrow> str option \<Rightarrow> provider_error + json" where
  "prepare_arguments ho tool arguments timezone since =
     (let zoned = (case timezone of Some z \<Rightarrow> apply_calendar_query_defaults tool arguments z | None \<Rightarrow> arguments) in
      case (case since of
              None \<Rightarrow> Inr zoned
            | Some v \<Rightarrow> bind_result (parse_since (ho_chrono ho) v) (\<lambda>t.
                Inr (apply_window_args (ho_chrono ho) tool zoned t))) of
        Inl m \<Rightarrow> Inl (''validation'', m)
      | Inr prepared \<Rightarrow>
          map_error (\<lambda>e. classified tool (error_text e))
            (prepare_execute_arguments (ho_show_json ho) tool prepared))"

definition filter_response_member ::
  "('p, 'e, 'y) host \<Rightarrow> str \<Rightarrow> execute_response \<Rightarrow> str \<Rightarrow> ('e, 'y, execute_response) member" where
  "filter_response_member ho tool response since =
     (case parse_since (ho_chrono ho) since of
        Inl m \<Rightarrow> failO m
      | Inr t \<Rightarrow> retO (filter_response (ho_chrono ho) tool response t))"

section \<open>Actions of a provider\<close>

definition refusal_message :: "str option \<Rightarrow> str" where
  "refusal_message e =
     unwrap_or ''the provider reported failure'' (opt_filter (\<lambda>m. m \<noteq> []) (map_option trim e))"

definition run_action ::
  "('p, 'e, 'y) host \<Rightarrow> str \<Rightarrow> json \<Rightarrow> str \<Rightarrow> (('e, 'y) svc, sync_error, json) op" where
  "run_action ho action arguments connid =
     bindO (\<lambda>s. case sv_client s of
              None \<Rightarrow> (Inl (Action action ''this module was loaded without a connector route''), s)
            | Some r \<Rightarrow> (Inr r, s)) (\<lambda>r.
       bindO (acting (\<lambda>e. Action action (error_text e))
           (client_execute (ho_show_json ho) r action (Some arguments) (Some connid))) (\<lambda>response.
         if \<not> successful response then failO (Action action (refusal_message (resp_error response)))
         else retO (resp_data response)))"

definition no_provider :: "str \<Rightarrow> str" where
  "no_provider toolkit =
     ''no provider for toolkit `'' @ toolkit @ ''`: this build does not know how to read its profile''"

definition profile_of :: "('p, 'e, 'y) host \<Rightarrow> str \<Rightarrow> str \<Rightarrow> ('e, 'y, user_profile) member" where
  "profile_of ho toolkit connid =
     (case provider_for provider_registry toolkit of
        None \<Rightarrow> failO (no_provider toolkit)
      | Some p \<Rightarrow>
          bindO (map_errO sync_error_text (run_action ho (pv_profile_action p) (JObj []) connid))
            (\<lambda>payload. retO (pv_profile p connid payload)))"

definition get_user_profile :: "('p, 'e, 'y) host \<Rightarrow> str \<Rightarrow> str option \<Rightarrow> ('e, 'y, user_profile) member" where
  "get_user_profile ho toolkit connid =
     bindO (case opt_filter (\<lambda>i. trim i \<noteq> []) connid of
              Some i \<Rightarrow> retO i
            | None \<Rightarrow> first_active_connection toolkit) (\<lambda>i. profile_of ho toolkit i)"

record identity_failure =
  if_connection_id :: str
  if_toolkit :: str
  if_message :: str

fun refresh_loop ::
  "('p, 'e, 'y) host \<Rightarrow> connection list \<Rightarrow> ('e, 'y, user_profile list \<times> identity_failure list) member" where
  "refresh_loop ho [] = retO ([], [])"
| "refresh_loop ho (c # cs) = (\<lambda>s.
     case profile_of ho (normalized_toolkit c) (conn_id c) s of
       (r, s1) \<Rightarrow>
         bindO (refresh_loop ho cs) (\<lambda>(ps, fs). retO
           (case r of
              Inr p \<Rightarrow> (p # ps, fs)
            | Inl m \<Rightarrow> (ps, \<lparr>if_connection_id = conn_id c, if_toolkit = normalized_toolkit c,
                if_message = ho_show_failure ho m\<rparr> # fs))) s1)"

definition refresh_all_identities ::
  "('p, 'e, 'y) host \<Rightarrow> ('e, 'y, user_profile list \<times> identity_failure list) member" where
  "refresh_all_identities ho =
     bindO (forward error_text r_list_connections) (\<lambda>connections.
       refresh_loop ho (filter is_active connections))"

section \<open>The other members\<close>

definition list_github_repos :: "str option \<Rightarrow> ('e, 'y, 'y) member" where
  "list_github_repos connid = forward error_text (\<lambda>r. client_list_github_repos r connid)"

definition list_available_triggers :: "str \<Rightarrow> str option \<Rightarrow> ('e, 'y, available_trigger list) member" where
  "list_available_triggers toolkit connid =
     forward error_text (\<lambda>r. client_list_available_triggers r toolkit connid)"

definition list_triggers :: "str option \<Rightarrow> ('e, 'y, active_trigger list) member" where
  "list_triggers toolkit = forward error_text (\<lambda>r. client_list_triggers r toolkit)"

definition create_trigger ::
  "str \<Rightarrow> str option \<Rightarrow> json option \<Rightarrow> ('e, 'y, create_trigger_response) member" where
  "create_trigger slug connid config = forward error_text (\<lambda>r. client_create_trigger r slug connid config)"

definition enable_trigger ::
  "str \<Rightarrow> str \<Rightarrow> json option \<Rightarrow> ('e, 'y, enable_trigger_response) member" where
  "enable_trigger connid slug config =
     forward (\<lambda>e. format_provider_error slug (error_text e))
       (\<lambda>r. client_enable_trigger r connid slug config)"

definition disable_trigger :: "str \<Rightarrow> ('e, 'y, bool) member" where
  "disable_trigger trigger_id = forward error_text (\<lambda>r. client_disable_trigger r trigger_id)"

definition list_agent_ready :: "('p, 'e, 'y) host \<Rightarrow> str list" where
  "list_agent_ready ho = filter (offer_permits (ho_offered ho)) (agent_ready_providers provider_registry)"

definition vocabulary_member :: "('p, 'e, 'y) host \<Rightarrow> str list \<Rightarrow> toolkit_vocabulary list \<times> str list" where
  "vocabulary_member ho toolkits =
     (case get_vocabulary toolkits of (rows, ready) \<Rightarrow> (rows, filter (offer_permits (ho_offered ho)) ready))"

definition visible_tools_member ::
  "('p, 'e, 'y) host \<Rightarrow> str \<Rightarrow> scope_pref option \<Rightarrow> ('e, 'y, visible_tools) member" where
  "visible_tools_member ho toolkit0 preference =
     (let toolkit = to_lower (trim toolkit0) in
      bindO (case preference of Some p \<Rightarrow> retO p | None \<Rightarrow> stored_pref ho toolkit) (\<lambda>p.
        retO (list_visible_tools toolkit p)))"

end
