(* ===== verification/Service_Laws.thy ===== *)
theory Service_Laws
  imports Service "HOL-Library.Multiset"
begin

text \<open>
  What the service of \<open>crates/tinyconnectors/src/tinybus_module/mod.rs\<close> promises: enforcement of
  the stored scope preference, listings, reconfiguration and the identity refresh.
\<close>

section \<open>Lifted parts\<close>

text \<open>\<open>keeps f m\<close>: the operation leaves the part \<open>f\<close> of the state as it is.\<close>

definition keeps :: "('s \<Rightarrow> 'k) \<Rightarrow> ('s, 'z, 'a) op \<Rightarrow> bool" where
  "keeps f m \<longleftrightarrow> (\<forall>s. f (snd (m s)) = f s)"

lemma keepsD: "keeps f m \<Longrightarrow> m s = (r, s') \<Longrightarrow> f s' = f s"
  unfolding keeps_def by (metis snd_conv)

lemma keeps_ret [intro]: "keeps f (retO a)"
  by (simp add: keeps_def retO_def)

lemma keeps_fail [intro]: "keeps f (failO e)"
  by (simp add: keeps_def failO_def)

lemma keeps_bind [intro]:
  assumes "keeps f m" "\<And>a. keeps f (g a)"
  shows "keeps f (bindO m g)"
  using assms unfolding keeps_def bindO_def by (auto split: prod.split sum.split) (metis snd_conv)+

lemma keeps_map_err [intro]: "keeps f m \<Longrightarrow> keeps f (map_errO g m)"
  unfolding keeps_def map_errO_def by (auto split: prod.split sum.split) (metis snd_conv)+

lemma keeps_if [intro]: "keeps f a \<Longrightarrow> keeps f b \<Longrightarrow> keeps f (if c then a else b)"
  by simp

lemma keeps_storing [intro]:
  "keeps (\<lambda>s. trace (sv_world s)) (storing m)" "keeps sv_client (storing m)" "keeps sv_caches (storing m)"
  by (simp_all add: keeps_def storing_def split: prod.split)

lemma keeps_acting [intro]: "keeps sv_client (acting f m)" "keeps sv_caches (acting f m)"
  by (simp_all add: keeps_def acting_def split: prod.split sum.split)

lemma keeps_client [intro]: "keeps f service_client"
  by (simp add: keeps_def service_client_def split: option.split)

lemma keeps_forward [intro]: "keeps sv_client (forward f g)" "keeps sv_caches (forward f g)"
  unfolding forward_def by blast+

lemma keeps_permits [intro]:
  "keeps (\<lambda>s. trace (sv_world s)) (permits ho tool)" "keeps sv_client (permits ho tool)"
  "keeps sv_caches (permits ho tool)"
  unfolding permits_def by (auto split: option.split)

lemma keeps_execute [intro]:
  "keeps sv_client (execute_checked ho tool arguments connid)"
  "keeps sv_caches (execute_checked ho tool arguments connid)"
  unfolding execute_checked_def by blast+

lemma forward_no_client: "sv_client s = None \<Longrightarrow> forward f g s = (Inl no_route, s)"
  by (simp add: forward_def service_client_def bindO_def)

lemma forward_client: "sv_client s = Some r \<Longrightarrow> forward f g s = acting f (g r) s"
  by (simp add: forward_def service_client_def bindO_def)

text \<open>A store that answers a fixed view of its rows and never changes.\<close>

lemma storing_view:
  assumes "reads_as (ho_prefs ho) v"
  shows "storing (pref_for (ho_refusal ho) (ho_prefs ho) action) s =
    (let slug = to_lower (trim action) in
     case find (\<lambda>n. v (pref_key (take n slug)) \<noteq> Inr None) (underscore_ends slug) of
       None \<Rightarrow> Inr default_pref
     | Some n \<Rightarrow> row_result (ho_refusal ho) (pref_key (take n slug)) (v (pref_key (take n slug))), s)"
  by (simp add: storing_def pref_for_def Let_def pref_loop_find [OF assms] split: option.split)

text \<open>The row that governs an action.\<close>

definition governing ::
  "('p, 'e, 'y) host \<Rightarrow> (str \<Rightarrow> sync_error + json option) \<Rightarrow> str \<Rightarrow> str + scope_pref" where
  "governing ho v action =
     (let slug = to_lower (trim action) in
      case find (\<lambda>n. v (pref_key (take n slug)) \<noteq> Inr None) (underscore_ends slug) of
        None \<Rightarrow> Inr default_pref
      | Some n \<Rightarrow> row_result (ho_refusal ho) (pref_key (take n slug)) (v (pref_key (take n slug))))"

text \<open>A user who saved nothing.\<close>

definition nothing_saved :: "str \<Rightarrow> sync_error + json option" where
  "nothing_saved k = Inr None"

lemma find_none: "find (\<lambda>x. False) xs = None"
  by (induction xs) simp_all

lemma governing_nothing: "governing ho nothing_saved action = Inr default_pref"
  by (simp add: find_none governing_def nothing_saved_def Let_def)

lemma permits_view:
  assumes "reads_as (ho_prefs ho) v"
  shows "permits ho action s =
    (case sync_toolkit_from_slug action of
       None \<Rightarrow> Inr True
     | Some toolkit \<Rightarrow> bind_result (governing ho v action) (\<lambda>pref.
         Inr (allows pref (unwrap_or (sync_classify_unknown action) (curated_scope toolkit action)))), s)"
  using storing_view [OF assms, of action s]
  by (auto simp: permits_def governing_def Let_def eff split: option.split sum.split)

lemma listed_view:
  assumes "reads_as (ho_prefs ho) v"
  shows "listed ho action s =
    (if sync_toolkit_from_slug action = None then Inr True
     else bind_result (governing ho v action) (\<lambda>pref. Inr (is_action_visible_with_pref action pref)), s)"
  using storing_view [OF assms, of action s]
  by (auto simp: listed_def governing_def Let_def eff split: option.split sum.split)

section \<open>Examples\<close>

text \<open>A host over which nothing answers, with a store of a fixed view.\<close>

definition example_host :: "(str \<Rightarrow> sync_error + json option) \<Rightarrow> (unit, unit, unit) host" where
  "example_host v =
     \<lparr>ho_outside = refusing_outside,
      ho_prefs = view_store v,
      ho_offered = \<lparr>allow = [], deny = [''github'']\<rparr>,
      ho_refusal = (\<lambda>_. []), ho_show_json = (\<lambda>_. []), ho_show_failure = id,
      ho_uppercase = to_upper,
      ho_chrono = \<lparr>parse_rfc3339 = (\<lambda>_. None), from_millis = (\<lambda>_. None), to_rfc3339 = (\<lambda>_. [])\<rparr>,
      ho_clock = (\<lambda>_. 0)\<rparr>"

lemma example_host_reads: "reads_as (ho_prefs (example_host v)) v"
  by (simp add: example_host_def reads_as_def view_store_def)

definition example_state :: "(unit, unit) svc" where
  "example_state = \<lparr>sv_world = fresh_world, sv_client = None, sv_caches = default_caches\<rparr>"

definition idle_transport :: "unit transport" where
  "idle_transport =
     \<lparr>send_get = (\<lambda>_ e. (Inl (Transport [] []), e)), send_post = (\<lambda>_ _ e. (Inl (Transport [] []), e)),
      send_delete = (\<lambda>_ e. (Inl (Transport [] []), e))\<rparr>"

text \<open>A route with fixed listings, whose actions succeed with a fixed answer.\<close>

definition example_route ::
  "tool_schema list \<Rightarrow> connection list \<Rightarrow> json \<Rightarrow> (unit, toolkits_response, unit) route" where
  "example_route tools cs answer =
     (proxy_as_route idle_decoders idle_transport)\<lparr>
       r_list_tools := (\<lambda>_ _. retA tools),
       r_list_connections := retA cs,
       r_execute := (\<lambda>_ _ _. retA \<lparr>resp_data = answer, successful = True, resp_error = None,
         cost_usd = 0, markdown_formatted = None\<rparr>)\<rparr>"

definition connected_state ::
  "tool_schema list \<Rightarrow> connection list \<Rightarrow> json \<Rightarrow> (unit, unit) svc" where
  "connected_state tools cs answer = example_state\<lparr>sv_client := Some (example_route tools cs answer)\<rparr>"

definition example_tool :: "str \<Rightarrow> tool_schema" where
  "example_tool name =
     \<lparr>ts_kind = ''function'', ts_function = \<lparr>tf_name = name, tf_description = None, tf_parameters = None,
        tf_output_parameters = None\<rparr>\<rparr>"

definition example_connection :: "str \<Rightarrow> str \<Rightarrow> str \<Rightarrow> connection" where
  "example_connection i toolkit status =
     \<lparr>conn_id = i, conn_toolkit = toolkit, conn_status = status, conn_created_at = None,
      conn_account_email = None, conn_workspace = None, conn_username = None\<rparr>"

section \<open>Native toolkits\<close>

lemma native_toolkits:
  "(t, c) \<in> set default_registry \<Longrightarrow> t \<in> set curated_toolkits \<and> catalog_for_toolkit t = c \<and>
     registry_get default_registry t = Some c"
proof -
  have "list_all (\<lambda>(t, c). List.member curated_toolkits t \<and> catalog_for_toolkit t = c \<and>
      registry_get default_registry t = Some c) default_registry"
    by (simp add: default_registry_def curated_toolkits_def catalog_for_toolkit_def catalog_arms_def
        registry_get_def str_eval)
  then show "(t, c) \<in> set default_registry \<Longrightarrow> ?thesis" by (auto simp: list_all_iff)
qed

lemma native_entry:
  assumes "(t, Some cat) \<in> set default_registry" "e \<in> set cat"
  shows "sync_toolkit_from_slug (fst e) = Some t" "bus_toolkit_from_slug (fst e) = Some t"
    "find_curated cat (fst e) = Some e" "catalog_for_toolkit t = Some cat"
    "curated_scope t (fst e) = Some (snd e)"
proof -
  note n = native_toolkits [OF assms(1)]
  obtain cat' where c: "catalog_for_toolkit t = Some cat'" "table_ok (t, cat')" "family_ok t"
    using curated_table n by blast
  then have t: "table_ok (t, cat)" using n by simp
  show "sync_toolkit_from_slug (fst e) = Some t" "bus_toolkit_from_slug (fst e) = Some t"
    "find_curated cat (fst e) = Some e" "catalog_for_toolkit t = Some cat"
    using entry_attributed [OF t c(3) assms(2)] find_curated_entry [OF t c(3) assms(2)] n by simp_all
  then show "curated_scope t (fst e) = Some (snd e)" using n by (simp add: curated_scope_def)
qed

section \<open>Properties\<close>

text \<open>
  The stored preference is enforced before anything is sent: an execution that is not permitted,
  or whose preference cannot be read, is refused with no request, and a permitted one is exactly the
  client's execution with its failures classified.
\<close>

theorem execution_enforced:
  "case permits ho tool s of
     (Inl m, s') \<Rightarrow> execute_checked ho tool arguments connid s = (Inl m, s') \<and>
       trace (sv_world s') = trace (sv_world s)
   | (Inr False, s') \<Rightarrow> execute_checked ho tool arguments connid s = (Inl (not_permitted tool), s') \<and>
       trace (sv_world s') = trace (sv_world s)
   | (Inr True, s') \<Rightarrow> execute_checked ho tool arguments connid s =
       forward (\<lambda>e. format_provider_error tool (error_text e))
         (\<lambda>r. client_execute (ho_show_json ho) r tool arguments connid) s'"
  by (cases "permits ho tool s")
    (auto simp: execute_checked_def eff keepsD [OF keeps_permits(1)] split: sum.splits bool.splits)

text \<open>
  C11. For every action in the catalog of a toolkit with a provider, listing and execution agree in
  every state: an action is offered exactly when executing it is permitted, and both follow the
  action's curated scope.
\<close>

theorem native_listing_enforced:
  "list_all (\<lambda>(t, curated). list_all (\<lambda>e. listed ho (fst e) s = permits ho (fst e) s \<and>
       curated_scope t (fst e) = Some (snd e)) (unwrap_or [] curated)) default_registry"
  unfolding list_all_iff
proof
  fix te assume te: "te \<in> set default_registry"
  obtain t curated where split: "te = (t, curated)" by (cases te)
  with te have t: "(t, curated) \<in> set default_registry" by simp
  show "case te of (t, curated) \<Rightarrow> \<forall>e \<in> set (unwrap_or [] curated).
      listed ho (fst e) s = permits ho (fst e) s \<and> curated_scope t (fst e) = Some (snd e)"
    unfolding split prod.case
  proof
    fix e assume "e \<in> set (unwrap_or [] curated)"
    then obtain cat where "curated = Some cat" "e \<in> set cat" by (cases curated) simp_all
    note n = native_entry [OF t [unfolded this(1)] this(2)]
    show "listed ho (fst e) s = permits ho (fst e) s \<and> curated_scope t (fst e) = Some (snd e)"
      by (simp add: listed_def permits_def n is_action_visible_with_pref_def)
  qed
qed

text \<open>
  Reconfiguring either fails and changes nothing, or answers the name of the route now in use,
  forgets every cached contract and probe and every counted rejection, and touches nothing outside; the module is left without
  a client exactly when the host asked for that.
\<close>

theorem configure_replaces:
  "case configure ho request s of
     (Inl m, s') \<Rightarrow> s' = s \<and> config_of_request request \<noteq> None
   | (Inr name, s') \<Rightarrow> sv_world s' = (sv_world s)\<lparr>gate := Map.empty\<rparr> \<and>
       (sv_client s' = None) = (request = Configure_None) \<and>
       name = (case sv_client s' of None \<Rightarrow> ''none'' | Some r \<Rightarrow> route_name r) \<and>
       cached_catalog now (sv_caches s') toolkit = None \<and> cached_probe now (sv_caches s') slug = None"
  by (cases request)
    (auto simp: configure_def caches_clear_def cached_catalog_def cached_probe_def ttl_get_def
      split: sum.split)

text \<open>The rows of a listing a preference keeps.\<close>

definition shown_tool :: "('p, 'e, 'y) host \<Rightarrow> (str \<Rightarrow> sync_error + json option) \<Rightarrow> tool_schema \<Rightarrow> bool" where
  "shown_tool ho v tool =
     (let name = tf_name (ts_function tool) in
      sync_toolkit_from_slug name = None \<or>
      (case governing ho v name of Inl e \<Rightarrow> False | Inr pref \<Rightarrow> is_action_visible_with_pref name pref))"

lemma keep_listed_filter:
  assumes "reads_as (ho_prefs ho) v"
    and "list_all (\<lambda>tool. \<exists>pref. governing ho v (tf_name (ts_function tool)) = Inr pref) tools"
  shows "keep_listed ho tools s = (Inr (filter (shown_tool ho v) tools), s)"
  using assms(2)
proof (induction tools)
  case (Cons tool tools)
  then obtain pref where "governing ho v (tf_name (ts_function tool)) = Inr pref" by auto
  with Cons show ?case
    by (simp add: bindO_def retO_def listed_view [OF assms(1)] shown_tool_def Let_def)
qed (simp add: retO_def)

text \<open>
  A scoped tool listing is the route's listing, in its order, without the tools of toolkits the
  host does not offer and without the actions the governing preference hides; without scoping only
  the offer policy applies.
\<close>

theorem tool_listing_filtered:
  assumes "reads_as (ho_prefs ho) v" "sv_client s = Some r"
    and "r_list_tools r toolkits tags (sv_world s) = (Inr tools, w)"
    and "list_all (\<lambda>tool. \<exists>pref. governing ho v (tf_name (ts_function tool)) = Inr pref) tools"
  shows "list_tools ho toolkits tags scoped s =
    (Inr (filter (\<lambda>tool. offered_tool ho tool \<and> (if scoped then shown_tool ho v tool else True)) tools),
     s\<lparr>sv_world := w\<rparr>)"
proof -
  have "list_all (\<lambda>tool. \<exists>pref. governing ho v (tf_name (ts_function tool)) = Inr pref)
      (filter (offered_tool ho) tools)"
    using assms(4) by (auto simp: list_all_iff)
  note kept = keep_listed_filter [OF assms(1) this]
  show ?thesis
    using kept assms(3)
    by (cases scoped) (simp_all add: list_tools_def forward_client [OF assms(2)] acting_def
      client_list_tools_def bindO_def retO_def conj_commute Let_def)
qed

lemma profile_of_connection:
  assumes "profile_of ho toolkit connid s = (Inr p, s')"
  shows "up_connection_id p = Some connid"
proof -
  obtain pv payload where "provider_for provider_registry toolkit = Some pv" "p = pv_profile pv connid payload"
    using assms by (auto simp: profile_of_def eff split: option.splits prod.splits sum.splits)
  then show ?thesis using profile_origin by blast
qed

lemma refresh_loop_covers:
  "\<exists>ps fs s'. refresh_loop ho cs s = (Inr (ps, fs), s') \<and>
     mset (map up_connection_id ps) + mset (map (\<lambda>f. Some (if_connection_id f)) fs) =
     mset (map (\<lambda>c. Some (conn_id c)) cs)"
proof (induction cs arbitrary: s)
  case Nil
  then show ?case by (auto simp: retO_def)
next
  case (Cons c cs)
  obtain r s1 where r: "profile_of ho (normalized_toolkit c) (conn_id c) s = (r, s1)" by fastforce
  from Cons.IH [of s1] obtain ps fs s' where rest: "refresh_loop ho cs s1 = (Inr (ps, fs), s')"
    "mset (map up_connection_id ps) + mset (map (\<lambda>f. Some (if_connection_id f)) fs) =
     mset (map (\<lambda>c. Some (conn_id c)) cs)" by blast
  show ?case
  proof (cases r)
    case (Inl m)
    with r rest show ?thesis by (simp add: bindO_def retO_def)
  next
    case (Inr p)
    with r rest profile_of_connection show ?thesis by (fastforce simp: bindO_def retO_def)
  qed
qed

text \<open>
  Refreshing identities answers exactly once for every active connection the route lists, with
  its profile or with the reason it could not be read: one broken connection hides no other.
\<close>

theorem refresh_covers_active:
  assumes "sv_client s = Some r" "r_list_connections r (sv_world s) = (Inr cs, w)"
  shows "\<exists>ps fs s'. refresh_all_identities ho s = (Inr (ps, fs), s') \<and>
    mset (map up_connection_id ps) + mset (map (\<lambda>f. Some (if_connection_id f)) fs) =
    mset (map (\<lambda>c. Some (conn_id c)) (filter is_active cs))"
  using refresh_loop_covers [of ho "filter is_active cs" "s\<lparr>sv_world := w\<rparr>"] assms(2)
  by (simp add: refresh_all_identities_def bindO_def forward_client [OF assms(1)] acting_def)

theorem tool_listing_filtered_witness:
  "fst (list_tools (example_host nothing_saved) [] [] True
      (connected_state [example_tool ''GMAIL_DELETE_MESSAGE'', example_tool ''GITHUB_GET_A_REPOSITORY'',
         example_tool ''GMAIL_FETCH_EMAILS''] [] JNull)) =
    Inr [example_tool ''GMAIL_FETCH_EMAILS'']"
proof -
  let ?tools = "[example_tool ''GMAIL_DELETE_MESSAGE'', example_tool ''GITHUB_GET_A_REPOSITORY'',
    example_tool ''GMAIL_FETCH_EMAILS'']"
  let ?s = "connected_state ?tools [] JNull"
  have r: "sv_client ?s = Some (example_route ?tools [] JNull)"
    "r_list_tools (example_route ?tools [] JNull) [] [] (sv_world ?s) = (Inr ?tools, sv_world ?s)"
    by (simp_all add: connected_state_def example_route_def retA_def)
  have split: "sync_toolkit_from_slug ''GMAIL_DELETE_MESSAGE'' = Some ''gmail''"
    "sync_toolkit_from_slug ''GITHUB_GET_A_REPOSITORY'' = Some ''github''"
    "sync_toolkit_from_slug ''GMAIL_FETCH_EMAILS'' = Some ''gmail''" by code_simp+
  have offer: "offer_permits \<lparr>allow = [], deny = [''github'']\<rparr> ''gmail''"
    "\<not> offer_permits \<lparr>allow = [], deny = [''github'']\<rparr> ''github''" by code_simp+
  have visible: "\<not> is_action_visible_with_pref ''GMAIL_DELETE_MESSAGE'' default_pref"
    "is_action_visible_with_pref ''GMAIL_FETCH_EMAILS'' default_pref" by code_simp+
  have "filter (\<lambda>tool. offered_tool (example_host nothing_saved) tool \<and>
      (if True then shown_tool (example_host nothing_saved) nothing_saved tool else True)) ?tools =
      [example_tool ''GMAIL_FETCH_EMAILS'']"
    using split offer visible
    by (simp add: offered_tool_def shown_tool_def governing_nothing example_tool_def Let_def)
      (simp add: example_host_def)
  then show ?thesis
    using tool_listing_filtered [OF example_host_reads r, where scoped = True] by (simp add: governing_nothing)
qed

theorem refresh_covers_active_witness:
  "\<exists>ps fs s'. refresh_all_identities (example_host nothing_saved)
      (connected_state [] [example_connection ''c1'' ''gmail'' ''ACTIVE'', example_connection ''c2'' ''jira'' ''active'',
         example_connection ''c3'' ''slack'' ''PENDING''] JNull) = (Inr (ps, fs), s') \<and>
    length ps + length fs = 2"
proof -
  let ?cs = "[example_connection ''c1'' ''gmail'' ''ACTIVE'', example_connection ''c2'' ''jira'' ''active'',
    example_connection ''c3'' ''slack'' ''PENDING'']"
  let ?s = "connected_state [] ?cs JNull"
  have r: "sv_client ?s = Some (example_route [] ?cs JNull)"
    "r_list_connections (example_route [] ?cs JNull) (sv_world ?s) = (Inr ?cs, sv_world ?s)"
    by (simp_all add: connected_state_def example_route_def retA_def)
  have active: "length (filter is_active ?cs) = 2" by code_simp
  obtain ps fs s' where f: "refresh_all_identities (example_host nothing_saved) ?s = (Inr (ps, fs), s')"
    "mset (map up_connection_id ps) + mset (map (\<lambda>f. Some (if_connection_id f)) fs) =
     mset (map (\<lambda>c. Some (conn_id c)) (filter is_active ?cs))"
    using refresh_covers_active [OF r, of "example_host nothing_saved"] by blast
  from arg_cong [OF f(2), of size] have "length ps + length fs = 2" using active by simp
  with f(1) show ?thesis by blast
qed

section \<open>Where enforcement and listing part\<close>

text \<open>A user who made Gmail read-only.\<close>

definition readonly_gmail :: "str \<Rightarrow> sync_error + json option" where
  "readonly_gmail k =
     (if k = ''gmail''
      then Inr (Some (pref_to_value \<lparr>pref_read = True, pref_write = False, pref_admin = False\<rparr>))
      else Inr None)"

lemma governing_readonly:
  "governing ho readonly_gmail ''GMAIL_FORWARD_MESSAGE'' =
     Inr \<lparr>pref_read = True, pref_write = False, pref_admin = False\<rparr>"
  "governing ho readonly_gmail '' GMAIL_FORWARD_MESSAGE'' =
     Inr \<lparr>pref_read = True, pref_write = False, pref_admin = False\<rparr>"
proof -
  let ?P = "\<lambda>n. readonly_gmail (pref_key (take n ''gmail_forward_message'')) \<noteq> Inr None"
  have slug: "to_lower (trim ''GMAIL_FORWARD_MESSAGE'') = ''gmail_forward_message''"
    "to_lower (trim '' GMAIL_FORWARD_MESSAGE'') = ''gmail_forward_message''" by code_simp+
  have ends: "underscore_ends ''gmail_forward_message'' = [13, 5]" by code_simp
  have "pref_key (take 13 ''gmail_forward_message'') = ''gmail_forward''"
    "pref_key (take 5 ''gmail_forward_message'') = ''gmail''" by code_simp+
  then have "find ?P [13, 5] = Some 5"
    "row_result f (pref_key (take 5 ''gmail_forward_message''))
       (readonly_gmail (pref_key (take 5 ''gmail_forward_message''))) =
     Inr \<lparr>pref_read = True, pref_write = False, pref_admin = False\<rparr>" for f
    by (simp_all add: readonly_gmail_def row_result_def pref_value_round)
  then show "governing ho readonly_gmail ''GMAIL_FORWARD_MESSAGE'' =
      Inr \<lparr>pref_read = True, pref_write = False, pref_admin = False\<rparr>"
    "governing ho readonly_gmail '' GMAIL_FORWARD_MESSAGE'' =
      Inr \<lparr>pref_read = True, pref_write = False, pref_admin = False\<rparr>"
    by (simp_all only: governing_def slug ends Let_def option.case)
qed

text \<open>
  C12. Under a read-only Gmail preference, forwarding a message is refused, but the same slug with a
  space before it is permitted, because the catalog is searched for the padded text and the verb
  heuristic decides instead; the client trims the slug and runs the very same action.
\<close>

theorem padded_slug_escapes_preference:
  assumes "reads_as (ho_prefs ho) readonly_gmail"
  shows "permits ho ''GMAIL_FORWARD_MESSAGE'' s = (Inr False, s) \<and>
    permits ho '' GMAIL_FORWARD_MESSAGE'' s = (Inr True, s) \<and>
    client_execute show_json r '' GMAIL_FORWARD_MESSAGE'' arguments connid =
      client_execute show_json r ''GMAIL_FORWARD_MESSAGE'' arguments connid"
proof -
  have t: "sync_toolkit_from_slug ''GMAIL_FORWARD_MESSAGE'' = Some ''gmail''"
    "sync_toolkit_from_slug '' GMAIL_FORWARD_MESSAGE'' = Some ''gmail''" by code_simp+
  have "(''gmail'', Some gmail_curated) \<in> set default_registry" by (simp add: default_registry_def)
  moreover have "(''GMAIL_FORWARD_MESSAGE'', Write) \<in> set gmail_curated" by (simp add: gmail_curated_def)
  ultimately have c: "curated_scope ''gmail'' ''GMAIL_FORWARD_MESSAGE'' = Some Write"
    using native_entry(5) by fastforce
  have "find_curated gmail_curated '' GMAIL_FORWARD_MESSAGE'' = None" by code_simp
  moreover have "registry_get default_registry ''gmail'' = Some (Some gmail_curated)"
    by (simp add: registry_get_def default_registry_def str_eval)
  ultimately have n: "curated_scope ''gmail'' '' GMAIL_FORWARD_MESSAGE'' = None"
    by (simp add: curated_scope_def)
  have h: "sync_classify_unknown '' GMAIL_FORWARD_MESSAGE'' = Read" by code_simp
  have trims: "trim '' GMAIL_FORWARD_MESSAGE'' = trim ''GMAIL_FORWARD_MESSAGE''" by code_simp
  have run: "client_execute show_json r '' GMAIL_FORWARD_MESSAGE'' arguments connid =
      client_execute show_json r ''GMAIL_FORWARD_MESSAGE'' arguments connid"
    unfolding client_execute_def execute_action_def trims ..
  have "permits ho ''GMAIL_FORWARD_MESSAGE'' s = (Inr False, s)"
    by (simp add: permits_view [OF assms] t c governing_readonly)
  moreover have "permits ho '' GMAIL_FORWARD_MESSAGE'' s = (Inr True, s)"
    by (simp add: permits_view [OF assms] t n h governing_readonly)
  ultimately show ?thesis using run by blast
qed

theorem padded_slug_escapes_preference_witness:
  "permits (example_host readonly_gmail) '' GMAIL_FORWARD_MESSAGE'' example_state =
     (Inr True, example_state)"
  using padded_slug_escapes_preference [OF example_host_reads, of example_state] by blast

text \<open>
  For a user who saved no preference, execution and listing disagree on toolkits that have a
  catalog but no provider: archiving a HubSpot contact, which the catalog calls an administrative
  action, is hidden by listings and permitted by execution, and a Figma write of the catalog is
  listed and refused.
\<close>

theorem catalog_only_toolkits_unenforced:
  assumes "reads_as (ho_prefs ho) nothing_saved"
  shows "listed ho ''HUBSPOT_ARCHIVE_CONTACT'' s = (Inr False, s) \<and>
    permits ho ''HUBSPOT_ARCHIVE_CONTACT'' s = (Inr True, s) \<and>
    listed ho ''FIGMA_CREATE_MODIFY_DELETE_VARIABLES'' s = (Inr True, s) \<and>
    permits ho ''FIGMA_CREATE_MODIFY_DELETE_VARIABLES'' s = (Inr False, s)"
proof -
  have t: "sync_toolkit_from_slug ''HUBSPOT_ARCHIVE_CONTACT'' = Some ''hubspot''"
    "sync_toolkit_from_slug ''FIGMA_CREATE_MODIFY_DELETE_VARIABLES'' = Some ''figma''" by code_simp+
  have default: "pref_read default_pref" "\<not> pref_admin default_pref" by (simp_all add: default_pref_def)
  have scopes: "curated_scope ''hubspot'' a = None" "curated_scope ''figma'' a = None" for a
    by (simp_all add: curated_scope_def registry_get_def default_registry_def str_eval)
  have heuristic: "sync_classify_unknown ''HUBSPOT_ARCHIVE_CONTACT'' = Read"
    "sync_classify_unknown ''FIGMA_CREATE_MODIFY_DELETE_VARIABLES'' = Admin" by code_simp+
  have visible: "\<not> is_action_visible_with_pref ''HUBSPOT_ARCHIVE_CONTACT'' default_pref"
    "is_action_visible_with_pref ''FIGMA_CREATE_MODIFY_DELETE_VARIABLES'' default_pref" by code_simp+
  show ?thesis
    by (simp add: permits_view [OF assms] listed_view [OF assms] governing_nothing t scopes heuristic visible
        default)
qed

theorem catalog_only_toolkits_unenforced_witness:
  "permits (example_host nothing_saved) ''HUBSPOT_ARCHIVE_CONTACT'' example_state = (Inr True, example_state)"
  using catalog_only_toolkits_unenforced [OF example_host_reads, of example_state] by blast

end
