(* ===== verification/Service_Contracts.thy ===== *)
theory Service_Contracts
  imports Service_Laws
begin

text \<open>
  The contract, probe and overview members:
  \<open>crates/tinyconnectors/src/tinybus_module/contracts.rs\<close>. They reach the backend through the
  service's client and keep its caches. A fetch and the storing of its result are separate
  operations, because another member may run between them.
\<close>

unbundle bit_operations_syntax

section \<open>Contracts\<close>

definition clock_now :: "('p, 'e, 'y) host \<Rightarrow> ('e, 'y) svc \<Rightarrow> nat" where
  "clock_now ho s = ho_clock ho (env (sv_world s))"

definition catalog_lookup ::
  "('p, 'e, 'y) host \<Rightarrow> str \<Rightarrow> ('e, 'y, tool_contract list option) member" where
  "catalog_lookup ho key = (\<lambda>s. (Inr (cached_catalog (clock_now ho s) (sv_caches s) key), s))"

definition catalog_fetch :: "str \<Rightarrow> ('e, 'y, tool_schema list) member" where
  "catalog_fetch key = forward error_text (\<lambda>r. client_list_tools r [key] [])"

definition catalog_store ::
  "('p, 'e, 'y) host \<Rightarrow> str \<Rightarrow> tool_schema list \<Rightarrow> ('e, 'y, str \<times> tool_contract list) member" where
  "catalog_store ho key listing = (\<lambda>s.
     let fetched = contracts_from_listing key listing in
     (Inr (key, fetched),
      s\<lparr>sv_caches := remember_catalog (clock_now ho s) key fetched (sv_caches s)\<rparr>))"

definition toolkit_contracts ::
  "('p, 'e, 'y) host \<Rightarrow> str \<Rightarrow> ('e, 'y, str \<times> tool_contract list) member" where
  "toolkit_contracts ho toolkit =
     (let key = to_lower (trim toolkit) in
      if key = [] then failO ''toolkit must not be empty''
      else bindO (catalog_lookup ho key) (\<lambda>found. case found of
          Some cached \<Rightarrow> retO (key, cached)
        | None \<Rightarrow> bindO (catalog_fetch key) (\<lambda>listing. catalog_store ho key listing)))"

definition overlaid :: "('p, 'e, 'y) host \<Rightarrow> ('e, 'y) svc \<Rightarrow> tool_contract \<Rightarrow> tool_contract" where
  "overlaid ho s c = apply_probe (clock_now ho s) (sv_caches s) c"

definition contract_with_probe ::
  "('p, 'e, 'y) host \<Rightarrow> str \<Rightarrow> ('e, 'y, tool_contract option) member" where
  "contract_with_probe ho slug0 =
     (let slug = trim slug0 in
      case bus_toolkit_from_slug slug of
        None \<Rightarrow> retO None
      | Some toolkit \<Rightarrow>
          bindO (toolkit_contracts ho toolkit) (\<lambda>(key, contracts). \<lambda>s.
            (Inr (map_option (overlaid ho s)
               (find (\<lambda>c. eq_ignore_case (tc_slug c) slug) contracts)), s)))"

definition list_tool_contracts ::
  "('p, 'e, 'y) host \<Rightarrow> str \<Rightarrow> ('e, 'y, str \<times> tool_contract list) member" where
  "list_tool_contracts ho toolkit =
     bindO (toolkit_contracts ho toolkit) (\<lambda>(key, contracts). \<lambda>s.
       (Inr (key, map (overlaid ho s) contracts), s))"

section \<open>Probes\<close>

text \<open>The execute response as a JSON value; a float that is not finite is null.\<close>

definition float_finite :: "64 word \<Rightarrow> bool" where
  "float_finite b \<longleftrightarrow> drop_bit 52 b AND 0x7FF \<noteq> 0x7FF"

definition opt_text :: "str option \<Rightarrow> json" where
  "opt_text t = (case t of None \<Rightarrow> JNull | Some s \<Rightarrow> JStr s)"

definition response_value :: "execute_response \<Rightarrow> json" where
  "response_value r =
     JObj (obj_of
       [(''data'', resp_data r), (''successful'', JBool (successful r)),
        (''error'', opt_text (resp_error r)),
        (''costUsd'', if float_finite (cost_usd r) then JNum (Float (cost_usd r)) else JNull),
        (''markdownFormatted'', opt_text (markdown_formatted r))])"

definition probe_not_read :: "str \<Rightarrow> tool_scope \<Rightarrow> str" where
  "probe_not_read slug other =
     ''probe refuses `'' @ slug @ ''`: classified as '' @ scope_name other @
     '' - a probe is read-only and never '' @
     ''performs a real mutation, whatever the user'' @ [CHR 0x27] @ ''s scope preference. Use the '' @
     ''tool contract for its schema-derived, possibly unknown, output shape.''"

definition probe_unconfirmed :: "str \<Rightarrow> str" where
  "probe_unconfirmed slug =
     ''probe refuses `'' @ slug @ ''`: could not confirm it is a read action. Either no '' @
     ''toolkit could be extracted from the slug, or its toolkit has a curated '' @
     ''catalog and this slug is not in it. A probe never falls back to a verb '' @
     ''heuristic there, since an uncurated action could really be a write.''"

definition probe_not_connected :: "str \<Rightarrow> str \<Rightarrow> str" where
  "probe_not_connected slug toolkit =
     ''probe refuses `'' @ slug @ ''`: the `'' @ toolkit @
     ''` toolkit has no active connection for '' @
     ''this user. Connect it first, or fall back to the tool contract'' @ [CHR 0x27] @ ''s '' @
     ''schema-derived hint.''"

definition probe_gate :: "str \<Rightarrow> str + str" where
  "probe_gate slug =
     (if slug = [] then Inl ''probe: slug must not be empty''
      else case resolve_action_scope slug of
          None \<Rightarrow> Inl (probe_unconfirmed slug)
        | Some scope \<Rightarrow>
            (if scope \<noteq> Read then Inl (probe_not_read slug scope)
             else case bus_toolkit_from_slug slug of
                 None \<Rightarrow> Inl (''probe: could not extract a toolkit from slug `'' @ slug @ ''`'')
               | Some toolkit \<Rightarrow> Inr toolkit))"

definition sample_of :: "execute_response \<Rightarrow> probed_sample" where
  "sample_of r =
     \<lparr>pb_primary_array_path =
        compute_primary_array_path_from_value (response_value r) envelope_meta_keys_at_root,
      pb_output_fields = (case as_object (resp_data r) of None \<Rightarrow> [] | Some m \<Rightarrow> map fst m),
      pb_sample = response_value r\<rparr>"

definition probe_record ::
  "('p, 'e, 'y) host \<Rightarrow> str \<Rightarrow> execute_response \<Rightarrow> ('e, 'y, probed_sample) member" where
  "probe_record ho slug response =
     (if \<not> successful response then
        failO (''probe: `'' @ slug @ ''` reported failure at the provider: '' @
          unwrap_or ''no error detail returned by the provider''
            (opt_filter (\<lambda>d. d \<noteq> []) (map_option trim (resp_error response))))
      else (\<lambda>s. (Inr (sample_of response),
        s\<lparr>sv_caches := remember_probe (clock_now ho s) slug (sample_of response) (sv_caches s)\<rparr>)))"

definition probe_output ::
  "('p, 'e, 'y) host \<Rightarrow> str \<Rightarrow> json \<Rightarrow> ('e, 'y, probed_sample) member" where
  "probe_output ho slug0 args =
     (let slug = trim slug0 in
      case probe_gate slug of
        Inl m \<Rightarrow> failO m
      | Inr toolkit \<Rightarrow>
          bindO (forward error_text r_list_connections) (\<lambda>connections.
            if \<not> List.member (active_toolkits connections) toolkit
            then failO (probe_not_connected slug toolkit)
            else bindO (map_errO
                (\<lambda>e. ''probe: real call to `'' @ slug @ ''` failed: '' @ ho_show_failure ho e)
                (execute_checked ho slug (if is_null args then None else Some args) None))
              (probe_record ho slug)))"

section \<open>The connected-integration overview\<close>

datatype overview_mode = Backend_Mode | Direct_Mode

fun route_for :: "overview_mode \<Rightarrow> str" where
  "route_for Backend_Mode = ''proxy''"
| "route_for Direct_Mode = ''direct''"

fun mode_text :: "overview_mode \<Rightarrow> str" where
  "mode_text Backend_Mode = ''Backend''"
| "mode_text Direct_Mode = ''Direct''"

fun load_preferences ::
  "('p, 'e, 'y) host \<Rightarrow> str list \<Rightarrow> ('e, 'y, (str \<times> scope_pref) list) member" where
  "load_preferences ho [] = retO []"
| "load_preferences ho (t # ts) =
     bindO (stored_pref ho t) (\<lambda>p. bindO (load_preferences ho ts) (\<lambda>rest. retO ((t, p) # rest)))"

definition assembled ::
  "('p, 'e, 'y) host \<Rightarrow> str list \<Rightarrow> connection list \<Rightarrow> tool_schema list \<Rightarrow> (str \<Rightarrow> str option) \<Rightarrow>
   ('e, 'y, integration list) member" where
  "assembled ho allowlist connections tools descriptions =
     bindO (load_preferences ho (active_toolkits connections)) (\<lambda>preferences.
       retO (assemble (ho_uppercase ho)
         \<lparr>ls_allowlist = allowlist, ls_connections = connections, ls_tools = tools,
          ls_descriptions = descriptions, ls_preferences = map_of (rev preferences)\<rparr>))"

definition backend_overview ::
  "('p, 'e, 'y) host \<Rightarrow> ('e, toolkits_response, 'y) route \<Rightarrow> ('e, 'y, integration list) member" where
  "backend_overview ho r =
     bindO (acting error_text (r_list_toolkits r)) (\<lambda>toolkits.
       let descriptions = catalog_descriptions (tr_catalog toolkits);
           allowlist = connectable_toolkit_slugs (tr_toolkits toolkits) (tr_catalog toolkits) in
       if allowlist = [] then retO []
       else bindO (acting error_text (r_list_connections r)) (\<lambda>connections.
         bindO (if active_toolkits connections = [] then retO []
                else acting error_text (client_list_tools r (active_toolkits connections) []))
           (\<lambda>tools. assembled ho allowlist connections tools descriptions)))"

definition direct_overview ::
  "('p, 'e, 'y) host \<Rightarrow> ('e, toolkits_response, 'y) route \<Rightarrow> ('e, 'y, integration list) member" where
  "direct_overview ho r =
     bindO (acting error_text (r_list_connections r)) (\<lambda>connections.
       let allowlist = active_toolkits connections in
       if allowlist = [] then retO []
       else bindO (\<lambda>s. case acting error_text (client_list_tools r allowlist []) s of
                    (Inl e, s') \<Rightarrow> (Inr [], s') | (Inr tools, s') \<Rightarrow> (Inr tools, s'))
         (\<lambda>tools. assembled ho allowlist connections tools Map.empty))"

definition connected_integrations ::
  "('p, 'e, 'y) host \<Rightarrow> overview_mode \<Rightarrow> ('e, 'y, integration list) member" where
  "connected_integrations ho mode =
     bindO service_client (\<lambda>r.
       if route_name r \<noteq> route_for mode
       then failO (''connected integrations requested over the '' @ mode_text mode @
         '' route, but this module is configured for `'' @ route_name r @ ''`'')
       else (case mode of
           Backend_Mode \<Rightarrow> backend_overview ho r
         | Direct_Mode \<Rightarrow> direct_overview ho r))"

section \<open>Laws\<close>

lemma catalog_store_hit:
  assumes "0 < cc_ttl (sv_caches s)" "key \<noteq> []" "to_lower (trim key) = key"
  shows "toolkit_contracts ho key (snd (catalog_store ho key listing s)) =
    (Inr (key, contracts_from_listing key listing), snd (catalog_store ho key listing s))"
  using assms
  by (simp add: toolkit_contracts_def catalog_store_def catalog_lookup_def Let_def bindO_def retO_def
      clock_now_def cached_catalog_def remember_catalog_def ttl_get_def ttl_insert_def)

text \<open>Asking for contracts: the cache answers, or the client does and its answer is stored.\<close>

lemma toolkit_contracts_hit:
  "to_lower (trim toolkit) = [] \<or> cached_catalog (clock_now ho s) (sv_caches s) (to_lower (trim toolkit)) = Some known \<Longrightarrow>
     snd (toolkit_contracts ho toolkit s) = s"
  by (auto simp: toolkit_contracts_def Let_def bindO_def catalog_lookup_def retO_def failO_def)

lemma toolkit_contracts_missed:
  assumes "catalog_lookup ho (to_lower (trim toolkit)) s = (Inr None, s)" "to_lower (trim toolkit) \<noteq> []"
  shows "case sv_client s of
      None \<Rightarrow> toolkit_contracts ho toolkit s = (Inl no_route, s)
    | Some r \<Rightarrow>
        (case r_list_tools r [to_lower (trim toolkit)] [] (sv_world s) of
           (Inl e, w) \<Rightarrow> toolkit_contracts ho toolkit s = (Inl (error_text e), s\<lparr>sv_world := w\<rparr>)
         | (Inr listing, w) \<Rightarrow>
             toolkit_contracts ho toolkit s = catalog_store ho (to_lower (trim toolkit)) listing (s\<lparr>sv_world := w\<rparr>))"
  using assms
  by (auto simp: toolkit_contracts_def Let_def bindO_def catalog_fetch_def forward_client forward_no_client
      acting_def client_list_tools_def split: option.split prod.split sum.split)

lemma toolkit_contracts_known:
  assumes "toolkit_contracts ho toolkit s = (Inr (key, cs), s')"
  shows "key = to_lower (trim toolkit) \<and> key \<noteq> [] \<and> cc_ttl (sv_caches s') = cc_ttl (sv_caches s) \<and>
    (0 < cc_ttl (sv_caches s) \<longrightarrow> cached_catalog (clock_now ho s') (sv_caches s') key = Some cs)"
proof (cases "cached_catalog (clock_now ho s) (sv_caches s) (to_lower (trim toolkit))")
  case (Some cached)
  with assms show ?thesis
    by (auto simp: toolkit_contracts_def catalog_lookup_def Let_def eff split: if_splits)
next
  case None
  let ?key = "to_lower (trim toolkit)"
  obtain listing s1 where f: "catalog_fetch ?key s = (Inr listing, s1)" "?key \<noteq> []"
    "catalog_store ho ?key listing s1 = (Inr (key, cs), s')"
    using assms None
    by (auto simp: toolkit_contracts_def catalog_lookup_def Let_def eff split: if_splits prod.splits sum.splits)
  have "sv_caches s1 = sv_caches s"
    using f(1) keepsD [OF keeps_forward(2)] unfolding catalog_fetch_def by metis
  then show ?thesis
    using f(2,3)
    by (auto simp: catalog_store_def Let_def clock_now_def cached_catalog_def remember_catalog_def
        ttl_get_def ttl_insert_def)
qed

lemma toolkit_contracts_again:
  assumes "toolkit_contracts ho toolkit s = (Inr (key, cs), s')" "0 < cc_ttl (sv_caches s)"
  shows "toolkit_contracts ho toolkit s' = (Inr (key, cs), s')"
  using toolkit_contracts_known [OF assms(1)] assms(2)
  by (auto simp: toolkit_contracts_def catalog_lookup_def Let_def bindO_def retO_def)

lemma toolkit_contracts_failed:
  assumes "toolkit_contracts ho toolkit s = (Inl m, s')"
  shows "sv_caches s' = sv_caches s"
  using assms keepsD [OF keeps_forward(2)]
  by (auto simp: toolkit_contracts_def catalog_lookup_def catalog_fetch_def catalog_store_def Let_def eff
      split: if_splits prod.splits sum.splits option.splits)

lemma probe_gate_Inr:
  "probe_gate slug = Inr t \<longleftrightarrow> slug \<noteq> [] \<and> resolve_action_scope slug = Some Read \<and> bus_toolkit_from_slug slug = Some t"
  by (auto simp: probe_gate_def split: option.splits if_splits)

lemma remembered_probe_hit:
  "0 < cc_ttl cc \<Longrightarrow> cached_probe now (remember_probe now slug smp cc) slug = Some (smp\<lparr>pb_sample := JNull\<rparr>)"
  by (simp add: cached_probe_def remember_probe_def ttl_get_def ttl_insert_def)

lemma probe_gate_refused: "probe_gate (trim slug) = Inl m \<Longrightarrow> probe_output ho slug args s = (Inl m, s)"
  by (simp add: probe_output_def Let_def failO_def)

text \<open>
  The toolkit of a confirmed read, and the call a probe makes once every check passed. What an
  execution runs depends on what the stored preference answers and on the client alone.
\<close>

definition confirmed_read :: "str \<Rightarrow> str option" where
  "confirmed_read slug =
     (if resolve_action_scope (trim slug) = Some Read then bus_toolkit_from_slug (trim slug) else None)"

definition probed_call ::
  "('p, 'e, 'y) host \<Rightarrow> ('e, toolkits_response, 'y) route \<Rightarrow> str \<Rightarrow> json \<Rightarrow> ('e, execute_response) act" where
  "probed_call ho r slug args =
     client_execute (ho_show_json ho) r (trim slug) (if is_null args then None else Some args) None"

definition lists_active :: "error + connection list \<Rightarrow> str \<Rightarrow> bool" where
  "lists_active listing t = (case listing of Inl e \<Rightarrow> False | Inr cs \<Rightarrow> List.member (active_toolkits cs) t)"

lemma confirmed_gate: "probe_gate (trim slug) = Inr t \<longleftrightarrow> confirmed_read slug = Some t"
  by (auto simp: probe_gate_Inr confirmed_read_def bus_toolkit_from_slug_def)

lemma unconfirmed_refused:
  "confirmed_read slug = None \<Longrightarrow> \<exists>m. probe_output ho slug args s = (Inl m, s)"
  using probe_gate_refused [of slug _ ho args s] confirmed_gate [of slug]
  by (cases "probe_gate (trim slug)") auto

lemma probe_without_client:
  assumes "sv_client s = None"
  shows "\<exists>m. probe_output ho slug args s = (Inl m, s)"
  using probe_gate_refused [of slug _ ho args s]
  by (cases "probe_gate (trim slug)") (auto simp: probe_output_def Let_def bindO_def forward_no_client [OF assms])

text \<open>A confirmed read over a client: first the listing, then the checked call.\<close>

lemma probe_listing:
  assumes "confirmed_read slug = Some t" "sv_client s = Some r" "r_list_connections r (sv_world s) = (listing, w)"
    and "\<not> lists_active listing t"
  shows "\<exists>m. probe_output ho slug args s = (Inl m, s\<lparr>sv_world := w\<rparr>)"
  using assms
  by (auto simp: probe_output_def Let_def bindO_def confirmed_gate [symmetric] forward_client acting_def
      failO_def lists_active_def split: sum.splits)

lemma probe_checked:
  assumes "confirmed_read slug = Some t" "sv_client s = Some r" "r_list_connections r (sv_world s) = (listing, w)"
    and "lists_active listing t" "permits ho (trim slug) (s\<lparr>sv_world := w\<rparr>) = (allowed, s1)"
  shows "if allowed = Inr True
    then (case probed_call ho r slug args (sv_world s1) of
        (Inl e, w') \<Rightarrow> \<exists>m. probe_output ho slug args s = (Inl m, s1\<lparr>sv_world := w'\<rparr>)
      | (Inr response, w') \<Rightarrow>
          (if successful response
           then probe_output ho slug args s = probe_record ho (trim slug) response (s1\<lparr>sv_world := w'\<rparr>)
           else \<exists>m. probe_output ho slug args s = (Inl m, s1\<lparr>sv_world := w'\<rparr>)))
    else \<exists>m. probe_output ho slug args s = (Inl m, s1)"
proof -
  obtain cs where cs: "listing = Inr cs" "List.member (active_toolkits cs) t"
    using assms(4) by (cases listing) (simp_all add: lists_active_def)
  have client: "sv_client s1 = Some r"
    using keepsD [OF keeps_permits(2) assms(5)] assms(2) by simp
  show ?thesis
    using assms(1-3) cs assms(5) client
    by (cases allowed)
      (auto simp: probe_output_def Let_def bindO_def confirmed_gate [symmetric] forward_client acting_def
        failO_def map_errO_def execute_checked_def probed_call_def probe_record_def split: prod.split sum.split)
qed

text \<open>What a probe leaves in the caches.\<close>

lemma probe_leaves:
  assumes "probe_output ho slug args s = (result, s')"
  shows "sv_caches s' = (case result of
      Inl m \<Rightarrow> sv_caches s | Inr smp \<Rightarrow> remember_probe (clock_now ho s') (trim slug) smp (sv_caches s))"
proof (cases "probe_gate (trim slug)")
  case (Inl e)
  then show ?thesis using assms probe_gate_refused [OF Inl, of ho args s] by auto
next
  case (Inr t)
  have recorded: "sv_caches s2 = (case q of
      Inl m \<Rightarrow> sv_caches s1 | Inr smp \<Rightarrow> remember_probe (clock_now ho s2) (trim slug) smp (sv_caches s1))"
    if "probe_record ho (trim slug) response s1 = (q, s2)" for response s1 s2 q
    using that by (auto simp: probe_record_def failO_def clock_now_def split: if_splits)
  show ?thesis
    using assms Inr keepsD [OF keeps_forward(2)] keepsD [OF keeps_execute(2)]
    by (fastforce simp: probe_output_def Let_def bindO_def map_errO_def failO_def dest: recorded
        split: prod.splits sum.splits if_splits)
qed

section \<open>Properties\<close>

text \<open>
  C10. What a probe runs, whether it answers or fails. Without a client, and for anything but a
  confirmed read of a known toolkit, it is refused with the state unchanged. Otherwise it lists the
  connections once; unless the listing shows the toolkit active and the stored preference permits
  the action, it fails and the network has seen that listing and nothing else. Only then is the
  action run, exactly once with the caller's arguments: the world is left as that one call leaves it,
  and the probe answers exactly when the call succeeds. An answer puts the observed shape, without
  the raw response, in the cache; every failure leaves the caches alone.
\<close>

theorem probe_confirmed_reads_only:
  "case probe_output ho slug args s of (result, s') \<Rightarrow>
     sv_client s' = sv_client s \<and>
     (case (confirmed_read slug, sv_client s) of
        (Some t, Some r) \<Rightarrow>
          (case r_list_connections r (sv_world s) of (listing, w) \<Rightarrow>
           case permits ho (trim slug) (s\<lparr>sv_world := w\<rparr>) of (allowed, s1) \<Rightarrow>
             trace (sv_world s1) = trace w \<and>
             (if lists_active listing t \<and> allowed = Inr True then
                (case probed_call ho r slug args (sv_world s1) of (answer, w') \<Rightarrow>
                   sv_world s' = w' \<and>
                   (case answer of
                      Inr response \<Rightarrow>
                        (if successful response then
                           result = Inr (sample_of response) \<and>
                           (if 0 < cc_ttl (sv_caches s) then
                              cached_probe (clock_now ho s') (sv_caches s') (trim slug) =
                                Some ((sample_of response)\<lparr>pb_sample := JNull\<rparr>)
                            else True)
                         else (\<exists>m. result = Inl m) \<and> sv_caches s' = sv_caches s)
                    | Inl e \<Rightarrow> (\<exists>m. result = Inl m) \<and> sv_caches s' = sv_caches s))
              else (\<exists>m. result = Inl m) \<and> trace (sv_world s') = trace w \<and> sv_caches s' = sv_caches s))
      | _ \<Rightarrow> (\<exists>m. result = Inl m) \<and> s' = s)"
proof (cases "confirmed_read slug")
  case None
  then show ?thesis using unconfirmed_refused [of slug ho args s] by auto
next
  case read: (Some t)
  show ?thesis
  proof (cases "sv_client s")
    case None
    then show ?thesis using probe_without_client [of s ho slug args] read by auto
  next
    case r: (Some r)
    obtain listing w where l: "r_list_connections r (sv_world s) = (listing, w)" by fastforce
    obtain allowed s1 where p: "permits ho (trim slug) (s\<lparr>sv_world := w\<rparr>) = (allowed, s1)" by fastforce
    have kept: "trace (sv_world s1) = trace w" "sv_client s1 = Some r" "sv_caches s1 = sv_caches s"
      using keepsD [OF keeps_permits(1) p] keepsD [OF keeps_permits(2) p] keepsD [OF keeps_permits(3) p] r
      by simp_all
    show ?thesis
    proof (cases "lists_active listing t")
      case False
      then show ?thesis using probe_listing [OF read r l False, of ho args] read r l p kept by auto
    next
      case True
      obtain answer w' where c: "probed_call ho r slug args (sv_world s1) = (answer, w')" by fastforce
      show ?thesis
        using probe_checked [OF read r l True p, of args] read r l p kept c True
        by (cases answer)
          (auto simp: probe_record_def clock_now_def remembered_probe_hit split: if_splits prod.splits)
    qed
  qed
qed

text \<open>
  Reading a toolkit's contracts again right after a successful read gives the same contracts and
  sends nothing.
\<close>

theorem contracts_reread:
  assumes "toolkit_contracts ho toolkit s = (Inr (key, cs), s')" "0 < cc_ttl (sv_caches s)"
  shows "toolkit_contracts ho toolkit s' = (Inr (key, cs), s') \<and> key = to_lower (trim toolkit) \<and> key \<noteq> []"
  using toolkit_contracts_again [OF assms] toolkit_contracts_known [OF assms(1)] by blast

theorem contracts_reread_witness:
  "\<exists>s' cs. toolkit_contracts (example_host nothing_saved) '' Gmail''
      (connected_state [example_tool ''GMAIL_FETCH_EMAILS''] [] JNull) = (Inr (''gmail'', cs), s') \<and>
    toolkit_contracts (example_host nothing_saved) '' Gmail'' s' = (Inr (''gmail'', cs), s')"
proof -
  let ?s = "connected_state [example_tool ''GMAIL_FETCH_EMAILS''] [] JNull"
  have k: "to_lower (trim '' Gmail'') = ''gmail''" by code_simp
  have ttl: "0 < cc_ttl (sv_caches ?s)" "cc_catalogs (sv_caches ?s) = Map.empty"
    by (simp_all add: connected_state_def example_state_def default_caches_def caches_with_ttl_def
        catalog_cache_ttl_def)
  have "sv_client ?s = Some (example_route [example_tool ''GMAIL_FETCH_EMAILS''] [] JNull)"
    by (simp add: connected_state_def)
  then obtain cs s' where "toolkit_contracts (example_host nothing_saved) '' Gmail'' ?s = (Inr (''gmail'', cs), s')"
    using ttl(2)
    by (simp add: toolkit_contracts_def k catalog_lookup_def cached_catalog_def ttl_get_def bindO_def
        catalog_fetch_def forward_client acting_def client_list_tools_def example_route_def retA_def
        catalog_store_def Let_def)
  with contracts_reread [OF this ttl(1)] show ?thesis by blast
qed

text \<open>An accepted reconfiguration does the same to every state: it installs one client and clears.\<close>

lemma configure_installs:
  assumes "configure ho request s = (Inr name, s')"
  shows "\<exists>client. \<forall>t. configure ho request t =
    (Inr name, t\<lparr>sv_client := client, sv_caches := caches_clear (sv_caches t),
      sv_world := (sv_world t)\<lparr>gate := Map.empty\<rparr>\<rparr>)"
  using assms by (auto simp: configure_def split: sum.splits prod.splits)

lemma cleared_lookup:
  "sv_caches s = caches_clear cc \<Longrightarrow> catalog_lookup ho key s = (Inr None, s)"
  by (simp add: catalog_lookup_def caches_clear_def cached_catalog_def ttl_get_def)

text \<open>
  C14. A listing read over one route and stored after the module was reconfigured, to another
  account, another route or none, answers for the new one: asked for that toolkit, the reconfigured
  module returns the old route's contracts and sends nothing. Stored just before the same
  reconfiguration it would have been forgotten, and the contracts would be those of the new client,
  or refused without one: which account answers depends on the order of the two steps alone.
\<close>

theorem late_fetch_survives_configure:
  assumes "sv_client s = Some r" "r_list_tools r [key] [] (sv_world s) = (Inr listing, w)"
    and "0 < cc_ttl (sv_caches s)" "key \<noteq> []" "to_lower (trim key) = key"
    and "configure ho request (s\<lparr>sv_world := w\<rparr>) = (Inr name, s2)"
  shows "let (fetched, s1) = catalog_fetch key s;
             late = snd (catalog_store ho key listing s2);
             early = snd (configure ho request (snd (catalog_store ho key listing s1)))
         in fetched = Inr listing \<and> sv_client late = sv_client s2 \<and> sv_client early = sv_client s2 \<and>
            configure ho request s1 = (Inr name, s2) \<and>
            toolkit_contracts ho key late = (Inr (key, contracts_from_listing key listing), late) \<and>
            (case sv_client s2 of
               None \<Rightarrow> toolkit_contracts ho key early = (Inl no_route, early)
             | Some new \<Rightarrow>
                 (case r_list_tools new [key] [] (sv_world early) of
                    (Inl e, w') \<Rightarrow> toolkit_contracts ho key early = (Inl (error_text e), early\<lparr>sv_world := w'\<rparr>)
                  | (Inr own, w') \<Rightarrow>
                      fst (toolkit_contracts ho key early) = Inr (key, contracts_from_listing key own)))"
proof -
  have f: "catalog_fetch key s = (Inr listing, s\<lparr>sv_world := w\<rparr>)"
    using assms(2) by (simp add: catalog_fetch_def forward_client [OF assms(1)] acting_def client_list_tools_def)
  obtain client where c: "\<And>t. configure ho request t =
    (Inr name, t\<lparr>sv_client := client, sv_caches := caches_clear (sv_caches t),
      sv_world := (sv_world t)\<lparr>gate := Map.empty\<rparr>\<rparr>)"
    using configure_installs [OF assms(6)] by blast
  have s2: "0 < cc_ttl (sv_caches s2)" "sv_client s2 = client"
    using assms(3,6) by (auto simp: c caches_clear_def)
  define early where "early = snd (configure ho request (snd (catalog_store ho key listing (s\<lparr>sv_world := w\<rparr>))))"
  have e: "sv_client early = client" "catalog_lookup ho (to_lower (trim key)) early = (Inr None, early)"
    by (auto simp: early_def c intro: cleared_lookup)
  have stored: "fst (catalog_store ho key l t) = Inr (key, contracts_from_listing key l)"
    "sv_client (snd (catalog_store ho key l t)) = sv_client t" for l and t :: "('a, 'b) svc"
    by (simp_all add: catalog_store_def Let_def)
  show ?thesis
    using toolkit_contracts_missed [OF e(2)] assms(4,5) e(1) catalog_store_hit [OF s2(1) assms(4,5)] s2(2) assms(6)
    by (auto simp: f early_def [symmetric] Let_def stored split: option.splits prod.splits sum.splits)
qed

lemma other_account:
  "\<exists>r name. configure (example_host nothing_saved) (Configure_Proxy ''https://other.example'' ''token'' None None) s =
    (Inr name, s\<lparr>sv_client := Some r, sv_caches := caches_clear (sv_caches s),
      sv_world := (sv_world s)\<lparr>gate := Map.empty\<rparr>\<rparr>)"
proof -
  have base: "trim_end_char CHR ''/'' (trim ''https://other.example'') = ''https://other.example''" by code_simp
  have "\<exists>r. into_route (ho_outside (example_host nothing_saved))
      (Proxy_Config ''https://other.example'' ''token'' None None) = Inr r"
    by (simp add: example_host_def http_bearer_def build_http_def base check_base_url_def refusing_outside_def
        build_agent_def with_network_def with_timezone_def Let_def)
  then show ?thesis by (auto simp: configure_def)
qed

theorem late_fetch_survives_configure_witness:
  "let (fetched, s1) = catalog_fetch ''gmail'' (connected_state [example_tool ''GMAIL_FETCH_EMAILS''] [] JNull);
       s2 = snd (configure (example_host nothing_saved)
              (Configure_Proxy ''https://other.example'' ''token'' None None) s1);
       late = snd (catalog_store (example_host nothing_saved) ''gmail'' [example_tool ''GMAIL_FETCH_EMAILS''] s2)
   in sv_client late = sv_client s2 \<and> sv_client s2 \<noteq> None \<and>
      toolkit_contracts (example_host nothing_saved) ''gmail'' late =
        (Inr (''gmail'', contracts_from_listing ''gmail'' [example_tool ''GMAIL_FETCH_EMAILS'']), late)"
proof -
  let ?tools = "[example_tool ''GMAIL_FETCH_EMAILS'']"
  let ?s = "connected_state ?tools [] JNull"
  let ?request = "Configure_Proxy ''https://other.example'' ''token'' None None"
  have key: "to_lower (trim ''gmail'') = ''gmail''" by code_simp
  have s: "sv_client ?s = Some (example_route ?tools [] JNull)"
    "r_list_tools (example_route ?tools [] JNull) [''gmail''] [] (sv_world ?s) = (Inr ?tools, sv_world ?s)"
    "0 < cc_ttl (sv_caches ?s)"
    by (simp_all add: connected_state_def example_state_def example_route_def retA_def default_caches_def
        caches_with_ttl_def catalog_cache_ttl_def)
  obtain r name s2 where c: "configure (example_host nothing_saved) ?request (?s\<lparr>sv_world := sv_world ?s\<rparr>) =
      (Inr name, s2)" "sv_client s2 = Some r"
    using other_account [of ?s] by auto
  from late_fetch_survives_configure [OF s _ key c(1)] c(2) show ?thesis
    by (cases "catalog_fetch ''gmail'' ?s") (simp add: Let_def)
qed

text \<open>
  The overview is answered only over the route its mode names: any other request is refused with
  nothing sent. Over a direct route a failing tool listing costs the tools and never the overview.
\<close>

theorem overview_mode_guarded:
  "(case sv_client s of
      None \<Rightarrow> connected_integrations ho mode s = (Inl no_route, s)
    | Some r \<Rightarrow> (if route_name r = route_for mode then True
        else \<exists>m. connected_integrations ho mode s = (Inl m, s))) \<and>
   (case sv_client s of
      None \<Rightarrow> True
    | Some r \<Rightarrow>
       (case r_list_connections r (sv_world s) of
          (Inl e, w) \<Rightarrow> True
        | (Inr cs, w) \<Rightarrow>
           (case r_list_tools r (active_toolkits cs) [] w of
              (Inr tools, w') \<Rightarrow> True
            | (Inl e, w') \<Rightarrow>
                (if route_name r = ''direct'' \<and> active_toolkits cs \<noteq> [] then
                   connected_integrations ho Direct_Mode s =
                     assembled ho (active_toolkits cs) cs [] Map.empty (s\<lparr>sv_world := w'\<rparr>)
                 else True))))"
  by (auto simp: connected_integrations_def service_client_def bindO_def failO_def direct_overview_def
      acting_def client_list_tools_def Let_def split: option.split prod.split sum.split)

lemma load_preferences_offer:
  "load_preferences (ho\<lparr>ho_offered := off\<rparr>) ts = load_preferences ho ts"
  by (induction ts) (simp_all add: stored_pref_def)

text \<open>
  The connected-integration overview does not depend on which toolkits the host offers: a
  toolkit the offer policy denies is shown in it like any other.
\<close>

theorem overview_ignores_offer:
  "connected_integrations (ho\<lparr>ho_offered := off\<rparr>) mode s = connected_integrations ho mode s"
proof -
  have a: "assembled (ho\<lparr>ho_offered := off\<rparr>) = assembled ho"
    by (intro ext) (simp add: assembled_def load_preferences_offer)
  have b: "backend_overview (ho\<lparr>ho_offered := off\<rparr>) = backend_overview ho"
    "direct_overview (ho\<lparr>ho_offered := off\<rparr>) = direct_overview ho"
    unfolding backend_overview_def direct_overview_def a by (rule refl)+
  show ?thesis unfolding connected_integrations_def b ..
qed

end
