(* ===== verification/Archive.thy ===== *)
theory Archive
  imports Errors Types Prefs "HOL-Library.AList" "HOL-Library.Multiset"
begin

text \<open>
  The archive of trigger deliveries: \<open>crates/tinyconnectors/src/triggers/archive.rs\<close>, the leases of
  \<open>tinybus_module/archives.rs\<close> and the archive members of \<open>tinybus_module/mod.rs\<close>. The stream
  store is a record of operations on an arbitrary state: a driver is not part of the repository.
\<close>

section \<open>The stream store\<close>

record 's stream_port =
  sp_can_seal :: bool
  sp_streams :: "str \<Rightarrow> ('s, str, str list) op"
  sp_len :: "str \<Rightarrow> ('s, str, nat) op"
  sp_read_window :: "str \<Rightarrow> nat \<Rightarrow> nat \<Rightarrow> ('s, str, json list) op"
  sp_append :: "str \<Rightarrow> json \<Rightarrow> ('s, str, nat) op"
  sp_info :: "str \<Rightarrow> ('s, str, int option option) op"
  sp_seal :: "str \<Rightarrow> ('s, str, unit) op"

text \<open>
  What the archive takes from its surroundings: the clock in milliseconds since 1970, the UTC date
  as the calendar library formats it, the JSON text of an entry and the order the unstable sort
  leaves equal times in.
\<close>

record history_entry =
  he_received_at_ms :: "64 word"
  he_toolkit :: str
  he_trigger :: str
  he_metadata_id :: str
  he_metadata_uuid :: str
  he_payload :: json

record 's archive_env =
  ae_now :: "'s \<Rightarrow> 64 word"
  ae_day :: "'s \<Rightarrow> str"
  ae_text :: "history_entry \<Rightarrow> str"
  ae_arrange :: "history_entry list \<Rightarrow> history_entry list"

definition default_history_limit :: nat where "default_history_limit = 50"

definition stream_prefix :: str where "stream_prefix = ''connectors.triggers/''"

definition legacy_stream_prefix :: str where "legacy_stream_prefix = ''triggers/''"

definition archive_dir :: str where
  "archive_dir = rev (dropWhile (\<lambda>c. c = CHR ''/'') (rev stream_prefix))"

definition day_stream :: "str \<Rightarrow> str" where "day_stream day = stream_prefix @ day"

definition current_day_file :: "'s archive_env \<Rightarrow> 's \<Rightarrow> str" where
  "current_day_file ae s = day_stream (ae_day ae s)"

section \<open>Entries as values\<close>

definition entry_value :: "history_entry \<Rightarrow> json" where
  "entry_value e =
     JObj (obj_of
       [(''received_at_ms'', JNum (PosInt (he_received_at_ms e))), (''toolkit'', JStr (he_toolkit e)),
        (''trigger'', JStr (he_trigger e)), (''metadata_id'', JStr (he_metadata_id e)),
        (''metadata_uuid'', JStr (he_metadata_uuid e)), (''payload'', he_payload e)])"

fun as_u64 :: "json \<Rightarrow> 64 word option" where
  "as_u64 (JNum (PosInt n)) = Some n"
| "as_u64 _ = None"

definition entry_of :: "json option \<Rightarrow> json option \<Rightarrow> json option \<Rightarrow> json option \<Rightarrow> json option \<Rightarrow>
    json option \<Rightarrow> history_entry option" where
  "entry_of t k g i u p =
     Option.bind (Option.bind t as_u64) (\<lambda>t.
       Option.bind (Option.bind k as_str) (\<lambda>k.
         Option.bind (Option.bind g as_str) (\<lambda>g.
           Option.bind (Option.bind i as_str) (\<lambda>i.
             Option.bind (Option.bind u as_str) (\<lambda>u.
               map_option (\<lambda>p. \<lparr>he_received_at_ms = t, he_toolkit = k, he_trigger = g,
                 he_metadata_id = i, he_metadata_uuid = u, he_payload = p\<rparr>) p)))))"

text \<open>The derived reading: an object by its field names, or an array of the six fields in order.\<close>

definition entry_from_value :: "json \<Rightarrow> history_entry option" where
  "entry_from_value v =
     (case v of
        JObj m \<Rightarrow> entry_of (map_of m ''received_at_ms'') (map_of m ''toolkit'') (map_of m ''trigger'')
          (map_of m ''metadata_id'') (map_of m ''metadata_uuid'') (map_of m ''payload'')
      | JArr [t, k, g, i, u, p] \<Rightarrow> entry_of (Some t) (Some k) (Some g) (Some i) (Some u) (Some p)
      | _ \<Rightarrow> None)"

definition archive_entry_key :: "'s archive_env \<Rightarrow> history_entry \<Rightarrow> str" where
  "archive_entry_key ae e =
     (if he_metadata_uuid e = [] then ae_text ae e
      else he_metadata_id e @ '':'' @ he_metadata_uuid e)"

section \<open>Recording\<close>

definition record_delivery ::
  "'s archive_env \<Rightarrow> 's stream_port \<Rightarrow> str \<Rightarrow> str \<Rightarrow> str \<Rightarrow> str \<Rightarrow> json \<Rightarrow> ('s, error, history_entry) op" where
  "record_delivery ae sp toolkit trigger metadata_id metadata_uuid payload = (\<lambda>s.
     let entry = \<lparr>he_received_at_ms = ae_now ae s, he_toolkit = toolkit, he_trigger = trigger,
           he_metadata_id = metadata_id, he_metadata_uuid = metadata_uuid, he_payload = payload\<rparr>;
         stream = current_day_file ae s in
     bindO (map_errO (\<lambda>e. Archive stream (''could not append to the archive: '' @ e))
         (sp_append sp stream (entry_value entry)))
       (\<lambda>offset. retO entry) s)"

section \<open>Retention\<close>

definition day_stream_idle_ms :: int where "day_stream_idle_ms = 2 * 24 * 60 * 60 * 1000"

definition saturating_sub_i64 :: "int \<Rightarrow> int \<Rightarrow> int" where
  "saturating_sub_i64 a b = max (- (2 ^ 63)) (a - b)"

definition should_seal :: "int \<Rightarrow> int option \<Rightarrow> bool" where
  "should_seal now_ms last_append_ms =
     (case last_append_ms of
        None \<Rightarrow> False | Some t \<Rightarrow> t \<le> saturating_sub_i64 now_ms day_stream_idle_ms)"

definition seal_now :: "'s archive_env \<Rightarrow> 's \<Rightarrow> int" where
  "seal_now ae s = min (2 ^ 63 - 1) (uint (ae_now ae s))"

fun seal_streams :: "'s stream_port \<Rightarrow> int \<Rightarrow> str list \<Rightarrow> ('s, str, unit) op" where
  "seal_streams sp now [] = retO ()"
| "seal_streams sp now (stream # rest) =
     bindO (sp_info sp stream) (\<lambda>info.
       bindO (case info of
                None \<Rightarrow> retO ()
              | Some last_append_ms \<Rightarrow>
                  if should_seal now last_append_ms then sp_seal sp stream else retO ())
         (\<lambda>_. seal_streams sp now rest))"

definition seal_idle_days :: "'s archive_env \<Rightarrow> 's stream_port \<Rightarrow> ('s, str, unit) op" where
  "seal_idle_days ae sp = (\<lambda>s.
     let now = seal_now ae s in
     bindO (bindO (sp_streams sp stream_prefix) (seal_streams sp now)) (\<lambda>_.
       bindO (sp_streams sp legacy_stream_prefix) (seal_streams sp now)) s)"

section \<open>Reading back\<close>

type_synonym collected = "history_entry list \<times> str list"

fun take_records :: "'s archive_env \<Rightarrow> json list \<Rightarrow> nat \<Rightarrow> collected \<Rightarrow> nat \<times> collected" where
  "take_records ae [] got (entries, seen) = (got, (entries, seen))"
| "take_records ae (v # vs) got (entries, seen) =
     (case entry_from_value v of
        None \<Rightarrow> take_records ae vs got (entries, seen)
      | Some e \<Rightarrow>
          (let key = archive_entry_key ae e in
           if List.member seen key then take_records ae vs got (entries, seen)
           else take_records ae vs (Suc got) (entries @ [e], key # seen)))"

function window_loop ::
  "'s archive_env \<Rightarrow> 's stream_port \<Rightarrow> nat \<Rightarrow> str \<Rightarrow> nat \<Rightarrow> nat \<Rightarrow> collected \<Rightarrow> ('s, error, collected) op" where
  "window_loop ae sp limit stream till got acc s =
     (if till = 0 \<or> limit \<le> got then (Inr acc, s)
      else
        (let need = limit - got; start = till - need in
         case sp_read_window sp stream start (till - start) s of
           (Inl e, s') \<Rightarrow> (Inl (Archive stream (''could not read the day'' @ [CHR 0x27] @ ''s stream: '' @ e)), s')
         | (Inr records, s') \<Rightarrow>
             (case take_records ae (rev records) got acc of
                (got', acc') \<Rightarrow> window_loop ae sp limit stream start got' acc' s')))"
  by pat_completeness auto
termination
  by (relation "measure (\<lambda>(ae, sp, limit, stream, till, got, acc, s). till)") auto

declare window_loop.simps [simp del]

fun stream_loop ::
  "'s archive_env \<Rightarrow> 's stream_port \<Rightarrow> nat \<Rightarrow> str list \<Rightarrow> collected \<Rightarrow> ('s, error, collected) op" where
  "stream_loop ae sp limit [] acc = retO acc"
| "stream_loop ae sp limit (stream # rest) acc =
     bindO (map_errO (\<lambda>e. Archive stream (''could not size the day'' @ [CHR 0x27] @ ''s stream: '' @ e)) (sp_len sp stream)) (\<lambda>len.
       bindO (window_loop ae sp limit stream len 0 acc) (\<lambda>acc'. stream_loop ae sp limit rest acc'))"

record history_result =
  hr_archive_dir :: str
  hr_current_day_file :: str
  hr_entries :: "history_entry list"

definition history_limit :: "nat option \<Rightarrow> nat" where
  "history_limit limit = max (unwrap_or default_history_limit limit) 1"

definition list_recent ::
  "'s archive_env \<Rightarrow> 's stream_port \<Rightarrow> nat option \<Rightarrow> ('s, error, history_result) op" where
  "list_recent ae sp limit0 =
     bindO (if sp_can_seal sp
            then map_errO (\<lambda>e. Archive stream_prefix (''could not apply archive retention: '' @ e))
              (seal_idle_days ae sp)
            else retO ()) (\<lambda>_.
       let limit = history_limit limit0 in
       bindO (map_errO (\<lambda>e. Archive stream_prefix (''could not list the archive: '' @ e))
           (sp_streams sp stream_prefix)) (\<lambda>days.
         bindO (map_errO (\<lambda>e. Archive legacy_stream_prefix (''could not list the legacy archive: '' @ e))
             (sp_streams sp legacy_stream_prefix)) (\<lambda>legacy.
           bindO (stream_loop ae sp limit (rev (sort (days @ legacy))) ([], [])) (\<lambda>(entries, seen). \<lambda>s.
             (Inr \<lparr>hr_archive_dir = archive_dir, hr_current_day_file = current_day_file ae s,
                hr_entries = take limit (ae_arrange ae entries)\<rparr>, s)))))"

section \<open>Leases\<close>

definition max_archives :: nat where "max_archives = 64"

text \<open>A handle is the lowercase hexadecimal text of 128 random bits, padded to 32 digits.\<close>

definition lower_hex :: "nat \<Rightarrow> char" where
  "lower_hex d = (if d < 10 then char_of (48 + d) else char_of (87 + d))"

fun hex_text :: "nat \<Rightarrow> nat \<Rightarrow> str" where
  "hex_text 0 n = []"
| "hex_text (Suc k) n = hex_text k (n div 16) @ [lower_hex (n mod 16)]"

definition handle_of :: "128 word \<Rightarrow> str" where
  "handle_of w = hex_text 32 (unat w)"

text \<open>The leases by handle, each with the streams its archive writes to.\<close>

type_synonym 'a leases = "(str \<times> 'a) list"

definition lease_open :: "128 word option \<Rightarrow> 'a \<Rightarrow> ('a leases, str, str) op" where
  "lease_open entropy streams = (\<lambda>ls.
     if max_archives \<le> length ls then (Inl ''trigger archive lease limit reached'', ls)
     else case entropy of
         None \<Rightarrow> (Inl ''trigger archive entropy unavailable'', ls)
       | Some w \<Rightarrow> (Inr (handle_of w), AList.update (handle_of w) streams ls))"

definition lease_get :: "str \<Rightarrow> ('a leases, str, 'a) op" where
  "lease_get handle = (\<lambda>ls. case map_of ls handle of
       Some a \<Rightarrow> (Inr a, ls) | None \<Rightarrow> (Inl ''unknown trigger archive lease'', ls))"

definition lease_close :: "str \<Rightarrow> ('a leases, str, unit) op" where
  "lease_close handle = (\<lambda>ls.
     if map_of ls handle = None then (Inl ''unknown trigger archive lease'', ls)
     else (Inr (), AList.delete handle ls))"

section \<open>The archive members\<close>

text \<open>The members over the outside and the leases; a lease holds the streams of its archive.\<close>

type_synonym ('s, 'a) archive_member = "('s \<times> 's stream_port leases, str, 'a) op"

definition with_lease :: "str \<Rightarrow> ('s stream_port \<Rightarrow> ('s, str, 'a) op) \<Rightarrow> ('s, 'a) archive_member" where
  "with_lease handle f = (\<lambda>(s, ls).
     case lease_get handle ls of
       (Inl m, ls') \<Rightarrow> (Inl m, (s, ls'))
     | (Inr sp, ls') \<Rightarrow> (case f sp s of (r, s') \<Rightarrow> (r, (s', ls'))))"

definition record_trigger ::
  "'s archive_env \<Rightarrow> str \<Rightarrow> trigger_event \<Rightarrow> ('s, history_entry) archive_member" where
  "record_trigger ae handle event =
     with_lease handle (\<lambda>sp. map_errO (\<lambda>_. ''trigger archive write failed'')
       (record_delivery ae sp (te_toolkit event) (te_trigger event) (tm_id (te_metadata event))
          (tm_uuid (te_metadata event)) (te_payload event)))"

definition open_archive ::
  "('s, str, 's stream_port) op \<Rightarrow> ('s \<Rightarrow> 128 word option \<times> 's) \<Rightarrow> ('s, str) archive_member" where
  "open_archive connect draw = (\<lambda>(s, ls).
     case connect s of
       (Inl e, s') \<Rightarrow> (Inl ''trigger archive storage unavailable'', (s', ls))
     | (Inr sp, s') \<Rightarrow>
         (if max_archives \<le> length ls then (Inl ''trigger archive lease limit reached'', (s', ls))
          else case draw s' of
              (entropy, s'') \<Rightarrow>
                (case lease_open entropy sp ls of (r, ls') \<Rightarrow> (r, (s'', ls')))))"

definition read_archive ::
  "'s archive_env \<Rightarrow> str \<Rightarrow> nat option \<Rightarrow> ('s, history_result) archive_member" where
  "read_archive ae handle limit =
     with_lease handle (\<lambda>sp. map_errO (\<lambda>_. ''trigger archive read failed'') (list_recent ae sp limit))"

definition close_archive :: "str \<Rightarrow> ('s, unit) archive_member" where
  "close_archive handle = (\<lambda>(s, ls). case lease_close handle ls of (r, ls') \<Rightarrow> (r, (s, ls')))"

definition list_trigger_history ::
  "'s archive_env \<Rightarrow> ('s, str, 's stream_port) op \<Rightarrow> nat option \<Rightarrow> ('s, str, history_result) op" where
  "list_trigger_history ae connect limit =
     bindO (map_errO (\<lambda>_. ''trigger history is unavailable: the host does not serve storage to this module'') connect)
       (\<lambda>sp. map_errO error_text (list_recent ae sp limit))"

section \<open>Laws\<close>

lemma entry_round: "entry_from_value (entry_value e) = Some e"
  by (simp add: entry_value_def entry_from_value_def entry_of_def obj_of_def)

interpretation entries: codec entry_value entry_from_value Some
  by unfold_locales (simp_all add: entry_round)

text \<open>A store that serves fixed streams and does not change; sealing leaves it as it is.\<close>

definition serves ::
  "'s archive_env \<Rightarrow> 's stream_port \<Rightarrow> str list \<Rightarrow> str list \<Rightarrow> (str \<Rightarrow> json list) \<Rightarrow> bool" where
  "serves ae sp days legacy contents \<longleftrightarrow>
     (\<forall>s. sp_streams sp stream_prefix s = (Inr days, s)) \<and>
     (\<forall>s. sp_streams sp legacy_stream_prefix s = (Inr legacy, s)) \<and>
     (\<forall>st s. sp_len sp st s = (Inr (length (contents st)), s)) \<and>
     (\<forall>st i n s. sp_read_window sp st i n s = (Inr (take n (drop i (contents st))), s)) \<and>
     (sp_can_seal sp \<longrightarrow> (\<forall>s. seal_idle_days ae sp s = (Inr (), s)))"

text \<open>The order of the result: newest first, equal times in any order.\<close>

definition newest_first :: "history_entry list \<Rightarrow> bool" where
  "newest_first es \<longleftrightarrow> sorted_wrt (\<lambda>a b. he_received_at_ms b \<le> he_received_at_ms a) es"

definition arranges :: "(history_entry list \<Rightarrow> history_entry list) \<Rightarrow> bool" where
  "arranges f \<longleftrightarrow> (\<forall>es. mset (f es) = mset es \<and> newest_first (f es))"

definition valid_entries :: "json list \<Rightarrow> history_entry list" where
  "valid_entries vs = filter_map entry_from_value vs"

lemma valid_append: "valid_entries (xs @ ys) = valid_entries xs @ valid_entries ys"
  by (simp add: valid_entries_def)

lemma filter_map_rev: "filter_map f (rev xs) = rev (filter_map f xs)"
  by (induction xs) (auto split: option.splits)

lemma valid_rev: "valid_entries (rev xs) = rev (valid_entries xs)"
  by (simp add: valid_entries_def filter_map_rev)

lemma take_records_append:
  "take_records ae (xs @ ys) got acc =
     (case take_records ae xs got acc of (got', acc') \<Rightarrow> take_records ae ys got' acc')"
  by (induction ae xs got acc rule: take_records.induct) (auto simp: Let_def split: option.splits)

lemma take_records_got:
  "take_records ae vs got acc = (got', acc') \<Longrightarrow> got' \<le> got + length vs"
  by (induction ae vs got acc rule: take_records.induct)
    (force simp: Let_def split: option.splits if_splits)+

text \<open>The key of every entry taken is remembered, so none is taken twice.\<close>

definition keyed :: "'s archive_env \<Rightarrow> collected \<Rightarrow> bool" where
  "keyed ae acc \<longleftrightarrow> distinct (map (archive_entry_key ae) (fst acc)) \<and>
     set (snd acc) = set (map (archive_entry_key ae) (fst acc))"

lemma take_records_keyed:
  "take_records ae vs got acc = (got', acc') \<Longrightarrow> keyed ae acc \<Longrightarrow> keyed ae acc'"
  by (induction ae vs got acc rule: take_records.induct)
    (auto simp: Let_def keyed_def split: option.splits if_splits)

lemma take_records_fresh:
  assumes "distinct (map (archive_entry_key ae) (valid_entries vs))"
    and "set (map (archive_entry_key ae) (valid_entries vs)) \<inter> set seen = {}"
  shows "\<exists>seen'. take_records ae vs got (entries, seen) =
      (got + length (valid_entries vs), (entries @ valid_entries vs, seen')) \<and>
    set seen' = set seen \<union> set (map (archive_entry_key ae) (valid_entries vs))"
  using assms
proof (induction vs arbitrary: got entries seen)
  case (Cons v vs)
  show ?case
  proof (cases "entry_from_value v")
    case None
    with Cons show ?thesis by (simp add: valid_entries_def)
  next
    case (Some e)
    let ?k = "archive_entry_key ae e"
    have "valid_entries (v # vs) = e # valid_entries vs" using Some by (simp add: valid_entries_def)
    with Cons.IH [of "?k # seen" "Suc got" "entries @ [e]"] Cons.prems Some
    show ?thesis by (auto simp: Let_def)
  qed
qed (simp add: valid_entries_def)

lemma window_loop_keyed:
  "window_loop ae sp limit stream till got acc s = (Inr acc', s') \<Longrightarrow> keyed ae acc \<Longrightarrow> keyed ae acc'"
proof (induction ae sp limit stream till got acc s rule: window_loop.induct)
  case (1 ae sp limit stream till got acc s)
  show ?case
  proof (cases "till = 0 \<or> limit \<le> got")
    case True
    with 1(2,3) show ?thesis by (simp add: window_loop.simps [of ae])
  next
    case False
    let ?start = "till - (limit - got)"
    obtain records s1 where r: "sp_read_window sp stream ?start (till - ?start) s = (Inr records, s1)"
      using 1(2) False
      by (subst (asm) window_loop.simps) (auto simp: Let_def split: prod.splits sum.splits)
    obtain got1 acc1 where t: "take_records ae (rev records) got acc = (got1, acc1)"
      by (metis surj_pair)
    have "window_loop ae sp limit stream ?start got1 acc1 s1 = (Inr acc', s')"
      using 1(2) False r t by (subst (asm) window_loop.simps) (simp add: Let_def)
    then show ?thesis
      using 1(1) [OF False refl refl r [symmetric] refl t [symmetric]] take_records_keyed [OF t 1(3)] by blast
  qed
qed

lemma stream_loop_keyed:
  "stream_loop ae sp limit streams acc s = (Inr acc', s') \<Longrightarrow> keyed ae acc \<Longrightarrow> keyed ae acc'"
proof (induction streams arbitrary: acc s)
  case (Cons stream rest)
  obtain n s1 where n: "sp_len sp stream s = (Inr n, s1)"
    using Cons.prems(1) by (auto simp: eff split: prod.splits sum.splits)
  obtain acc1 s2 where w: "window_loop ae sp limit stream n 0 acc s1 = (Inr acc1, s2)"
    "stream_loop ae sp limit rest acc1 s2 = (Inr acc', s')"
    using Cons.prems(1) n by (auto simp: eff split: prod.splits sum.splits)
  show ?case by (rule Cons.IH [OF w(2) window_loop_keyed [OF w(1) Cons.prems(2)]])
qed (simp add: retO_def)

text \<open>What the windows of one stream come to: the records after some point, newest first.\<close>

lemma window_loop_reads:
  assumes "serves ae sp days legacy contents" "till \<le> length (contents stream)" "got \<le> limit"
  shows "\<exists>k got' acc'. window_loop ae sp limit stream till got acc s = (Inr acc', s) \<and> k \<le> till \<and>
    take_records ae (rev (drop k (take till (contents stream)))) got acc = (got', acc') \<and>
    got' \<le> limit \<and> (k = 0 \<or> got' = limit)"
  using assms(2,3)
proof (induction till arbitrary: got acc rule: less_induct)
  case (less till)
  show ?case
  proof (cases "till = 0 \<or> limit \<le> got")
    case True
    with less.prems(2) have "till = 0 \<or> got = limit" by auto
    moreover have "drop till (take till (contents stream)) = []" by simp
    ultimately show ?thesis
      using True less.prems(2)
      by (intro exI [of _ till] exI [of _ got] exI [of _ acc]) (cases acc; auto simp: window_loop.simps [of ae])
  next
    case False
    let ?start = "till - (limit - got)"
    define window where "window = take (till - ?start) (drop ?start (contents stream))"
    have lt: "?start < till" using False by auto
    obtain got1 acc1 where t: "take_records ae (rev window) got acc = (got1, acc1)"
      by (metis surj_pair)
    have "length window \<le> limit - got" unfolding window_def by auto
    then have g1: "got1 \<le> limit" using take_records_got [OF t] False by auto
    have step: "window_loop ae sp limit stream till got acc s = window_loop ae sp limit stream ?start got1 acc1 s"
      using assms(1) False t unfolding serves_def window_def
      by (subst window_loop.simps) (simp add: Let_def)
    obtain k got' acc' where k: "window_loop ae sp limit stream ?start got1 acc1 s = (Inr acc', s)" "k \<le> ?start"
      "take_records ae (rev (drop k (take ?start (contents stream)))) got1 acc1 = (got', acc')"
      "got' \<le> limit" "k = 0 \<or> got' = limit"
      using less.IH [OF lt _ g1, of acc1] less.prems(1) by (meson diff_le_self le_trans)
    have "drop k (take till (contents stream)) = drop k (take ?start (contents stream)) @ window"
    proof -
      have "take till (contents stream) = take ?start (contents stream) @ window"
        unfolding window_def using lt by (metis le_add_diff_inverse less_imp_le take_add)
      moreover have "length (take ?start (contents stream)) = ?start" using less.prems(1) lt by simp
      ultimately show ?thesis using k(2) by simp
    qed
    then have "take_records ae (rev (drop k (take till (contents stream)))) got acc = (got', acc')"
      using t k(3) by (simp add: take_records_append)
    then show ?thesis using step k lt by (intro exI [of _ k] exI [of _ got'] exI [of _ acc']) simp
  qed
qed

lemma take_of_split:
  assumes "zs = xs @ ys" "length xs \<le> m" "ys = [] \<or> length xs = m"
  shows "xs = take m zs"
  using assms by auto

text \<open>One stream without known keys gives its newest valid entries.\<close>

lemma window_loop_newest:
  assumes "serves ae sp days legacy contents"
    and "distinct (map (archive_entry_key ae) (valid_entries (contents stream)))"
    and "set (map (archive_entry_key ae) (valid_entries (contents stream))) \<inter> set seen = {}"
  shows "\<exists>seen'. window_loop ae sp limit stream (length (contents stream)) 0 (entries, seen) s =
      (Inr (entries @ take limit (rev (valid_entries (contents stream))), seen'), s) \<and>
    set seen' \<subseteq> set seen \<union> set (map (archive_entry_key ae) (valid_entries (contents stream)))"
proof -
  let ?c = "contents stream"
  obtain k got' acc' where k: "window_loop ae sp limit stream (length ?c) 0 (entries, seen) s = (Inr acc', s)"
    "take_records ae (rev (drop k ?c)) 0 (entries, seen) = (got', acc')" "got' \<le> limit" "k = 0 \<or> got' = limit"
    using window_loop_reads [OF assms(1), of "length ?c" stream 0 limit "(entries, seen)" s] by auto
  let ?new = "valid_entries (rev (drop k ?c))"
  have all: "rev (valid_entries ?c) = ?new @ rev (valid_entries (take k ?c))"
    by (metis append_take_drop_id rev_append valid_append valid_rev)
  have keys: "set (map (archive_entry_key ae) ?new) \<subseteq> set (map (archive_entry_key ae) (valid_entries ?c))"
    using arg_cong [OF all, of set] by auto
  have "distinct (map (archive_entry_key ae) (rev (valid_entries ?c)))"
    using assms(2) by (simp add: rev_map [symmetric])
  then have "distinct (map (archive_entry_key ae) ?new)" unfolding all by simp
  then obtain seen' where t: "(got', acc') = (length ?new, (entries @ ?new, seen'))"
    "set seen' = set seen \<union> set (map (archive_entry_key ae) ?new)"
    using take_records_fresh [of ae "rev (drop k ?c)" seen 0 entries] keys assms(3) k(2) by auto
  have "rev (valid_entries (take k ?c)) = [] \<or> length ?new = limit"
    using k(4) t(1) by (auto simp: valid_entries_def)
  then have "?new = take limit (rev (valid_entries ?c))"
    using take_of_split [OF all] k(3) t(1) by auto
  then show ?thesis using k(1) t keys by auto
qed

lemma stream_loop_newest:
  assumes "serves ae sp days legacy contents"
    and "distinct (map (archive_entry_key ae) (concat (map (\<lambda>st. valid_entries (contents st)) streams)))"
    and "set (map (archive_entry_key ae) (concat (map (\<lambda>st. valid_entries (contents st)) streams))) \<inter> set seen = {}"
  shows "\<exists>seen'. stream_loop ae sp limit streams (entries, seen) s =
    (Inr (entries @ concat (map (\<lambda>st. take limit (rev (valid_entries (contents st)))) streams), seen'), s)"
  using assms(2,3)
proof (induction streams arbitrary: entries seen)
  case (Cons stream rest)
  have d: "distinct (map (archive_entry_key ae) (valid_entries (contents stream)))"
    "set (map (archive_entry_key ae) (valid_entries (contents stream))) \<inter> set seen = {}"
    using Cons.prems by auto
  obtain seen1 where w: "window_loop ae sp limit stream (length (contents stream)) 0 (entries, seen) s =
      (Inr (entries @ take limit (rev (valid_entries (contents stream))), seen1), s)"
    "set seen1 \<subseteq> set seen \<union> set (map (archive_entry_key ae) (valid_entries (contents stream)))"
    using window_loop_newest [OF assms(1) d, of limit entries s] by blast
  let ?keys = "set (map (archive_entry_key ae) (concat (map (\<lambda>st. valid_entries (contents st)) rest)))"
  have rest: "distinct (map (archive_entry_key ae) (concat (map (\<lambda>st. valid_entries (contents st)) rest)))"
    "?keys \<inter> set seen = {}"
    "?keys \<inter> set (map (archive_entry_key ae) (valid_entries (contents stream))) = {}"
    using Cons.prems by auto
  then have "?keys \<inter> set seen1 = {}" using w(2) by blast
  from Cons.IH [OF rest(1) this] obtain seen' where r:
    "stream_loop ae sp limit rest (entries @ take limit (rev (valid_entries (contents stream))), seen1) s =
     (Inr ((entries @ take limit (rev (valid_entries (contents stream)))) @
       concat (map (\<lambda>st. take limit (rev (valid_entries (contents st)))) rest), seen'), s)" by blast
  show ?case
    using assms(1) w(1) r by (simp add: serves_def bindO_def map_errO_def)
qed (simp add: retO_def)

text \<open>The newest of several chunks, each cut to as many as are wanted.\<close>

lemma newest_take: "newest_first es \<Longrightarrow> newest_first (take m es)"
  by (simp add: newest_first_def sorted_wrt_take)

lemma newest_split:
  assumes "newest_first es" "x \<in> set (drop m es)" "y \<in> set (take m es)"
  shows "he_received_at_ms x \<le> he_received_at_ms y"
proof -
  have "newest_first (take m es @ drop m es)" using assms(1) by simp
  then show ?thesis using assms(2,3) unfolding newest_first_def sorted_wrt_append by blast
qed

lemma newest_many:
  assumes "newest_first es" "m \<le> size (filter_mset (\<lambda>z. t \<le> he_received_at_ms z) (mset es))"
    and "y \<in> set (take m es)"
  shows "t \<le> he_received_at_ms y"
proof (rule ccontr)
  assume low: "\<not> t \<le> he_received_at_ms y"
  obtain j where j: "j < length es" "j < m" "es ! j = y"
    using assms(3) by (auto simp: in_set_conv_nth)
  have "filter (\<lambda>z. t \<le> he_received_at_ms z) (drop j es) = []"
  proof (simp add: filter_empty_conv, intro ballI)
    fix z assume "z \<in> set (drop j es)"
    then obtain i where "i < length es - j" "z = es ! (j + i)" by (auto simp: in_set_conv_nth)
    then have "j + i < length es" "z = es ! (j + i)" by simp_all
    then have "he_received_at_ms z \<le> he_received_at_ms y"
      using assms(1) j unfolding newest_first_def sorted_wrt_iff_nth_less
      by (cases "i = 0") auto
    then show "\<not> t \<le> he_received_at_ms z" using low by auto
  qed
  then have "filter (\<lambda>z. t \<le> he_received_at_ms z) es = filter (\<lambda>z. t \<le> he_received_at_ms z) (take j es)"
    by (metis append_Nil2 append_take_drop_id filter_append)
  then have "length (filter (\<lambda>z. t \<le> he_received_at_ms z) es) \<le> j"
    using j(1) length_filter_le [of "\<lambda>z. t \<le> he_received_at_ms z" "take j es"] by simp
  then have "size (filter_mset (\<lambda>z. t \<le> he_received_at_ms z) (mset es)) \<le> j"
    by (metis mset_filter size_mset)
  then show False using assms(2) j(2) by simp
qed

lemma min_sum_list: "min m (sum_list (map (min (m :: nat)) ns)) = min m (sum_list ns)"
  by (induction ns) auto

lemma chunks_split:
  "mset (concat Ls) = mset (concat (map (take m) Ls)) + mset (concat (map (drop m) Ls))"
proof (induction Ls)
  case (Cons L Ls)
  have "mset L = mset (take m L) + mset (drop m L)" by (metis append_take_drop_id mset_append)
  with Cons show ?case by simp
qed simp

lemma top_of_chunks:
  fixes m :: nat
  assumes "arranges arrange" "list_all newest_first Ls"
  defines "es \<equiv> take m (arrange (concat (map (take m) Ls)))"
  shows "newest_first es" "length es = min m (length (concat Ls))" "mset es \<subseteq># mset (concat Ls)"
    and "\<And>x y. x \<in># mset (concat Ls) - mset es \<Longrightarrow> y \<in> set es \<Longrightarrow> he_received_at_ms x \<le> he_received_at_ms y"
proof -
  let ?A = "arrange (concat (map (take m) Ls))"
  have A: "mset ?A = mset (concat (map (take m) Ls))" "newest_first ?A"
    using assms(1) unfolding arranges_def by blast+
  show "newest_first es" unfolding es_def by (rule newest_take [OF A(2)])
  have "length (concat (map (take m) Ls)) = sum_list (map (min m) (map length Ls))"
    by (induction Ls) (simp_all add: min.commute)
  then have "length ?A = sum_list (map (min m) (map length Ls))"
    using A(1) by (metis size_mset)
  then show "length es = min m (length (concat Ls))"
    unfolding es_def using min_sum_list [of m "map length Ls"] by (simp add: length_concat min.commute)
  have split: "mset (concat Ls) = mset es + (mset (drop m ?A) + mset (concat (map (drop m) Ls)))"
    unfolding es_def chunks_split [of Ls m] A(1) [symmetric]
    by (metis add.assoc append_take_drop_id mset_append)
  then show "mset es \<subseteq># mset (concat Ls)" by simp
  fix x y assume x: "x \<in># mset (concat Ls) - mset es" and y: "y \<in> set es"
  from x have "x \<in> set (drop m ?A) \<or> (\<exists>L \<in> set Ls. x \<in> set (drop m L))"
    unfolding split by auto
  then show "he_received_at_ms x \<le> he_received_at_ms y"
  proof
    assume "x \<in> set (drop m ?A)"
    with newest_split [OF A(2)] y show ?thesis unfolding es_def by blast
  next
    assume "\<exists>L \<in> set Ls. x \<in> set (drop m L)"
    then obtain L where L: "L \<in> set Ls" "x \<in> set (drop m L)" by blast
    then have n: "newest_first L" using assms(2) by (simp add: list_all_iff)
    have "length L > m" using L(2) by (metis drop_all empty_iff list.set(1) not_le)
    then have len: "length (take m L) = m" by simp
    have "filter (\<lambda>z. he_received_at_ms x \<le> he_received_at_ms z) (take m L) = take m L"
      using newest_split [OF n L(2)] by (simp add: filter_id_conv)
    moreover have "mset (take m L) \<subseteq># mset ?A"
      unfolding A(1) using L(1) by (induction Ls) (auto intro: subset_mset.add_increasing)
    ultimately have "m \<le> size (filter_mset (\<lambda>z. he_received_at_ms x \<le> he_received_at_ms z) (mset ?A))"
      by (metis len mset_filter multiset_filter_mono size_mset size_mset_mono)
    from newest_many [OF A(2) this] y show ?thesis unfolding es_def by blast
  qed
qed

lemma mset_concat_map: "mset (concat (map f xs)) = (\<Sum>x \<in># mset xs. mset (f x))"
  by (induction xs) simp_all

lemma lower_hex_inj:
  assumes "a < 16" "b < 16" "lower_hex a = lower_hex b"
  shows "a = b"
proof -
  have "(of_char (lower_hex a) :: nat) = (if a < 10 then 48 + a else 87 + a)"
    "(of_char (lower_hex b) :: nat) = (if b < 10 then 48 + b else 87 + b)"
    using assms(1,2) by (auto simp: lower_hex_def)
  then have "(if a < 10 then 48 + a else 87 + a) = (if b < 10 then 48 + b else 87 + b)"
    unfolding assms(3) by (rule trans [OF sym])
  with assms(1,2) show ?thesis by presburger
qed

lemma hex_text_length [simp]: "length (hex_text k n) = k"
  by (induction k arbitrary: n) auto

lemma hex_text_inj: "a < 16 ^ k \<Longrightarrow> b < 16 ^ k \<Longrightarrow> hex_text k a = hex_text k b \<Longrightarrow> a = b"
proof (induction k arbitrary: a b)
  case (Suc k)
  then have "a div 16 = b div 16" by (auto simp: less_mult_imp_div_less mult.commute)
  moreover have "a mod 16 = b mod 16" using Suc.prems(3) by (auto intro: lower_hex_inj)
  ultimately show ?case by (metis div_mult_mod_eq)
qed simp

lemma handle_of_inj: "handle_of v = handle_of w \<longleftrightarrow> v = w"
proof -
  have bound: "unat u < 16 ^ 32" for u :: "128 word"
    using unsigned_less [of u, where ?'a = nat] by simp
  show ?thesis
    unfolding handle_of_def using hex_text_inj [OF bound bound, of v w] by (metis word_unat_eq_iff)
qed

lemma handle_of_length [simp]: "length (handle_of w) = 32"
  by (simp add: handle_of_def)

text \<open>Everything the leases go through.\<close>

inductive lease_step :: "'a leases \<Rightarrow> 'a leases \<Rightarrow> bool" where
  opened: "lease_step ls (snd (lease_open entropy streams ls))"
| used: "lease_step ls (snd (lease_get handle ls))"
| closed: "lease_step ls (snd (lease_close handle ls))"

inductive_cases lease_stepE: "lease_step ls ls'"

definition leases_ok :: "'a leases \<Rightarrow> bool" where
  "leases_ok ls \<longleftrightarrow> length ls \<le> max_archives \<and> distinct (map fst ls)"

lemma length_update: "length (AList.update k v ls) \<le> Suc (length ls)"
  by (induction ls) auto

lemma lease_step_ok: "lease_step ls ls' \<Longrightarrow> leases_ok ls \<Longrightarrow> leases_ok ls'"
proof (erule lease_stepE)
  fix entropy and streams :: 'a
  assume "leases_ok ls" "ls' = snd (lease_open entropy streams ls)"
  then show "leases_ok ls'"
    using length_update [of _ streams ls]
    by (auto simp: leases_ok_def lease_open_def distinct_update split: option.split
        intro: le_trans [OF length_update])
next
  fix handle assume "leases_ok ls" "ls' = snd (lease_close handle ls)"
  then show "leases_ok ls'"
    using length_delete_le [of handle ls]
    by (auto simp: leases_ok_def lease_close_def distinct_delete intro: le_trans)
qed (auto simp: lease_get_def split: option.splits)

text \<open>A store with two streams, for the examples.\<close>

definition by_time :: "history_entry list \<Rightarrow> history_entry list" where
  "by_time es = rev (sort_key he_received_at_ms es)"

lemma by_time_arranges: "arranges by_time"
proof -
  have "sorted_wrt (\<lambda>a b. he_received_at_ms b \<le> he_received_at_ms a) (rev (sort_key he_received_at_ms es))"
    for es
    using sorted_sort_key [of he_received_at_ms es] by (simp add: sorted_wrt_rev sorted_wrt_map)
  then show ?thesis unfolding arranges_def by_time_def newest_first_def by (simp only: mset_rev mset_sort) blast
qed

definition delivery :: "64 word \<Rightarrow> str \<Rightarrow> history_entry" where
  "delivery t i = \<lparr>he_received_at_ms = t, he_toolkit = ''gmail'', he_trigger = ''GMAIL_NEW_GMAIL_MESSAGE'',
     he_metadata_id = i, he_metadata_uuid = i, he_payload = JNull\<rparr>"

definition two_days :: "str \<Rightarrow> json list" where
  "two_days st =
     (if st = ''connectors.triggers/2026-01-02'' then [entry_value (delivery 5 ''b''), JNull, entry_value (delivery 9 ''c'')]
      else if st = ''triggers/2026-01-01'' then [entry_value (delivery 2 ''a'')] else [])"

definition fixed_port :: "unit stream_port" where
  "fixed_port =
     \<lparr>sp_can_seal = False,
      sp_streams = (\<lambda>p s. (Inr (if p = stream_prefix then [''connectors.triggers/2026-01-02'']
         else if p = legacy_stream_prefix then [''triggers/2026-01-01''] else []), s)),
      sp_len = (\<lambda>st s. (Inr (length (two_days st)), s)),
      sp_read_window = (\<lambda>st i n s. (Inr (take n (drop i (two_days st))), s)),
      sp_append = (\<lambda>st v s. (Inl [], s)),
      sp_info = (\<lambda>st s. (Inr None, s)),
      sp_seal = (\<lambda>st s. (Inr (), s))\<rparr>"

definition fixed_env :: "unit archive_env" where
  "fixed_env = \<lparr>ae_now = (\<lambda>_. 10), ae_day = (\<lambda>_. ''2026-01-02''), ae_text = (\<lambda>e. CHR ''{'' # he_trigger e),
     ae_arrange = by_time\<rparr>"

section \<open>Properties\<close>

text \<open>
  When every day's stream holds its deliveries in the order they were received and no delivery
  was stored twice, the history is exactly the most recent deliveries of all days, new and legacy:
  as many as wanted or all there are, newest first, and none left out is newer than one returned.
  Records that do not parse cost nothing.
\<close>

theorem history_most_recent:
  assumes "serves ae sp days legacy contents" "arranges (ae_arrange ae)"
    and "list_all (\<lambda>st. newest_first (rev (valid_entries (contents st)))) (days @ legacy)"
    and "distinct (map (archive_entry_key ae) (concat (map (\<lambda>st. valid_entries (contents st)) (days @ legacy))))"
  shows "\<exists>r. list_recent ae sp limit s = (Inr r, s) \<and>
    newest_first (hr_entries r) \<and>
    length (hr_entries r) = min (history_limit limit)
      (length (concat (map (\<lambda>st. valid_entries (contents st)) (days @ legacy)))) \<and>
    mset (hr_entries r) \<subseteq># mset (concat (map (\<lambda>st. valid_entries (contents st)) (days @ legacy))) \<and>
    (\<forall>x y. x \<in># mset (concat (map (\<lambda>st. valid_entries (contents st)) (days @ legacy))) - mset (hr_entries r) \<longrightarrow>
       y \<in> set (hr_entries r) \<longrightarrow> he_received_at_ms x \<le> he_received_at_ms y)"
proof -
  let ?streams = "rev (sort (days @ legacy))"
  let ?Ls = "map (\<lambda>st. rev (valid_entries (contents st))) ?streams"
  let ?m = "history_limit limit"
  have ms: "mset (concat (map f ?streams)) = mset (concat (map f (days @ legacy)))"
    for f :: "str \<Rightarrow> history_entry list"
    unfolding mset_concat_map by simp
  have "distinct (map (archive_entry_key ae) (concat (map (\<lambda>st. valid_entries (contents st)) ?streams)))"
    using assms(4) ms [of "\<lambda>st. valid_entries (contents st)"] by (metis mset_eq_imp_distinct_iff mset_map)
  then obtain seen where loop: "stream_loop ae sp ?m ?streams ([], []) s =
      (Inr (concat (map (take ?m) ?Ls), seen), s)"
    using stream_loop_newest [OF assms(1), of ?streams "[]" ?m "[]" s] by (auto simp: comp_def)
  have run: "list_recent ae sp limit s =
      (Inr \<lparr>hr_archive_dir = archive_dir, hr_current_day_file = current_day_file ae s,
         hr_entries = take ?m (ae_arrange ae (concat (map (take ?m) ?Ls)))\<rparr>, s)"
    using assms(1) loop by (simp add: list_recent_def serves_def bindO_def map_errO_def retO_def Let_def)
  have new: "list_all newest_first ?Ls" using assms(3) by (auto simp: list_all_iff)
  let ?all = "concat (map (\<lambda>st. valid_entries (contents st)) (days @ legacy))"
  have all: "mset (concat ?Ls) = mset ?all"
    unfolding ms [of "\<lambda>st. valid_entries (contents st)", symmetric] mset_concat_map by simp
  then have len: "length (concat ?Ls) = length ?all" by (rule mset_eq_length)
  note top = top_of_chunks [OF assms(2) new, where m = ?m, unfolded all len]
  show ?thesis unfolding run using top by (intro exI [of _ "\<lparr>hr_archive_dir = archive_dir,
    hr_current_day_file = current_day_file ae s,
    hr_entries = take ?m (ae_arrange ae (concat (map (take ?m) ?Ls)))\<rparr>"]) (simp only: history_result.simps simp_thms, blast)
qed

theorem history_most_recent_witness:
  "\<exists>r. list_recent fixed_env fixed_port (Some 2) () = (Inr r, ()) \<and> length (hr_entries r) = 2 \<and>
     newest_first (hr_entries r)"
proof -
  have split: "stream_prefix \<noteq> legacy_stream_prefix"
    by (simp add: stream_prefix_def legacy_stream_prefix_def)
  have serve: "serves fixed_env fixed_port [''connectors.triggers/2026-01-02''] [''triggers/2026-01-01''] two_days"
    using split by (simp add: serves_def fixed_port_def)
  have null: "entry_from_value JNull = None" by (simp add: entry_from_value_def)
  have v: "valid_entries (two_days ''connectors.triggers/2026-01-02'') = [delivery 5 ''b'', delivery 9 ''c'']"
    "valid_entries (two_days ''triggers/2026-01-01'') = [delivery 2 ''a'']"
    using entry_round null by (simp_all add: two_days_def valid_entries_def)
  show ?thesis
    using history_most_recent [OF serve, of "Some 2" "()"] by_time_arranges
    by (auto simp: v fixed_env_def newest_first_def delivery_def archive_entry_key_def history_limit_def)
qed

text \<open>
  Whatever the store holds and however it answers, a history read that succeeds returns at most
  the wanted number of deliveries, newest first, and never the same delivery twice.
\<close>

theorem history_bounded_distinct:
  assumes "arranges (ae_arrange ae)"
  shows "case list_recent ae sp limit s of
      (Inl e, s') \<Rightarrow> True
    | (Inr r, s') \<Rightarrow> length (hr_entries r) \<le> history_limit limit \<and> newest_first (hr_entries r) \<and>
        distinct (map (archive_entry_key ae) (hr_entries r))"
proof (cases "list_recent ae sp limit s")
  case (Pair o1 s')
  show ?thesis
  proof (cases o1)
    case (Inr r)
    obtain streams s1 entries seen s2 where
      loop: "stream_loop ae sp (history_limit limit) streams ([], []) s1 = (Inr (entries, seen), s2)"
      and r: "hr_entries r = take (history_limit limit) (ae_arrange ae entries)"
      using Pair unfolding Inr list_recent_def Let_def
      by (auto simp: bindO_def split: prod.splits sum.splits)
    have "keyed ae (entries, seen)"
      by (rule stream_loop_keyed [OF loop]) (simp add: keyed_def)
    moreover have "mset (ae_arrange ae entries) = mset entries" "newest_first (ae_arrange ae entries)"
      using assms unfolding arranges_def by blast+
    ultimately have "distinct (map (archive_entry_key ae) (ae_arrange ae entries))"
      unfolding keyed_def by (metis fst_conv mset_eq_imp_distinct_iff mset_map)
    then have "distinct (map (archive_entry_key ae) (hr_entries r))"
      unfolding r by (simp add: take_map [symmetric])
    then show ?thesis
      using Pair Inr newest_take [OF \<open>newest_first (ae_arrange ae entries)\<close>] r by simp
  qed (simp add: Pair)
qed

text \<open>
  Recording appends one record to the stream of the current day, and that record reads back as
  exactly the delivery returned, stamped with the clock.
\<close>

theorem recorded_delivery_readable:
  "case record_delivery ae sp toolkit trigger i u payload s of
     (Inl e, s') \<Rightarrow> (\<exists>m. e = Archive (current_day_file ae s) m)
   | (Inr d, s') \<Rightarrow> (\<exists>v offset. sp_append sp (current_day_file ae s) v s = (Inr offset, s') \<and>
       entry_from_value v = Some d) \<and> he_received_at_ms d = ae_now ae s \<and> he_payload d = payload"
  using entry_round
  by (auto simp: record_delivery_def Let_def eff split: prod.split sum.split)

theorem history_bounded_distinct_witness:
  "case list_recent fixed_env fixed_port None () of
      (Inl e, s') \<Rightarrow> True
    | (Inr r, s') \<Rightarrow> length (hr_entries r) \<le> history_limit None \<and> newest_first (hr_entries r) \<and>
        distinct (map (archive_entry_key fixed_env) (hr_entries r))"
  by (rule history_bounded_distinct) (simp add: fixed_env_def by_time_arranges)

text \<open>
  However archives are opened, used and closed, at most sixty-four leases are held, each under
  its own handle.
\<close>

theorem leases_bounded:
  assumes "lease_step\<^sup>*\<^sup>* [] ls"
  shows "length ls \<le> 64 \<and> distinct (map fst ls)"
proof -
  have "leases_ok ls"
    using assms by (induction rule: rtranclp_induct) (auto simp: leases_ok_def dest: lease_step_ok)
  then show ?thesis by (simp add: leases_ok_def max_archives_def)
qed

theorem leases_bounded_witness:
  "length (snd (lease_open (Some 7) () [])) \<le> 64 \<and> distinct (map fst (snd (lease_open (Some 7) () [])))"
proof -
  have "lease_step\<^sup>*\<^sup>* [] (snd (lease_open (Some 7) () []))"
    by (rule r_into_rtranclp, rule lease_step.opened)
  then show ?thesis by (rule leases_bounded)
qed

text \<open>
  An opened lease leads to its own streams under a handle of 32 digits that no other random
  value gives, opening fails without effect when sixty-four are held, and a closed handle is unknown
  from then on while every other lease is as it was.
\<close>

theorem lease_lifecycle:
  "(case lease_open (Some w) streams ls of
      (Inl m, ls') \<Rightarrow> ls' = ls \<and> 64 \<le> length ls
    | (Inr h, ls') \<Rightarrow> length h = 32 \<and> fst (lease_get h ls') = Inr streams \<and>
        fst (lease_close h ls') = Inr () \<and>
        (if v = w then True else fst (lease_get (handle_of v) ls') = fst (lease_get (handle_of v) ls))) \<and>
   map_of (snd (lease_close h ls)) h = None \<and>
   (if h' = h then True else map_of (snd (lease_close h ls)) h' = map_of ls h')"
proof (intro conjI)
  show "case lease_open (Some w) streams ls of
      (Inl m, ls') \<Rightarrow> ls' = ls \<and> 64 \<le> length ls
    | (Inr h, ls') \<Rightarrow> length h = 32 \<and> fst (lease_get h ls') = Inr streams \<and>
        fst (lease_close h ls') = Inr () \<and>
        (if v = w then True else fst (lease_get (handle_of v) ls') = fst (lease_get (handle_of v) ls))"
    by (simp add: lease_open_def lease_get_def lease_close_def max_archives_def update_conv'
        handle_of_inj split: option.split)
  show "map_of (snd (lease_close h ls)) h = None"
    by (simp add: lease_close_def delete_conv' split: option.split)
  show "if h' = h then True else map_of (snd (lease_close h ls)) h' = map_of ls h'"
    by (simp add: lease_close_def delete_conv' split: option.split)
qed

end
