(* ===== verification/Webhook.thy ===== *)
theory Webhook
  imports Rust_Str Types
begin

text \<open>
  Webhook deliveries: \<open>crates/tinyconnectors-bus/src/composio/triggers/webhook.rs\<close>. The keyed
  digest, the base64 decoder and the JSON parser are third-party and so arguments of the definitions
  that use them: \<open>hmac secret\<close> is the digest under a key the library accepts.
\<close>

section \<open>Headers and refusals\<close>

definition header_id :: str where "header_id = ''webhook-id''"

definition header_timestamp :: str where "header_timestamp = ''webhook-timestamp''"

definition header_signature :: str where "header_signature = ''webhook-signature''"

definition default_tolerance_secs :: "64 word" where "default_tolerance_secs = 300"

definition v3_trigger_type :: str where "v3_trigger_type = ''composio.trigger.message''"

record webhook_headers =
  wh_id :: str
  wh_timestamp :: str
  wh_signature :: str

datatype webhook_error =
    MissingHeader str
  | MalformedHeader str
  | EmptySecret
  | StaleTimestamp nat nat
  | SignatureMismatch
  | UndecodableBody str

fun webhook_error_text :: "(nat \<Rightarrow> str) \<Rightarrow> webhook_error \<Rightarrow> str" where
  "webhook_error_text render (MissingHeader h) = ''webhook header `'' @ h @ ''` is missing''"
| "webhook_error_text render (MalformedHeader h) = ''webhook header `'' @ h @ ''` is malformed''"
| "webhook_error_text render EmptySecret = ''webhook secret is empty''"
| "webhook_error_text render (StaleTimestamp skew tolerance) =
     ''webhook timestamp is '' @ render skew @ ''s from now, outside the '' @ render tolerance @ ''s tolerance''"
| "webhook_error_text render SignatureMismatch = ''webhook signature does not match''"
| "webhook_error_text render (UndecodableBody reason) =
     ''webhook body is not a trigger delivery: '' @ reason"

definition present :: "str \<Rightarrow> str \<Rightarrow> webhook_error + str" where
  "present value header = (let v = trim value in if v = [] then Inl (MissingHeader header) else Inr v)"

section \<open>Verifying\<close>

text \<open>The encoded digest of one entry of the signature header, unless another scheme made it.\<close>

definition entry_encoded :: "str \<Rightarrow> str option" where
  "entry_encoded entry =
     (case split_once (CHR '','') entry of
        Some (scheme, encoded) \<Rightarrow> if scheme = ''v1'' then Some encoded else None
      | None \<Rightarrow> Some entry)"

fun collect_candidates :: "(str \<Rightarrow> str option) \<Rightarrow> str list \<Rightarrow> str list \<times> bool \<Rightarrow> str list \<times> bool" where
  "collect_candidates b64 [] acc = acc"
| "collect_candidates b64 (entry # rest) (candidates, undecodable) =
     (case entry_encoded entry of
        None \<Rightarrow> collect_candidates b64 rest (candidates, undecodable)
      | Some encoded \<Rightarrow>
          (case b64 encoded of
             Some digest \<Rightarrow> collect_candidates b64 rest (candidates @ [digest], undecodable)
           | None \<Rightarrow> collect_candidates b64 rest (candidates, True)))"

definition abs_diff :: "nat \<Rightarrow> nat \<Rightarrow> nat" where
  "abs_diff a b = (if a < b then b - a else a - b)"

definition signed_content :: "str \<Rightarrow> str \<Rightarrow> str \<Rightarrow> str" where
  "signed_content message_id timestamp body = message_id @ ''.'' @ timestamp @ ''.'' @ body"

definition verify ::
  "(str \<Rightarrow> (str \<Rightarrow> str) option) \<Rightarrow> (str \<Rightarrow> str option) \<Rightarrow> str \<Rightarrow> webhook_headers \<Rightarrow> str \<Rightarrow> 64 word \<Rightarrow> 64 word \<Rightarrow>
   webhook_error + unit" where
  "verify hmac b64 secret headers body now_unix_secs tolerance_secs =
     bind_result (present (wh_id headers) header_id) (\<lambda>message_id.
       bind_result (present (wh_timestamp headers) header_timestamp) (\<lambda>timestamp.
         bind_result (present (wh_signature headers) header_signature) (\<lambda>signature.
           if blank secret then Inl EmptySecret
           else case parse_unsigned 64 timestamp of
               None \<Rightarrow> Inl (MalformedHeader header_timestamp)
             | Some sent_at \<Rightarrow>
                 (let skew_secs = abs_diff (unat now_unix_secs) sent_at in
                  if unat tolerance_secs < skew_secs then Inl (StaleTimestamp skew_secs (unat tolerance_secs))
                  else case collect_candidates b64 (split_whitespace signature) ([], False) of
                      (candidates, undecodable) \<Rightarrow>
                        if candidates = [] \<and> undecodable then Inl (MalformedHeader header_signature)
                        else case hmac secret of
                            None \<Rightarrow> Inl EmptySecret
                          | Some mac \<Rightarrow>
                              if list_ex (\<lambda>digest. mac (signed_content message_id timestamp body) = digest) candidates
                              then Inr () else Inl SignatureMismatch))))"

section \<open>Decoding\<close>

definition undecodable :: "str \<Rightarrow> webhook_error" where "undecodable reason = UndecodableBody reason"

definition text_of :: "json option \<Rightarrow> str" where
  "text_of v = (case Option.bind v as_str of None \<Rightarrow> [] | Some s \<Rightarrow> trim s)"

definition explicit_toolkit :: "fields \<Rightarrow> str option" where
  "explicit_toolkit m =
     find (\<lambda>t. t \<noteq> []) (map (\<lambda>k. to_lower (text_of (map_of m k))) [''toolkit_slug'', ''toolkit''])"

text \<open>Whether a toolkit's name, followed by an underscore, starts the trigger's slug.\<close>

definition names_toolkit :: "str \<Rightarrow> str \<Rightarrow> bool" where
  "names_toolkit trigger toolkit \<longleftrightarrow> toolkit \<noteq> [] \<and> prefix (to_upper toolkit @ ''_'') (to_upper trigger)"

text \<open>The last of the longest, as \<open>max_by_key\<close> picks it.\<close>

definition longest :: "str list \<Rightarrow> str option" where
  "longest ts =
     foldl (\<lambda>best t. case best of None \<Rightarrow> Some t | Some b \<Rightarrow> if length b \<le> length t then Some t else Some b) None ts"

definition delivery_toolkit :: "str \<Rightarrow> str list \<Rightarrow> str" where
  "delivery_toolkit trigger known =
     (case longest (filter (names_toolkit trigger) known) of
        Some toolkit \<Rightarrow> to_lower toolkit
      | None \<Rightarrow> to_lower (first_piece (CHR ''_'') trigger))"

definition toolkit_named :: "fields option \<Rightarrow> json \<Rightarrow> str \<Rightarrow> str list \<Rightarrow> str" where
  "toolkit_named inner outer trigger known =
     (case or_else (Option.bind inner explicit_toolkit) (Option.bind (as_object outer) explicit_toolkit) of
        Some toolkit \<Rightarrow> toolkit | None \<Rightarrow> delivery_toolkit trigger known)"

definition decode_v3 :: "json \<Rightarrow> fields \<Rightarrow> str list \<Rightarrow> webhook_error + trigger_event" where
  "decode_v3 value metadata known =
     (let trigger = text_of (map_of metadata ''trigger_slug'') in
      if trigger = [] then Inl (undecodable ''`metadata` names no `trigger_slug`'')
      else Inr \<lparr>te_toolkit = toolkit_named (Some metadata) value trigger known,
        te_trigger = trigger,
        te_payload = unwrap_or JNull (jget value ''data''),
        te_metadata = \<lparr>tm_id = text_of (jget value ''id''), tm_uuid = text_of (map_of metadata ''log_id''),
          tm_user_id = text_of (map_of metadata ''user_id''),
          tm_connected_account_id = text_of (map_of metadata ''connected_account_id''),
          tm_trigger_id = text_of (map_of metadata ''trigger_id'')\<rparr>\<rparr>)"

text \<open>The first of some fields that holds text.\<close>

definition first_text :: "fields \<Rightarrow> str list \<Rightarrow> str" where
  "first_text m ks = unwrap_or [] (find (\<lambda>t. t \<noteq> []) (map (\<lambda>k. text_of (map_of m k)) ks))"

definition decode_v2 :: "json \<Rightarrow> str \<Rightarrow> str list \<Rightarrow> trigger_event option" where
  "decode_v2 value kind known =
     (let trigger = to_upper kind; data = unwrap_or JNull (jget value ''data'') in
      Option.bind (as_object data) (\<lambda>m.
        Option.bind (opt_filter (\<lambda>at. \<not> is_null at) (jget value ''timestamp'')) (\<lambda>_.
          if \<not> list_ex (\<lambda>k. text_of (map_of m k) \<noteq> [])
               [''connection_nano_id'', ''connection_id'', ''connected_account_id'']
          then None
          else Some \<lparr>te_toolkit = toolkit_named (Some m) value trigger known,
            te_trigger = trigger,
            te_payload = data,
            te_metadata = \<lparr>tm_id = text_of (jget value ''id''), tm_uuid = text_of (jget value ''log_id''),
              tm_user_id = first_text m [''user_id''],
              tm_connected_account_id =
                first_text m [''connection_nano_id'', ''connected_account_id'', ''connection_id''],
              tm_trigger_id = first_text m [''trigger_nano_id'', ''trigger_id'']\<rparr>\<rparr>)))"

definition decode_v1 :: "json \<Rightarrow> str list \<Rightarrow> trigger_event option" where
  "decode_v1 value known =
     (let trigger = text_of (jget value ''trigger_name'') in
      if trigger \<noteq> [] \<and> text_of (jget value ''connection_id'') \<noteq> [] \<and> text_of (jget value ''trigger_id'') \<noteq> [] \<and>
         (case jget value ''payload'' of None \<Rightarrow> False | Some p \<Rightarrow> \<not> is_null p)
      then Some \<lparr>te_toolkit = toolkit_named None value trigger known,
        te_trigger = to_upper trigger,
        te_payload = unwrap_or JNull (jget value ''payload''),
        te_metadata = \<lparr>tm_id = text_of (jget value ''id''), tm_uuid = text_of (jget value ''log_id''),
          tm_user_id = text_of (jget value ''user_id''),
          tm_connected_account_id = text_of (jget value ''connection_id''),
          tm_trigger_id = text_of (jget value ''trigger_id'')\<rparr>\<rparr>
      else None)"

definition decode_object :: "json \<Rightarrow> fields \<Rightarrow> str list \<Rightarrow> webhook_error + trigger_event" where
  "decode_object value m known =
     (let kind = text_of (map_of m ''type'') in
      case Option.bind (map_of m ''metadata'') as_object of
        Some metadata \<Rightarrow>
          if kind = v3_trigger_type then decode_v3 value metadata known
          else Inl (undecodable ''not a V3 trigger delivery'')
      | None \<Rightarrow>
          if kind \<noteq> [] \<and> kind \<noteq> v3_trigger_type
          then (case decode_v2 value kind known of
              Some ev \<Rightarrow> Inr ev
            | None \<Rightarrow> Inl (undecodable
                ''not a V2 trigger delivery: needs `timestamp` and `data` naming a connection''))
          else (case decode_v1 value known of
              Some ev \<Rightarrow> Inr ev
            | None \<Rightarrow> Inl (undecodable ''no trigger slug in `metadata`, `type` or `trigger_name`'')))"

definition decode_with_toolkits ::
  "(str \<Rightarrow> str + json) \<Rightarrow> str \<Rightarrow> str list \<Rightarrow> webhook_error + trigger_event" where
  "decode_with_toolkits parse body known =
     (case parse body of
        Inl reason \<Rightarrow> Inl (UndecodableBody reason)
      | Inr value \<Rightarrow>
          (case as_object value of
             None \<Rightarrow> Inl (undecodable ''the body is not a JSON object'')
           | Some m \<Rightarrow> decode_object value m known))"

definition decode :: "(str \<Rightarrow> str + json) \<Rightarrow> str \<Rightarrow> webhook_error + trigger_event" where
  "decode parse body = decode_with_toolkits parse body []"

section \<open>Laws\<close>

lemma collect_all:
  "collect_candidates b64 entries (candidates, u) =
     (candidates @ filter_map (\<lambda>e. Option.bind (entry_encoded e) b64) entries,
      u \<or> list_ex (\<lambda>e. \<exists>x. entry_encoded e = Some x \<and> b64 x = None) entries)"
  by (induction entries arbitrary: candidates u) (auto split: option.splits)

lemma present_Inr [simp]: "present value header = Inr v \<longleftrightarrow> v = trim value \<and> \<not> blank value"
  by (auto simp: present_def blank_def Let_def)

lemma filter_map_mem: "y \<in> set (filter_map f xs) \<longleftrightarrow> (\<exists>x \<in> set xs. f x = Some y)"
  by (induction xs) (auto split: option.splits)

lemma filter_map_none: "filter_map f xs = [] \<longleftrightarrow> (\<forall>x \<in> set xs. f x = None)"
  by (induction xs) (auto split: option.splits)

lemma no_dot_digits: "digits_value acc ds = Some n \<Longrightarrow> CHR ''.'' \<notin> set ds"
  by (induction ds arbitrary: acc) (auto split: if_splits)

lemma no_dot_timestamp: "parse_unsigned w t = Some n \<Longrightarrow> CHR ''.'' \<notin> set t"
  by (auto simp: parse_unsigned_def Let_def opt_filter_def split: list.splits if_splits option.splits
      dest: no_dot_digits)

lemma dot_split:
  assumes "a @ CHR ''.'' # b = a' @ CHR ''.'' # b'" "CHR ''.'' \<notin> set a" "CHR ''.'' \<notin> set a'"
  shows "a = a' \<and> b = b'"
  using split_once_Some [of "CHR ''.''" "a @ CHR ''.'' # b" a b]
    split_once_Some [of "CHR ''.''" "a @ CHR ''.'' # b" a' b'] assms by simp

lemma signed_content_inj:
  assumes "signed_content i t b = signed_content i' t' b'"
    and "CHR ''.'' \<notin> set i" "CHR ''.'' \<notin> set i'" "CHR ''.'' \<notin> set t" "CHR ''.'' \<notin> set t'"
  shows "i = i' \<and> t = t' \<and> b = b'"
  using dot_split [of i "t @ ''.'' @ b" i' "t' @ ''.'' @ b'"] dot_split [of t b t' b'] assms
  by (simp add: signed_content_def)

lemma longest_step:
  "foldl (\<lambda>best t. case best of None \<Rightarrow> Some t | Some b \<Rightarrow> if length b \<le> length t then Some t else Some b)
     (Some b) ts = Some r \<Longrightarrow> (r = b \<or> r \<in> set ts) \<and> length b \<le> length r \<and> (\<forall>t \<in> set ts. length t \<le> length r)"
  by (induction ts arbitrary: b) (force split: if_splits)+

lemma foldl_Some: "\<exists>r. foldl (\<lambda>best t. case best of None \<Rightarrow> Some t | Some b \<Rightarrow> if length b \<le> length t then Some t else Some b)
     (Some b) ts = Some r"
  by (induction ts arbitrary: b) auto

lemma longest_spec:
  "case longest ts of None \<Rightarrow> ts = []
   | Some r \<Rightarrow> r \<in> set ts \<and> (\<forall>t \<in> set ts. length t \<le> length r)"
proof (cases ts)
  case (Cons b rest)
  obtain r where r: "longest ts = Some r"
    using foldl_Some [of b rest] unfolding Cons longest_def by auto
  moreover have "(r = b \<or> r \<in> set rest) \<and> length b \<le> length r \<and> (\<forall>t \<in> set rest. length t \<le> length r)"
    using r unfolding Cons longest_def by (intro longest_step) simp
  ultimately show ?thesis by (auto simp: Cons)
qed (simp add: longest_def)

lemma abs_diff_within: "c < abs_diff a b \<longleftrightarrow> \<not> \<bar>int a - int b\<bar> \<le> int c"
  by (auto simp: abs_diff_def)

lemma accepted_run:
  assumes "verify hmac b64 secret h body now tolerance = Inr ()"
  shows "\<exists>sent_at mac entry. parse_unsigned 64 (trim (wh_timestamp h)) = Some sent_at \<and>
    \<bar>int (unat now) - int sent_at\<bar> \<le> int (unat tolerance) \<and> hmac secret = Some mac \<and>
    entry \<in> set (split_whitespace (trim (wh_signature h))) \<and>
    Option.bind (entry_encoded entry) b64 =
      Some (mac (signed_content (trim (wh_id h)) (trim (wh_timestamp h)) body))"
  using assms
  by (auto simp: verify_def Let_def collect_all list_ex_iff filter_map_mem abs_diff_within
      split: option.splits if_splits)

lemma find_some: "list_ex P xs \<Longrightarrow> \<exists>x. find P xs = Some x \<and> P x"
  by (induction xs) auto

lemma first_text_some:
  "list_ex (\<lambda>k. text_of (map_of m k) \<noteq> []) ks \<Longrightarrow> first_text m ks \<noteq> []"
  using find_some [of "\<lambda>t. t \<noteq> []" "map (\<lambda>k. text_of (map_of m k)) ks"]
  by (auto simp: first_text_def unwrap_or_def list_ex_iff comp_def)

lemma decode_v1_shape:
  "decode_v1 (JObj m) known = Some ev \<Longrightarrow>
     te_trigger ev = to_upper (text_of (map_of m ''trigger_name'')) \<and> te_trigger ev \<noteq> [] \<and>
     map_of m ''payload'' = Some (te_payload ev) \<and> tm_id (te_metadata ev) = text_of (map_of m ''id'') \<and>
     tm_connected_account_id (te_metadata ev) \<noteq> []"
  by (auto simp: decode_v1_def Let_def unwrap_or_def split: if_splits option.splits)

lemma decode_v2_shape:
  "decode_v2 (JObj m) kind known = Some ev \<Longrightarrow>
     te_trigger ev = to_upper kind \<and> map_of m ''data'' = Some (te_payload ev) \<and>
     tm_id (te_metadata ev) = text_of (map_of m ''id'') \<and> tm_connected_account_id (te_metadata ev) \<noteq> []"
proof -
  assume run: "decode_v2 (JObj m) kind known = Some ev"
  obtain fs where fs: "as_object (unwrap_or JNull (map_of m ''data'')) = Some fs"
    using run by (cases "as_object (unwrap_or JNull (map_of m ''data''))") (simp_all add: decode_v2_def)
  obtain at where at: "opt_filter (\<lambda>at. \<not> is_null at) (map_of m ''timestamp'') = Some at"
    using run fs by (cases "opt_filter (\<lambda>at. \<not> is_null at) (map_of m ''timestamp'')") (simp_all add: decode_v2_def)
  have data: "map_of m ''data'' = Some (unwrap_or JNull (map_of m ''data''))"
    using fs by (cases "map_of m ''data''") (simp_all add: unwrap_or_def)
  have "list_ex (\<lambda>k. text_of (map_of fs k) \<noteq> []) [''connection_nano_id'', ''connected_account_id'', ''connection_id'']"
    using run fs at by (auto simp: decode_v2_def Let_def split: if_splits)
  from first_text_some [OF this] data show ?thesis
    using run fs at by (auto simp: decode_v2_def Let_def split: if_splits)
qed

lemma decode_object_refusal: "decode_object v m known = Inl e \<Longrightarrow> \<exists>reason. e = UndecodableBody reason"
  by (auto simp: decode_object_def decode_v3_def undecodable_def Let_def split: option.splits if_splits)

lemma decode_object_event:
  assumes "decode_object (JObj m) m known = Inr ev"
  shows "te_trigger ev \<noteq> [] \<and> tm_id (te_metadata ev) = text_of (map_of m ''id'') \<and>
    (case Option.bind (map_of m ''metadata'') as_object of
       Some metadata \<Rightarrow> text_of (map_of m ''type'') = v3_trigger_type \<and>
         te_trigger ev = text_of (map_of metadata ''trigger_slug'') \<and>
         te_payload ev = unwrap_or JNull (map_of m ''data'')
     | None \<Rightarrow> tm_connected_account_id (te_metadata ev) \<noteq> [] \<and>
         (if text_of (map_of m ''type'') = [] \<or> text_of (map_of m ''type'') = v3_trigger_type
          then te_trigger ev = to_upper (text_of (map_of m ''trigger_name'')) \<and>
            map_of m ''payload'' = Some (te_payload ev)
          else te_trigger ev = to_upper (text_of (map_of m ''type'')) \<and>
            map_of m ''data'' = Some (te_payload ev)))"
proof (cases "Option.bind (map_of m ''metadata'') as_object")
  case (Some metadata)
  then show ?thesis
    using assms by (auto simp: decode_object_def decode_v3_def Let_def split: if_splits)
next
  case None
  show ?thesis
  proof (cases "text_of (map_of m ''type'') = [] \<or> text_of (map_of m ''type'') = v3_trigger_type")
    case True
    then have "decode_v1 (JObj m) known = Some ev"
      using assms None by (auto simp: decode_object_def split: option.splits)
    from decode_v1_shape [OF this] True None show ?thesis by auto
  next
    case False
    then have "decode_v2 (JObj m) (text_of (map_of m ''type'')) known = Some ev"
      using assms None by (auto simp: decode_object_def split: option.splits)
    from decode_v2_shape [OF this] False None show ?thesis by simp
  qed
qed

section \<open>Properties\<close>

text \<open>
  C18. A delivery is accepted exactly when its three headers and the secret are not blank, its
  timestamp is a number of seconds no further from now than the tolerance, and one entry of the
  signature header not made by another scheme decodes to the digest of id, timestamp and raw body
  under the secret.
\<close>

theorem accepted_exactly:
  "verify hmac b64 secret headers body now tolerance = Inr () \<longleftrightarrow>
     \<not> blank (wh_id headers) \<and> \<not> blank (wh_timestamp headers) \<and> \<not> blank (wh_signature headers) \<and> \<not> blank secret \<and>
     (\<exists>sent_at mac entry encoded.
        parse_unsigned 64 (trim (wh_timestamp headers)) = Some sent_at \<and>
        \<bar>int (unat now) - int sent_at\<bar> \<le> int (unat tolerance) \<and>
        hmac secret = Some mac \<and>
        entry \<in> set (split_whitespace (trim (wh_signature headers))) \<and>
        entry_encoded entry = Some encoded \<and>
        b64 encoded = Some (mac (signed_content (trim (wh_id headers)) (trim (wh_timestamp headers)) body)))"
proof -
  have digest: "list_ex (\<lambda>d. x = d) ds \<longleftrightarrow> x \<in> set ds" for x and ds :: "str list"
    by (auto simp: list_ex_iff)
  show ?thesis
    by (auto simp: verify_def Let_def collect_all digest filter_map_mem filter_map_none abs_diff_within bind_eq_Some_conv
        split: option.splits)
qed

text \<open>
  C19. A captured signature authenticates its own delivery only: when the digest does not collide on
  the two contents and no message id holds a dot, whoever has the same single entry accepted again
  presented the same id, timestamp and body, and within the tolerance of the original send time.
\<close>

theorem signature_binds_delivery:
  assumes "verify hmac b64 secret h body now tolerance = Inr ()"
    and "verify hmac b64 secret h' body' now' tolerance' = Inr ()"
    and "split_whitespace (trim (wh_signature h)) = [entry]"
    and "split_whitespace (trim (wh_signature h')) = [entry]"
    and "CHR ''.'' \<notin> set (wh_id h)" "CHR ''.'' \<notin> set (wh_id h')"
    and "hmac secret = Some mac"
    and "mac (signed_content (trim (wh_id h)) (trim (wh_timestamp h)) body) =
           mac (signed_content (trim (wh_id h')) (trim (wh_timestamp h')) body') \<Longrightarrow>
         signed_content (trim (wh_id h)) (trim (wh_timestamp h)) body =
           signed_content (trim (wh_id h')) (trim (wh_timestamp h')) body'"
  shows "trim (wh_id h) = trim (wh_id h') \<and> trim (wh_timestamp h) = trim (wh_timestamp h') \<and> body = body' \<and>
    (\<exists>sent_at. parse_unsigned 64 (trim (wh_timestamp h)) = Some sent_at \<and>
       \<bar>int (unat now') - int sent_at\<bar> \<le> int (unat tolerance'))"
proof -
  obtain t where t: "parse_unsigned 64 (trim (wh_timestamp h)) = Some t"
      "Option.bind (entry_encoded entry) b64 =
         Some (mac (signed_content (trim (wh_id h)) (trim (wh_timestamp h)) body))"
    using accepted_run [OF assms(1)] assms(3,7) by auto
  obtain t' where t': "parse_unsigned 64 (trim (wh_timestamp h')) = Some t'"
      "\<bar>int (unat now') - int t'\<bar> \<le> int (unat tolerance')"
      "Option.bind (entry_encoded entry) b64 =
         Some (mac (signed_content (trim (wh_id h')) (trim (wh_timestamp h')) body'))"
    using accepted_run [OF assms(2)] assms(4,7) by auto
  have "CHR ''.'' \<notin> set (trim (wh_id h))" "CHR ''.'' \<notin> set (trim (wh_id h'))"
    using assms(5,6) trim_set by blast+
  from signed_content_inj [OF assms(8) this no_dot_timestamp [OF t(1)] no_dot_timestamp [OF t'(1)]] t t'
  show ?thesis by simp
qed

text \<open>A keyed digest without collisions, for the example: the content itself.\<close>

definition plain_mac :: "str \<Rightarrow> (str \<Rightarrow> str) option" where
  "plain_mac secret = Some (\<lambda>m. m)"

definition example_headers :: webhook_headers where
  "example_headers = \<lparr>wh_id = ''m1'', wh_timestamp = ''100'', wh_signature = ''m1.100.{}''\<rparr>"

lemma example_accepted: "verify plain_mac Some ''k'' example_headers ''{}'' 90 300 = Inr ()"
  by (simp add: verify_def present_def example_headers_def plain_mac_def str_eval blank_def
      opt_filter_def abs_diff_def split_whitespace_def split_ws_aux.simps entry_encoded_def
      split_once_def signed_content_def)

theorem signature_binds_delivery_witness:
  "\<exists>sent_at. parse_unsigned 64 (trim (wh_timestamp example_headers)) = Some sent_at \<and>
     \<bar>int (unat (90 :: 64 word)) - int sent_at\<bar> \<le> int (unat (300 :: 64 word))"
proof -
  have entry: "split_whitespace (trim (wh_signature example_headers)) = [''m1.100.{}'']"
    by (simp add: example_headers_def str_eval split_whitespace_def split_ws_aux.simps)
  show ?thesis
    using signature_binds_delivery [OF example_accepted example_accepted entry entry, of "\<lambda>m. m"]
    by (simp add: plain_mac_def example_headers_def)
qed

text \<open>
  A decoded delivery names a trigger, carries the provider's data or payload as it was sent and
  the top-level id, and a body that is no trigger delivery is refused as undecodable. The payload
  version follows from the body: routing metadata makes it V3 only, and without it a foreign type
  makes it V2, whose connection is never blank, and no other type makes it V1.
\<close>

theorem decoded_faithful:
  "case decode_with_toolkits parse body known of
     Inl e \<Rightarrow> \<exists>reason. e = UndecodableBody reason
   | Inr ev \<Rightarrow> \<exists>m. parse body = Inr (JObj m) \<and> te_trigger ev \<noteq> [] \<and>
       tm_id (te_metadata ev) = text_of (map_of m ''id'') \<and>
       (case Option.bind (map_of m ''metadata'') as_object of
          Some metadata \<Rightarrow> text_of (map_of m ''type'') = v3_trigger_type \<and>
            te_trigger ev = text_of (map_of metadata ''trigger_slug'') \<and>
            te_payload ev = unwrap_or JNull (map_of m ''data'')
        | None \<Rightarrow> tm_connected_account_id (te_metadata ev) \<noteq> [] \<and>
            (if text_of (map_of m ''type'') = [] \<or> text_of (map_of m ''type'') = v3_trigger_type
             then te_trigger ev = to_upper (text_of (map_of m ''trigger_name'')) \<and>
               map_of m ''payload'' = Some (te_payload ev)
             else te_trigger ev = to_upper (text_of (map_of m ''type'')) \<and>
               map_of m ''data'' = Some (te_payload ev)))"
proof (cases "parse body")
  case (Inr v)
  show ?thesis
  proof (cases v)
    case (JObj m)
    show ?thesis
    proof (cases "decode_object (JObj m) m known")
      case (Inl e)
      then show ?thesis
        using decode_object_refusal by (auto simp: decode_with_toolkits_def Inr JObj)
    next
      case run: (Inr ev)
      show ?thesis
        using decode_object_event [OF run] run by (simp add: decode_with_toolkits_def Inr JObj)
    qed
  qed (simp_all add: decode_with_toolkits_def undecodable_def Inr)
qed (simp add: decode_with_toolkits_def)

text \<open>
  A trigger whose payload names no toolkit is attributed to the longest known toolkit whose
  name, followed by an underscore, starts its slug in any case, and to the slug's first word when
  there is none.
\<close>

theorem toolkit_longest_known:
  "if list_ex (names_toolkit trigger) known
   then \<exists>t \<in> set known. delivery_toolkit trigger known = to_lower t \<and> names_toolkit trigger t \<and>
     list_all (\<lambda>u. if names_toolkit trigger u then length u \<le> length t else True) known
   else delivery_toolkit trigger known = to_lower (first_piece (CHR ''_'') trigger)"
  using longest_spec [of "filter (names_toolkit trigger) known"]
  by (auto simp: delivery_toolkit_def list_ex_iff list_all_iff filter_empty_conv split: option.splits)

end
