(* ===== verification/Migration.thy ===== *)
theory Migration
  imports Archive
begin

text \<open>
  The module's migration of its own stored records: \<open>crates/tinyconnectors/src/state/migration.rs\<close>,
  and the link that runs it on the first open, \<open>tinybus_module/storage.rs\<close>. The storage driver is
  not part of the repository: its ports are a record of operations on an arbitrary state, and a step
  of that state may hide what other openers and legacy writers do in between. A loop that ends only
  when the store lets it yields \<open>None\<close> where it runs forever.
\<close>

section \<open>The storage ports\<close>

datatype storage_kind = Conflict_kind | Invalid_kind | Unavailable_kind | Other_kind str

record storage_error =
  se_kind :: storage_kind
  se_message :: str

definition storage_conflict :: "str \<Rightarrow> storage_error" where
  "storage_conflict m = \<lparr>se_kind = Conflict_kind, se_message = m\<rparr>"

definition storage_invalid :: "str \<Rightarrow> storage_error" where
  "storage_invalid m = \<lparr>se_kind = Invalid_kind, se_message = m\<rparr>"

definition storage_unavailable :: "str \<Rightarrow> storage_error" where
  "storage_unavailable m = \<lparr>se_kind = Unavailable_kind, se_message = m\<rparr>"

record versioned =
  vr_id :: str
  vr_version :: nat
  vr_doc :: json
  vr_expires :: "int option"

datatype precondition = Pre_none | Pre_absent | Pre_version nat

record 's migration_port =
  mp_get :: "str \<Rightarrow> str \<Rightarrow> ('s, storage_error, versioned option) op"
  mp_put :: "str \<Rightarrow> str \<Rightarrow> json \<Rightarrow> precondition \<Rightarrow> nat option \<Rightarrow> int option \<Rightarrow> ('s, storage_error, nat) op"
  mp_delete :: "str \<Rightarrow> str \<Rightarrow> precondition \<Rightarrow> ('s, storage_error, unit) op"
  mp_query :: "str \<Rightarrow> nat \<Rightarrow> str option \<Rightarrow> ('s, storage_error, versioned list \<times> str option) op"
  mp_streams :: "str \<Rightarrow> ('s, storage_error, str list) op"
  mp_len :: "str \<Rightarrow> ('s, storage_error, nat) op"
  mp_read_window :: "str \<Rightarrow> nat \<Rightarrow> nat \<Rightarrow> ('s, storage_error, json list) op"
  mp_append_if :: "str \<Rightarrow> nat \<Rightarrow> json list \<Rightarrow> ('s, storage_error, unit) op"

text \<open>Operations that may run forever.\<close>

type_synonym ('s, 'a) run = "'s \<Rightarrow> ((storage_error + 'a) \<times> 's) option"

definition once :: "('s, storage_error, 'a) op \<Rightarrow> ('s, 'a) run" where
  "once m = (\<lambda>s. Some (m s))"

definition bindR :: "('s, 'a) run \<Rightarrow> ('a \<Rightarrow> ('s, 'b) run) \<Rightarrow> ('s, 'b) run" where
  "bindR m f = (\<lambda>s. case m s of
       None \<Rightarrow> None
     | Some (r, s') \<Rightarrow> (case r of Inl e \<Rightarrow> Some (Inl e, s') | Inr a \<Rightarrow> f a s'))"

section \<open>Names\<close>

definition legacy_prefs_namespace :: str where "legacy_prefs_namespace = ''composio-user-scopes''"

definition migrations_namespace :: str where "migrations_namespace = ''connectors.migrations''"

definition prefs_step :: str where "prefs_step = ''prefs-v1-unwrap''"

definition streams_step :: str where "streams_step = ''triggers-v1-rename''"

definition page_size :: nat where "page_size = 128"

definition collections :: "str list" where
  "collections = [prefs_namespace, migrations_namespace]"

section \<open>Progress markers\<close>

definition marker :: "str \<Rightarrow> json" where
  "marker step =
     JObj (obj_of [(''owner'', JStr ''connectors''), (''step'', JStr step), (''done'', JBool True)])"

definition is_marker :: "str \<Rightarrow> json \<Rightarrow> bool" where
  "is_marker step doc \<longleftrightarrow>
     Option.bind (jget doc ''owner'') as_str = Some ''connectors'' \<and>
     Option.bind (jget doc ''step'') as_str = Some step \<and>
     Option.bind (jget doc ''done'') as_bool = Some True"

definition migration_done :: "'s migration_port \<Rightarrow> str \<Rightarrow> ('s, storage_error, bool) op" where
  "migration_done mp step =
     bindO (mp_get mp migrations_namespace step) (\<lambda>found. case found of
         None \<Rightarrow> retO False
       | Some r \<Rightarrow>
           if is_marker step (vr_doc r) then retO True
           else failO (storage_conflict (''invalid connector migration marker for `'' @ step @ ''`'')))"

definition mark_done :: "'s migration_port \<Rightarrow> str \<Rightarrow> ('s, storage_error, unit) op" where
  "mark_done mp step = (\<lambda>s.
     case mp_put mp migrations_namespace step (marker step) Pre_absent None None s of
       (Inr v, s') \<Rightarrow> (Inr (), s')
     | (Inl e, s') \<Rightarrow>
         if se_kind e = Conflict_kind
         then bindO (migration_done mp step) (\<lambda>d. if d then retO () else failO e) s'
         else (Inl e, s'))"

section \<open>Preferences\<close>

definition preference_body :: "versioned \<Rightarrow> json" where
  "preference_body source =
     encode_preference (case vr_doc source of JObj m \<Rightarrow> unwrap_or JNull (map_of m ''value'') | _ \<Rightarrow> JNull)"

definition put_preference ::
  "'s migration_port \<Rightarrow> str \<Rightarrow> json \<Rightarrow> int option \<Rightarrow> precondition \<Rightarrow> ('s, storage_error, nat) op" where
  "put_preference mp i body expires pre =
     mp_put mp prefs_namespace i body pre (Some prefs_schema_version) expires"

definition drop_target :: "'s migration_port \<Rightarrow> str \<Rightarrow> nat \<Rightarrow> ('s, storage_error, unit) op" where
  "drop_target mp i target = (\<lambda>s.
     case mp_delete mp prefs_namespace i (Pre_version target) s of
       (Inr u, s') \<Rightarrow> (Inr (), s')
     | (Inl e, s') \<Rightarrow> (if se_kind e = Conflict_kind then Inr () else Inl e, s'))"

text \<open>Whether a legacy row still reads as when it was last copied.\<close>

definition unmoved :: "versioned \<Rightarrow> versioned \<Rightarrow> bool" where
  "unmoved latest source \<longleftrightarrow>
     json_eq (preference_body latest) (preference_body source) \<and> vr_expires latest = vr_expires source"

text \<open>Following a legacy row that changes while its copy is the version this migration wrote.\<close>

partial_function (option) follow_source ::
  "'s migration_port \<Rightarrow> str \<Rightarrow> nat \<Rightarrow> versioned \<Rightarrow> 's \<Rightarrow> ((storage_error + unit) \<times> 's) option" where
  "follow_source mp i target source s =
     (case mp_get mp legacy_prefs_namespace (vr_id source) s of
        (found, s1) \<Rightarrow>
          (case found of
             Inl e \<Rightarrow> Some (Inl e, s1)
           | Inr row \<Rightarrow>
               (case row of
                  None \<Rightarrow> Some (drop_target mp i target s1)
                | Some latest \<Rightarrow>
                    (if unmoved latest source then Some (Inr (), s1)
                     else (case put_preference mp i (preference_body latest) (vr_expires latest)
                              (Pre_version target) s1 of
                         (written, s2) \<Rightarrow>
                           (case written of
                              Inr version \<Rightarrow> follow_source mp i version latest s2
                            | Inl e \<Rightarrow>
                                Some (if se_kind e = Conflict_kind then Inr () else Inl e, s2)))))))"

definition migrate_preference :: "'s migration_port \<Rightarrow> str \<Rightarrow> versioned \<Rightarrow> ('s, unit) run" where
  "migrate_preference mp i source = (\<lambda>s.
     case put_preference mp i (preference_body source) (vr_expires source) Pre_absent s of
       (Inr version, s1) \<Rightarrow> follow_source mp i version source s1
     | (Inl e, s1) \<Rightarrow>
         (if se_kind e = Conflict_kind
          then (case mp_get mp prefs_namespace i s1 of
              (Inl e', s2) \<Rightarrow> Some (Inl e', s2)
            | (Inr None, s2) \<Rightarrow> Some (Inl e, s2)
            | (Inr (Some current), s2) \<Rightarrow>
                (if \<not> json_eq (vr_doc current) (preference_body source) \<or> vr_expires current \<noteq> vr_expires source
                 then Some (Inr (), s2)
                 else follow_source mp i (vr_version current) source s2))
          else Some (Inl e, s1)))"

text \<open>
  \<open>mk_key\<close> is the port's key constructor, \<open>digest\<close> the text of a hash, and \<open>key_error\<close>
  the error of a refused key by its text.
\<close>

definition migrated_key ::
  "(str \<Rightarrow> str) \<Rightarrow> (str \<Rightarrow> str + str) \<Rightarrow> (str \<Rightarrow> storage_error) \<Rightarrow> str \<Rightarrow> storage_error + str" where
  "migrated_key digest mk_key key_error i =
     (case legacy_key digest mk_key [i] of Inl e \<Rightarrow> Inl (key_error e) | Inr k \<Rightarrow> Inr k)"

fun migrate_page ::
  "(str \<Rightarrow> storage_error + str) \<Rightarrow> 's migration_port \<Rightarrow> versioned list \<Rightarrow> ('s, unit) run" where
  "migrate_page key mp [] = once (retO ())"
| "migrate_page key mp (r # rest) =
     (case key (vr_id r) of
        Inl e \<Rightarrow> once (failO e)
      | Inr i \<Rightarrow> bindR (migrate_preference mp i r) (\<lambda>_. migrate_page key mp rest))"

partial_function (option) migrate_pages ::
  "(str \<Rightarrow> storage_error + str) \<Rightarrow> 's migration_port \<Rightarrow> str option \<Rightarrow> 's \<Rightarrow> ((storage_error + unit) \<times> 's) option" where
  "migrate_pages key mp cursor s =
     (case mp_query mp legacy_prefs_namespace page_size cursor s of
        (answer, s1) \<Rightarrow>
          (case answer of
             Inl e \<Rightarrow> Some (Inl e, s1)
           | Inr page \<Rightarrow>
               (if fst page = [] then Some (Inr (), s1)
                else Option.bind (migrate_page key mp (fst page) s1) (\<lambda>done.
                    case fst done of
                      Inl e \<Rightarrow> Some (Inl e, snd done)
                    | Inr u \<Rightarrow>
                        (case snd page of
                           None \<Rightarrow> Some (Inr (), snd done)
                         | Some next_cursor \<Rightarrow> migrate_pages key mp (Some next_cursor) (snd done))))))"

definition migrate_preferences ::
  "(str \<Rightarrow> storage_error + str) \<Rightarrow> 's migration_port \<Rightarrow> ('s, unit) run" where
  "migrate_preferences key mp = migrate_pages key mp None"

section \<open>Streams\<close>

definition differs :: "str \<Rightarrow> str \<Rightarrow> storage_error" where
  "differs source target =
     storage_conflict (''migration target `'' @ target @ ''` differs from source `'' @ source @ ''`'')"

definition source_changed :: "str \<Rightarrow> storage_error" where
  "source_changed source =
     storage_conflict (''migration source `'' @ source @ ''` changed while it was copied'')"

definition same_values :: "json list \<Rightarrow> json list \<Rightarrow> bool" where
  "same_values xs ys \<longleftrightarrow> list_all (\<lambda>(x, y). json_eq x y) (zip xs ys)"

function verify_copied ::
  "'s migration_port \<Rightarrow> str \<Rightarrow> str \<Rightarrow> nat \<Rightarrow> nat \<Rightarrow> ('s, storage_error, unit) op" where
  "verify_copied mp source target target_len verified s =
     (if target_len \<le> verified then (Inr (), s)
      else
        (let limit = min (target_len - verified) page_size in
         case mp_read_window mp source verified limit s of
           (Inl e, s1) \<Rightarrow> (Inl e, s1)
         | (Inr source_entries, s1) \<Rightarrow>
             (case mp_read_window mp target verified limit s1 of
                (Inl e, s2) \<Rightarrow> (Inl e, s2)
              | (Inr target_entries, s2) \<Rightarrow>
                  (if length source_entries \<noteq> limit \<or> length target_entries \<noteq> limit \<or>
                      \<not> same_values source_entries target_entries
                   then (Inl (differs source target), s2)
                   else verify_copied mp source target target_len (verified + limit) s2))))"
  by pat_completeness auto
termination
  by (relation "measure (\<lambda>(mp, source, target, target_len, verified, s). target_len - verified)")
    (auto simp: page_size_def)

declare verify_copied.simps [simp del]

text \<open>One page: appended at its offset, or found there already.\<close>

definition append_page ::
  "'s migration_port \<Rightarrow> str \<Rightarrow> nat \<Rightarrow> json list \<Rightarrow> ('s, storage_error, unit) op" where
  "append_page mp target offset values = (\<lambda>s.
     case mp_append_if mp target offset values s of
       (Inr u, s1) \<Rightarrow> (Inr (), s1)
     | (Inl e, s1) \<Rightarrow>
         (if se_kind e = Conflict_kind
          then (case mp_read_window mp target offset (length values) s1 of
              (Inl e', s2) \<Rightarrow> (Inl e', s2)
            | (Inr raced, s2) \<Rightarrow>
                (if length raced \<noteq> length values \<or> \<not> same_values raced values
                 then (Inl e, s2) else (Inr (), s2)))
          else (Inl e, s1)))"

partial_function (option) copy_stream ::
  "'s migration_port \<Rightarrow> str \<Rightarrow> str \<Rightarrow> nat \<Rightarrow> nat \<Rightarrow> 's \<Rightarrow> ((storage_error + unit) \<times> 's) option" where
  "copy_stream mp source target source_len offset s =
     (if source_len \<le> offset then Some (Inr (), s)
      else
        (case bindO (mp_read_window mp source offset page_size) (\<lambda>values.
             if values = [] then failO (source_changed source)
             else bindO (append_page mp target offset values) (\<lambda>_. mp_len mp target)) s of
           (copied, s1) \<Rightarrow>
             (case copied of
                Inl e \<Rightarrow> Some (Inl e, s1)
              | Inr offset' \<Rightarrow> copy_stream mp source target source_len offset' s1)))"

definition migrate_stream :: "'s migration_port \<Rightarrow> str \<Rightarrow> ('s, unit) run" where
  "migrate_stream mp source =
     (case strip_prefix legacy_stream_prefix source of
        None \<Rightarrow> once (failO (storage_invalid ''stream listing returned a name outside its prefix''))
      | Some day \<Rightarrow>
          (let target = stream_prefix @ day in
           bindR (once (mp_len mp source)) (\<lambda>source_len.
             bindR (once (mp_len mp target)) (\<lambda>target_len.
               if source_len < target_len
               then once (failO (storage_conflict
                   (''migration target `'' @ target @ ''` is longer than source `'' @ source @ ''`'')))
               else bindR (once (verify_copied mp source target target_len 0)) (\<lambda>_.
                 bindR (copy_stream mp source target source_len target_len) (\<lambda>_.
                   once (bindO (mp_len mp source) (\<lambda>len.
                     if len \<noteq> source_len then failO (source_changed source) else retO ()))))))))"

fun migrate_each :: "'s migration_port \<Rightarrow> str list \<Rightarrow> ('s, unit) run" where
  "migrate_each mp [] = once (retO ())"
| "migrate_each mp (source # rest) = bindR (migrate_stream mp source) (\<lambda>_. migrate_each mp rest)"

definition migrate_streams :: "'s migration_port \<Rightarrow> ('s, unit) run" where
  "migrate_streams mp = bindR (once (mp_streams mp legacy_stream_prefix)) (migrate_each mp)"

section \<open>The migrations in order\<close>

definition run_step :: "'s migration_port \<Rightarrow> str \<Rightarrow> ('s, unit) run \<Rightarrow> ('s, unit) run" where
  "run_step mp step work =
     bindR (once (migration_done mp step)) (\<lambda>d.
       if d then once (retO ()) else bindR work (\<lambda>_. once (mark_done mp step)))"

definition prepare_storage ::
  "(str \<Rightarrow> storage_error + str) \<Rightarrow> 's migration_port \<Rightarrow> ('s, unit) run" where
  "prepare_storage key mp =
     bindR (run_step mp prefs_step (migrate_preferences key mp)) (\<lambda>_.
       run_step mp streams_step (migrate_streams mp))"

section \<open>The link to the host's storage\<close>

text \<open>
  The handle kept by a link, next to the state outside; \<open>connection\<close> is how to reach the host, if
  there is one, and \<open>render\<close> how a storage error prints.
\<close>

type_synonym 's linked = "'s \<times> 's migration_port option"

definition scoped ::
  "(storage_error \<Rightarrow> str) \<Rightarrow> (str \<Rightarrow> storage_error + str) \<Rightarrow>
   ('s, storage_error, 's migration_port) op option \<Rightarrow> ('s linked, 's migration_port) run" where
  "scoped render key connection = (\<lambda>(s, slot).
     case connection of
       None \<Rightarrow> Some (Inl (storage_unavailable ''no storage bus connection''), (s, slot))
     | Some connect \<Rightarrow>
         (case slot of
            Some mp \<Rightarrow> Some (Inr mp, (s, slot))
          | None \<Rightarrow>
              (case connect s of
                 (Inl e, s1) \<Rightarrow> Some (Inl e, (s1, None))
               | (Inr mp, s1) \<Rightarrow>
                   (case prepare_storage key mp s1 of
                      None \<Rightarrow> None
                    | Some (Inl e, s2) \<Rightarrow>
                        Some (Inl \<lparr>se_kind = se_kind e,
                          se_message = ''storage migration failed: '' @ render e\<rparr>, (s2, None))
                    | Some (Inr u, s2) \<Rightarrow> Some (Inr mp, (s2, Some mp))))))"

section \<open>A store nobody else writes to\<close>

text \<open>What is stored is given by two views: documents by collection and id, streams by name.\<close>

definition admits :: "precondition \<Rightarrow> versioned option \<Rightarrow> bool" where
  "admits pre found =
     (case pre of Pre_none \<Rightarrow> True | Pre_absent \<Rightarrow> found = None
      | Pre_version v \<Rightarrow> map_option vr_version found = Some v)"

definition conflicts :: "('s, storage_error, 'a) op \<Rightarrow> 's \<Rightarrow> bool" where
  "conflicts m s \<longleftrightarrow> (\<exists>e. m s = (Inl e, s) \<and> se_kind e = Conflict_kind)"

definition quiet ::
  "'s migration_port \<Rightarrow> ('s \<Rightarrow> str \<times> str \<Rightarrow> versioned option) \<Rightarrow> ('s \<Rightarrow> str \<Rightarrow> json list) \<Rightarrow> bool" where
  "quiet mp docs strs \<longleftrightarrow>
     (\<forall>c i s. mp_get mp c i s = (Inr (docs s (c, i)), s)) \<and>
     (\<forall>c i body pre sch expires s.
        if admits pre (docs s (c, i))
        then \<exists>v s'. mp_put mp c i body pre sch expires s = (Inr v, s') \<and> strs s' = strs s \<and>
          docs s' = (docs s)((c, i) \<mapsto> \<lparr>vr_id = i, vr_version = v, vr_doc = body, vr_expires = expires\<rparr>)
        else conflicts (mp_put mp c i body pre sch expires) s) \<and>
     (\<forall>st s. mp_len mp st s = (Inr (length (strs s st)), s)) \<and>
     (\<forall>st i n s. mp_read_window mp st i n s = (Inr (take n (drop i (strs s st))), s)) \<and>
     (\<forall>st n vs s.
        if length (strs s st) = n
        then \<exists>s'. mp_append_if mp st n vs s = (Inr (), s') \<and> docs s' = docs s \<and>
          strs s' = (strs s)(st := strs s st @ vs)
        else conflicts (mp_append_if mp st n vs) s)"

lemma quietD:
  assumes "quiet mp docs strs"
  shows "mp_get mp c i s = (Inr (docs s (c, i)), s)"
    and "mp_len mp st s = (Inr (length (strs s st)), s)"
    and "mp_read_window mp st k n s = (Inr (take n (drop k (strs s st))), s)"
  using assms unfolding quiet_def by blast+

lemma quiet_put:
  assumes "quiet mp docs strs" "admits pre (docs s (c, i))"
  obtains v s' where "mp_put mp c i body pre sch expires s = (Inr v, s')" "strs s' = strs s"
    "docs s' = (docs s)((c, i) \<mapsto> \<lparr>vr_id = i, vr_version = v, vr_doc = body, vr_expires = expires\<rparr>)"
  using assms unfolding quiet_def by (metis (no_types, lifting))

lemma quiet_put_refused:
  assumes "quiet mp docs strs" "\<not> admits pre (docs s (c, i))"
  obtains e where "mp_put mp c i body pre sch expires s = (Inl e, s)" "se_kind e = Conflict_kind"
  using assms unfolding quiet_def conflicts_def by (metis (no_types, lifting))

lemma quiet_append:
  assumes "quiet mp docs strs" "length (strs s st) = n"
  obtains s' where "mp_append_if mp st n vs s = (Inr (), s')" "docs s' = docs s"
    "strs s' = (strs s)(st := strs s st @ vs)"
  using assms unfolding quiet_def by (metis (no_types, lifting))

text \<open>What of a document a reader sees.\<close>

definition content :: "versioned \<Rightarrow> json \<times> int option" where
  "content r = (vr_doc r, vr_expires r)"

definition moved :: "versioned \<Rightarrow> json \<times> int option" where
  "moved r = (preference_body r, vr_expires r)"

lemma namespaces_apart [simp]:
  "prefs_namespace \<noteq> legacy_prefs_namespace" "legacy_prefs_namespace \<noteq> prefs_namespace"
  "prefs_namespace \<noteq> migrations_namespace" "migrations_namespace \<noteq> prefs_namespace"
  "legacy_prefs_namespace \<noteq> migrations_namespace" "migrations_namespace \<noteq> legacy_prefs_namespace"
  by (simp_all add: prefs_namespace_def legacy_prefs_namespace_def migrations_namespace_def)

lemma unmoved_refl [simp]: "unmoved r r"
  by (simp add: unmoved_def)

lemma follow_settled:
  assumes "quiet mp docs strs" "docs s (legacy_prefs_namespace, vr_id r) = Some r"
  shows "follow_source mp i v r s = Some (Inr (), s)"
  using assms(2) by (simp add: follow_source.simps quietD(1) [OF assms(1)])

text \<open>One row: the copy is written where nothing is stored, and nothing else changes.\<close>

lemma migrate_preference_quiet:
  assumes q: "quiet mp docs strs" and row: "docs s (legacy_prefs_namespace, vr_id r) = Some r"
  obtains s' where "migrate_preference mp i r s = Some (Inr (), s')" "strs s' = strs s"
    "\<And>c j. map_option content (docs s' (c, j)) =
       (if c = prefs_namespace \<and> j = i \<and> docs s (c, j) = None then Some (moved r)
        else map_option content (docs s (c, j)))"
    "\<And>j. docs s' (legacy_prefs_namespace, j) = docs s (legacy_prefs_namespace, j)"
    "\<And>j. docs s' (migrations_namespace, j) = docs s (migrations_namespace, j)"
proof (cases "docs s (prefs_namespace, i)")
  case None
  then have "admits Pre_absent (docs s (prefs_namespace, i))" by (simp add: admits_def)
  from quiet_put [OF q this, of "preference_body r" "Some prefs_schema_version" "vr_expires r"]
  obtain v s' where put: "mp_put mp prefs_namespace i (preference_body r) Pre_absent
      (Some prefs_schema_version) (vr_expires r) s = (Inr v, s')" "strs s' = strs s"
    "docs s' = (docs s)((prefs_namespace, i) \<mapsto>
       \<lparr>vr_id = i, vr_version = v, vr_doc = preference_body r, vr_expires = vr_expires r\<rparr>)" .
  then have "docs s' (legacy_prefs_namespace, vr_id r) = Some r" using row by simp
  from follow_settled [OF q this] put
  have "migrate_preference mp i r s = Some (Inr (), s')"
    by (simp add: migrate_preference_def put_preference_def)
  then show ?thesis using put None by (intro that [of s']) (auto simp: content_def moved_def)
next
  case (Some t)
  then have "\<not> admits Pre_absent (docs s (prefs_namespace, i))" by (simp add: admits_def)
  from quiet_put_refused [OF q this, of "preference_body r" "Some prefs_schema_version" "vr_expires r"]
  obtain e where put: "mp_put mp prefs_namespace i (preference_body r) Pre_absent
      (Some prefs_schema_version) (vr_expires r) s = (Inl e, s)" "se_kind e = Conflict_kind" .
  have "migrate_preference mp i r s = Some (Inr (), s)"
    using Some put follow_settled [OF q row]
    by (simp add: migrate_preference_def put_preference_def quietD(1) [OF q])
  then show ?thesis using Some by (intro that [of s]) auto
qed

text \<open>A page, then all pages: the first row of a key is copied where nothing is stored.\<close>

definition target_content ::
  "(str \<Rightarrow> storage_error + str) \<Rightarrow> versioned list \<Rightarrow> str \<Rightarrow> (json \<times> int option) option" where
  "target_content key rows i = map_option moved (find (\<lambda>r. key (vr_id r) = Inr i) rows)"

definition migrated ::
  "(str \<Rightarrow> storage_error + str) \<Rightarrow> versioned list \<Rightarrow> (str \<times> str \<Rightarrow> versioned option) \<Rightarrow>
   (str \<times> str \<Rightarrow> versioned option) \<Rightarrow> bool" where
  "migrated key rows before after \<longleftrightarrow>
     (\<forall>c i. map_option content (after (c, i)) =
        (if c = prefs_namespace \<and> before (c, i) = None then target_content key rows i
         else map_option content (before (c, i)))) \<and>
     (\<forall>i. after (legacy_prefs_namespace, i) = before (legacy_prefs_namespace, i)) \<and>
     (\<forall>i. after (migrations_namespace, i) = before (migrations_namespace, i))"

lemma migrated_none:
  assumes "migrated key rows d d'"
  shows "d' (prefs_namespace, i) = None \<longleftrightarrow>
    d (prefs_namespace, i) = None \<and> find (\<lambda>r. key (vr_id r) = Inr i) rows = None"
proof -
  have "map_option content (d' (prefs_namespace, i)) = (if d (prefs_namespace, i) = None
      then target_content key rows i else map_option content (d (prefs_namespace, i)))"
    using assms unfolding migrated_def by simp
  then show ?thesis by (auto simp: target_content_def split: if_splits)
qed

lemma find_append: "find P (xs @ ys) = (case find P xs of None \<Rightarrow> find P ys | Some x \<Rightarrow> Some x)"
  by (induction xs) auto

lemma migrated_append:
  assumes "migrated key xs d d'" "migrated key ys d' d''"
  shows "migrated key (xs @ ys) d d''"
  using assms(1,2) migrated_none [OF assms(1)] unfolding migrated_def
  by (auto simp: target_content_def find_append split: option.splits)

lemma migrate_page_quiet:
  assumes q: "quiet mp docs strs"
    and "\<forall>r \<in> set rows. docs s (legacy_prefs_namespace, vr_id r) = Some r \<and> (\<exists>i. key (vr_id r) = Inr i)"
  shows "\<exists>s'. migrate_page key mp rows s = Some (Inr (), s') \<and> strs s' = strs s \<and>
    migrated key rows (docs s) (docs s')"
  using assms(2)
proof (induction rows arbitrary: s)
  case Nil
  then show ?case by (auto simp: once_def retO_def migrated_def target_content_def)
next
  case (Cons r rest)
  obtain i where i: "key (vr_id r) = Inr i" using Cons.prems by auto
  have row: "docs s (legacy_prefs_namespace, vr_id r) = Some r" using Cons.prems by simp
  obtain s1 where s1: "migrate_preference mp i r s = Some (Inr (), s1)" "strs s1 = strs s"
    "\<And>c j. map_option content (docs s1 (c, j)) =
       (if c = prefs_namespace \<and> j = i \<and> docs s (c, j) = None then Some (moved r)
        else map_option content (docs s (c, j)))"
    "\<And>j. docs s1 (legacy_prefs_namespace, j) = docs s (legacy_prefs_namespace, j)"
    "\<And>j. docs s1 (migrations_namespace, j) = docs s (migrations_namespace, j)"
    by (rule migrate_preference_quiet [OF q row]) blast
  have one: "migrated key [r] (docs s) (docs s1)"
    using s1(3-5) i unfolding migrated_def by (auto simp: target_content_def)
  have "\<forall>r \<in> set rest. docs s1 (legacy_prefs_namespace, vr_id r) = Some r \<and> (\<exists>i. key (vr_id r) = Inr i)"
    using Cons.prems s1(4) by simp
  from Cons.IH [OF this] obtain s' where s': "migrate_page key mp rest s1 = Some (Inr (), s')"
    "strs s' = strs s1" "migrated key rest (docs s1) (docs s')" by blast
  then show ?case
    using i s1(1,2) migrated_append [OF one s'(3)] by (auto simp: bindR_def)
qed

text \<open>A listing that answers with the same pages as long as the legacy rows stay as they are.\<close>

fun serves_pages ::
  "'s migration_port \<Rightarrow> ('s \<Rightarrow> bool) \<Rightarrow> str option \<Rightarrow> (versioned list \<times> str option) list \<Rightarrow> bool" where
  "serves_pages mp ok cursor [] =
     (\<exists>n. \<forall>s. ok s \<longrightarrow> mp_query mp legacy_prefs_namespace page_size cursor s = (Inr ([], n), s))"
| "serves_pages mp ok cursor ((items, n) # pages) =
     (items \<noteq> [] \<and> (\<forall>s. ok s \<longrightarrow> mp_query mp legacy_prefs_namespace page_size cursor s = (Inr (items, n), s)) \<and>
      (case n of None \<Rightarrow> pages = [] | Some c \<Rightarrow> serves_pages mp ok (Some c) pages))"

definition rows_stay :: "('s \<Rightarrow> str \<times> str \<Rightarrow> versioned option) \<Rightarrow> 's \<Rightarrow> 's \<Rightarrow> bool" where
  "rows_stay docs s s' \<longleftrightarrow> (\<forall>i. docs s' (legacy_prefs_namespace, i) = docs s (legacy_prefs_namespace, i))"

lemma migrate_pages_quiet:
  assumes q: "quiet mp docs strs"
    and "serves_pages mp (rows_stay docs s0) cursor pages" "rows_stay docs s0 s"
    and "\<forall>r \<in> set (concat (map fst pages)).
      docs s0 (legacy_prefs_namespace, vr_id r) = Some r \<and> (\<exists>i. key (vr_id r) = Inr i)"
  shows "\<exists>s'. migrate_pages key mp cursor s = Some (Inr (), s') \<and> strs s' = strs s \<and>
    migrated key (concat (map fst pages)) (docs s) (docs s')"
  using assms(2-4)
proof (induction pages arbitrary: cursor s)
  case Nil
  then obtain n where "mp_query mp legacy_prefs_namespace page_size cursor s = (Inr ([], n), s)" by auto
  then show ?case by (auto simp: migrate_pages.simps migrated_def target_content_def)
next
  case (Cons page pages)
  obtain items n where page: "page = (items, n)" by (cases page)
  have query: "mp_query mp legacy_prefs_namespace page_size cursor s = (Inr (items, n), s)" "items \<noteq> []"
    using Cons.prems(1,2) by (auto simp: page)
  have "\<forall>r \<in> set items. docs s (legacy_prefs_namespace, vr_id r) = Some r \<and> (\<exists>i. key (vr_id r) = Inr i)"
    using Cons.prems(2,3) by (auto simp: page rows_stay_def)
  from migrate_page_quiet [OF q this] obtain s1 where
    s1: "migrate_page key mp items s = Some (Inr (), s1)" "strs s1 = strs s" "migrated key items (docs s) (docs s1)"
    by blast
  show ?case
  proof (cases n)
    case None
    then have "pages = []" using Cons.prems(1) by (simp add: page)
    then show ?thesis using query s1 by (auto simp: page None migrate_pages.simps)
  next
    case (Some c)
    then have "serves_pages mp (rows_stay docs s0) (Some c) pages" using Cons.prems(1) by (simp add: page)
    moreover have "rows_stay docs s0 s1"
      using Cons.prems(2) s1(3) unfolding rows_stay_def migrated_def by simp
    moreover have "\<forall>r \<in> set (concat (map fst pages)).
        docs s0 (legacy_prefs_namespace, vr_id r) = Some r \<and> (\<exists>i. key (vr_id r) = Inr i)"
      using Cons.prems(3) by (simp add: page)
    ultimately obtain s2 where s2: "migrate_pages key mp (Some c) s1 = Some (Inr (), s2)" "strs s2 = strs s1"
      "migrated key (concat (map fst pages)) (docs s1) (docs s2)"
      using Cons.IH by blast
    show ?thesis
      using query s1 s2 migrated_append [OF s1(3) s2(3)] by (auto simp: page Some migrate_pages.simps)
  qed
qed

text \<open>Streams: a target that holds a beginning of its source is completed.\<close>

definition copied_so_far :: "json list \<Rightarrow> json list \<Rightarrow> bool" where
  "copied_so_far xs ys \<longleftrightarrow> length ys \<le> length xs \<and> same_values (take (length ys) xs) ys"

lemma same_values_append:
  "length xs = length ys \<Longrightarrow> same_values (xs @ us) (ys @ vs) \<longleftrightarrow> same_values xs ys \<and> same_values us vs"
  by (simp add: same_values_def)

lemma same_values_refl [simp]: "same_values xs xs"
  by (simp add: same_values_def zip_same_conv_map list_all_iff)

lemma verify_copied_quiet:
  fixes mp docs strs s source target
  assumes q: "quiet mp docs strs"
  defines "S \<equiv> strs s source" and "T \<equiv> strs s target"
  assumes "length T \<le> length S"
  shows "verify_copied mp source target (length T) k s =
    (if same_values (drop k (take (length T) S)) (drop k T) then Inr () else Inl (differs source target), s)"
proof (induction "length T - k" arbitrary: k rule: less_induct)
  case less
  show ?case
  proof (cases "length T \<le> k")
    case True
    then show ?thesis by (simp add: verify_copied.simps same_values_def)
  next
    case False
    let ?l = "min (length T - k) page_size"
    let ?a = "take ?l (drop k S)" and ?b = "take ?l (drop k T)"
    have pos: "0 < ?l" using False by (simp add: page_size_def)
    have lens: "length ?a = ?l" "length ?b = ?l" using assms(4) False by simp_all
    have "drop k (take (length T) S) = ?a @ drop (k + ?l) (take (length T) S)"
      using append_take_drop_id [of ?l "drop k (take (length T) S)"]
      by (simp add: drop_take add.commute)
    moreover have "drop k T = ?b @ drop (k + ?l) T"
      by (metis append_take_drop_id drop_drop add.commute)
    ultimately have split: "same_values (drop k (take (length T) S)) (drop k T) \<longleftrightarrow>
        same_values ?a ?b \<and> same_values (drop (k + ?l) (take (length T) S)) (drop (k + ?l) T)"
      using same_values_append [of ?a ?b] lens by metis
    have "length T - (k + ?l) < length T - k" using pos False by arith
    note IH = less [OF this]
    show ?thesis
      unfolding split verify_copied.simps [of mp source target "length T" k]
      using False lens IH
      by (simp add: quietD(3) [OF q] S_def [symmetric] T_def [symmetric] Let_def del: length_take length_drop)
  qed
qed

lemma copy_stream_quiet:
  assumes q: "quiet mp docs strs" and ne: "target \<noteq> source"
    and "length (strs s target) \<le> length (strs s source)"
  shows "\<exists>s'. copy_stream mp source target (length (strs s source)) (length (strs s target)) s = Some (Inr (), s') \<and>
    docs s' = docs s \<and>
    strs s' = (strs s)(target := strs s target @ drop (length (strs s target)) (strs s source))"
  using assms(3)
proof (induction "length (strs s source) - length (strs s target)" arbitrary: s rule: less_induct)
  case less
  let ?S = "strs s source" and ?T = "strs s target"
  show ?case
  proof (cases "length ?S \<le> length ?T")
    case True
    then show ?thesis using less.prems by (simp add: copy_stream.simps)
  next
    case False
    let ?vs = "take page_size (drop (length ?T) ?S)"
    have vs: "?vs \<noteq> []" using False by (simp add: page_size_def)
    obtain s1 where s1: "mp_append_if mp target (length ?T) ?vs s = (Inr (), s1)" "docs s1 = docs s"
      "strs s1 = (strs s)(target := ?T @ ?vs)"
      by (rule quiet_append [OF q refl])
    have src: "strs s1 source = ?S" and tgt: "strs s1 target = ?T @ ?vs" using s1(3) ne by simp_all
    have le: "length (strs s1 target) \<le> length (strs s1 source)" unfolding src tgt using less.prems by auto
    have "length (strs s1 source) - length (strs s1 target) < length ?S - length ?T"
      unfolding src tgt using False vs by (simp add: page_size_def)
    from less.hyps [OF this le] obtain s' where
      s': "copy_stream mp source target (length ?S) (length (?T @ ?vs)) s1 = Some (Inr (), s')"
        "docs s' = docs s1" "strs s' = (strs s1)(target := (?T @ ?vs) @ drop (length (?T @ ?vs)) ?S)"
      unfolding src tgt by blast
    have page: "bindO (mp_read_window mp source (length ?T) page_size) (\<lambda>values.
        if values = [] then failO (source_changed source)
        else bindO (append_page mp target (length ?T) values) (\<lambda>_. mp_len mp target)) s =
      (Inr (length (?T @ ?vs)), s1)"
      using vs s1(1) by (simp add: eff append_page_def quietD [OF q] tgt del: length_append)
    have "drop (length (?T @ ?vs)) ?S = drop page_size (drop (length ?T) ?S)"
      by (cases "page_size \<le> length ?S - length ?T") (simp_all add: min_def add.commute)
    then have "(?T @ ?vs) @ drop (length (?T @ ?vs)) ?S = ?T @ drop (length ?T) ?S"
      using append_take_drop_id [of page_size "drop (length ?T) ?S"] by simp
    then show ?thesis
      using False page s' s1(2,3) by (subst copy_stream.simps) (simp del: length_append append_assoc)
  qed
qed

lemma stream_names_apart: "stream_prefix @ d \<noteq> legacy_stream_prefix @ d'"
  by (simp add: stream_prefix_def legacy_stream_prefix_def)

lemma migrate_stream_quiet:
  fixes mp docs strs s day
  assumes q: "quiet mp docs strs"
  defines "S \<equiv> strs s (legacy_stream_prefix @ day)" and "T \<equiv> strs s (stream_prefix @ day)"
  shows "if copied_so_far S T
    then \<exists>s'. migrate_stream mp (legacy_stream_prefix @ day) s = Some (Inr (), s') \<and> docs s' = docs s \<and>
      strs s' = (strs s)(stream_prefix @ day := T @ drop (length T) S)
    else \<exists>e. migrate_stream mp (legacy_stream_prefix @ day) s = Some (Inl e, s) \<and> se_kind e = Conflict_kind"
proof -
  have strip: "strip_prefix legacy_stream_prefix (legacy_stream_prefix @ day) = Some day"
    by (simp add: strip_prefix_Some)
  consider (long) "length S < length T" | (other) "length T \<le> length S" "\<not> same_values (take (length T) S) T"
    | (ok) "copied_so_far S T"
    unfolding copied_so_far_def by linarith
  then show ?thesis
  proof cases
    case long
    then show ?thesis
      by (simp add: copied_so_far_def migrate_stream_def strip Let_def bindR_def once_def quietD [OF q] eff
          storage_conflict_def S_def T_def)
  next
    case other
    then have "verify_copied mp (legacy_stream_prefix @ day) (stream_prefix @ day) (length T) 0 s =
        (Inl (differs (legacy_stream_prefix @ day) (stream_prefix @ day)), s)"
      using verify_copied_quiet [OF q, of s "stream_prefix @ day" "legacy_stream_prefix @ day" 0]
      by (simp add: S_def T_def)
    with other show ?thesis
      by (simp add: copied_so_far_def migrate_stream_def strip Let_def bindR_def once_def quietD [OF q]
          differs_def storage_conflict_def S_def T_def)
  next
    case ok
    then have "verify_copied mp (legacy_stream_prefix @ day) (stream_prefix @ day) (length T) 0 s = (Inr (), s)"
      using verify_copied_quiet [OF q, of s "stream_prefix @ day" "legacy_stream_prefix @ day" 0]
      by (simp add: copied_so_far_def S_def T_def)
    moreover obtain s' where s': "copy_stream mp (legacy_stream_prefix @ day) (stream_prefix @ day)
        (length S) (length T) s = Some (Inr (), s')" "docs s' = docs s"
      "strs s' = (strs s)(stream_prefix @ day := T @ drop (length T) S)"
      using copy_stream_quiet [OF q stream_names_apart, of s day day] ok
      unfolding copied_so_far_def S_def T_def by blast
    moreover have "strs s' (legacy_stream_prefix @ day) = S"
      using s'(3) stream_names_apart [of day day] by (simp add: S_def)
    ultimately have "migrate_stream mp (legacy_stream_prefix @ day) s = Some (Inr (), s')"
      using ok by (simp add: copied_so_far_def migrate_stream_def strip Let_def bindR_def once_def
          quietD [OF q] eff S_def T_def)
    with ok s' show ?thesis by (simp only: if_True) blast
  qed
qed

text \<open>All days: every copied stream is completed, everything else stays.\<close>

lemma migrate_each_quiet:
  assumes q: "quiet mp docs strs" and "distinct days"
    and "\<forall>d \<in> set days. copied_so_far (strs s (legacy_stream_prefix @ d)) (strs s (stream_prefix @ d))"
  shows "\<exists>s'. migrate_each mp (map ((@) legacy_stream_prefix) days) s = Some (Inr (), s') \<and> docs s' = docs s \<and>
    (\<forall>d. strs s' (stream_prefix @ d) = (if d \<in> set days
       then strs s (stream_prefix @ d) @
         drop (length (strs s (stream_prefix @ d))) (strs s (legacy_stream_prefix @ d))
       else strs s (stream_prefix @ d))) \<and>
    (\<forall>st. (\<forall>d \<in> set days. st \<noteq> stream_prefix @ d) \<longrightarrow> strs s' st = strs s st)"
  using assms(2,3)
proof (induction days arbitrary: s)
  case Nil
  then show ?case by (simp add: once_def retO_def)
next
  case (Cons d rest)
  obtain s1 where s1: "migrate_stream mp (legacy_stream_prefix @ d) s = Some (Inr (), s1)" "docs s1 = docs s"
    "strs s1 = (strs s)(stream_prefix @ d :=
       strs s (stream_prefix @ d) @
         drop (length (strs s (stream_prefix @ d))) (strs s (legacy_stream_prefix @ d)))"
    using migrate_stream_quiet [OF q, of s d] Cons.prems(2) by auto
  have keep: "strs s1 (legacy_stream_prefix @ d') = strs s (legacy_stream_prefix @ d')" for d'
    using s1(3) stream_names_apart [of d d'] by simp
  have "\<forall>d \<in> set rest. copied_so_far (strs s1 (legacy_stream_prefix @ d)) (strs s1 (stream_prefix @ d))"
    using Cons.prems s1(3) keep by auto
  from Cons.IH [OF _ this] Cons.prems(1) obtain s' where
    s': "migrate_each mp (map ((@) legacy_stream_prefix) rest) s1 = Some (Inr (), s')" "docs s' = docs s1"
    "\<forall>d. strs s' (stream_prefix @ d) = (if d \<in> set rest
       then strs s1 (stream_prefix @ d) @
         drop (length (strs s1 (stream_prefix @ d))) (strs s1 (legacy_stream_prefix @ d))
       else strs s1 (stream_prefix @ d))"
    "\<forall>st. (\<forall>d \<in> set rest. st \<noteq> stream_prefix @ d) \<longrightarrow> strs s' st = strs s1 st"
    by auto
  show ?case
    using s1 s' Cons.prems(1) keep by (intro exI [of _ s']) (auto simp: bindR_def)
qed

end
