(* ===== verification/Migration_Laws.thy ===== *)
theory Migration_Laws
  imports Migration
begin

text \<open>
  What the migration of \<open>state/migration.rs\<close> achieves: in a store nobody else writes to it ends and
  is done once; beside other openers it still copies every record exactly once; a legacy row that
  changes meanwhile is followed until it settles.
\<close>

section \<open>A store for the examples\<close>

record mem =
  m_docs :: "str \<times> str \<Rightarrow> versioned option"
  m_clock :: nat
  m_strs :: "str \<Rightarrow> json list"

definition mem_port :: "str list \<Rightarrow> str list \<Rightarrow> mem migration_port" where
  "mem_port ids names =
     \<lparr>mp_get = (\<lambda>c i s. (Inr (m_docs s (c, i)), s)),
      mp_put = (\<lambda>c i body pre sch expires s.
        if admits pre (m_docs s (c, i))
        then (Inr (m_clock s), s\<lparr>m_clock := Suc (m_clock s),
          m_docs := (m_docs s)((c, i) \<mapsto>
            \<lparr>vr_id = i, vr_version = m_clock s, vr_doc = body, vr_expires = expires\<rparr>)\<rparr>)
        else (Inl (storage_conflict ''precondition failed''), s)),
      mp_delete = (\<lambda>c i pre s.
        if admits pre (m_docs s (c, i)) then (Inr (), s\<lparr>m_docs := (m_docs s)((c, i) := None)\<rparr>)
        else (Inl (storage_conflict ''precondition failed''), s)),
      mp_query = (\<lambda>c n cursor s. (Inr (filter_map (\<lambda>i. m_docs s (c, i)) ids, None), s)),
      mp_streams = (\<lambda>p s. (Inr (filter (prefix p) names), s)),
      mp_len = (\<lambda>st s. (Inr (length (m_strs s st)), s)),
      mp_read_window = (\<lambda>st i n s. (Inr (take n (drop i (m_strs s st))), s)),
      mp_append_if = (\<lambda>st n vs s.
        if length (m_strs s st) = n
        then (Inr (), s\<lparr>m_strs := (m_strs s)(st := m_strs s st @ vs)\<rparr>)
        else (Inl (storage_conflict ''offset taken''), s))\<rparr>"

lemma mem_quiet: "quiet (mem_port ids names) m_docs m_strs"
  by (simp add: quiet_def mem_port_def conflicts_def storage_conflict_def)

section \<open>Done once\<close>

lemma marker_ok [simp]: "is_marker step (marker step)"
  by (simp add: is_marker_def marker_def obj_of_def)

lemma steps_apart [simp]: "prefs_step \<noteq> streams_step" "streams_step \<noteq> prefs_step"
  by (simp_all add: prefs_step_def streams_step_def)

definition marked :: "(str \<times> str \<Rightarrow> versioned option) \<Rightarrow> str \<Rightarrow> bool" where
  "marked d step \<longleftrightarrow> (\<exists>r. d (migrations_namespace, step) = Some r \<and> is_marker step (vr_doc r))"

lemma run_step_marked:
  assumes "quiet mp docs strs" "marked (docs s) step"
  shows "run_step mp step work s = Some (Inr (), s)"
  using assms(2) by (auto simp: marked_def run_step_def bindR_def once_def migration_done_def eff quietD(1) [OF assms(1)])

text \<open>A step without a marker does its work, then sets the marker.\<close>

lemma run_step_fresh:
  assumes q: "quiet mp docs strs" and "docs s (migrations_namespace, step) = None"
    and "work s = Some (Inr (), s1)" "docs s1 (migrations_namespace, step) = None"
  obtains s2 where "run_step mp step work s = Some (Inr (), s2)" "strs s2 = strs s1" "marked (docs s2) step"
    "\<And>c i. (c, i) \<noteq> (migrations_namespace, step) \<Longrightarrow> docs s2 (c, i) = docs s1 (c, i)"
proof -
  have "admits Pre_absent (docs s1 (migrations_namespace, step))" using assms(4) by (simp add: admits_def)
  from quiet_put [OF q this, of "marker step" None None] obtain v s2 where
    put: "mp_put mp migrations_namespace step (marker step) Pre_absent None None s1 = (Inr v, s2)" "strs s2 = strs s1"
    "docs s2 = (docs s1)((migrations_namespace, step) \<mapsto>
       \<lparr>vr_id = step, vr_version = v, vr_doc = marker step, vr_expires = None\<rparr>)" .
  then have "run_step mp step work s = Some (Inr (), s2)"
    using assms(2,3) by (simp add: run_step_def bindR_def once_def migration_done_def eff mark_done_def quietD(1) [OF q])
  then show ?thesis using put by (intro that [of s2]) (auto simp: marked_def)
qed

text \<open>What the two migrations promise of a store they find: listings that answer, copies that fit.\<close>

definition listable ::
  "(str \<Rightarrow> storage_error + str) \<Rightarrow> 's migration_port \<Rightarrow> ('s \<Rightarrow> str \<times> str \<Rightarrow> versioned option) \<Rightarrow> 's \<Rightarrow>
   (versioned list \<times> str option) list \<Rightarrow> bool" where
  "listable key mp docs s pages \<longleftrightarrow>
     serves_pages mp (rows_stay docs s) None pages \<and>
     (\<forall>r \<in> set (concat (map fst pages)).
        docs s (legacy_prefs_namespace, vr_id r) = Some r \<and> (\<exists>i. key (vr_id r) = Inr i))"

definition copyable :: "'s migration_port \<Rightarrow> ('s \<Rightarrow> str \<Rightarrow> json list) \<Rightarrow> 's \<Rightarrow> str list \<Rightarrow> bool" where
  "copyable mp strs s days \<longleftrightarrow>
     distinct days \<and>
     (\<forall>u. strs u = strs s \<longrightarrow> mp_streams mp legacy_stream_prefix u = (Inr (map ((@) legacy_stream_prefix) days), u)) \<and>
     (\<forall>d \<in> set days. copied_so_far (strs s (legacy_stream_prefix @ d)) (strs s (stream_prefix @ d)))"

definition completed :: "(str \<Rightarrow> json list) \<Rightarrow> str list \<Rightarrow> (str \<Rightarrow> json list) \<Rightarrow> bool" where
  "completed before days after \<longleftrightarrow>
     (\<forall>d. after (stream_prefix @ d) = (if d \<in> set days
        then before (stream_prefix @ d) @
          drop (length (before (stream_prefix @ d))) (before (legacy_stream_prefix @ d))
        else before (stream_prefix @ d))) \<and>
     (\<forall>st. (\<forall>d \<in> set days. st \<noteq> stream_prefix @ d) \<longrightarrow> after st = before st)"

lemma migrate_streams_quiet:
  assumes "quiet mp docs strs" "copyable mp strs s days" "strs u = strs s"
  obtains u' where "migrate_streams mp u = Some (Inr (), u')" "docs u' = docs u" "completed (strs s) days (strs u')"
proof -
  have "\<forall>d \<in> set days. copied_so_far (strs u (legacy_stream_prefix @ d)) (strs u (stream_prefix @ d))"
    using assms(2,3) by (simp add: copyable_def)
  from migrate_each_quiet [OF assms(1) _ this] assms(2) obtain u' where
    "migrate_each mp (map ((@) legacy_stream_prefix) days) u = Some (Inr (), u')" "docs u' = docs u"
    "completed (strs u) days (strs u')"
    unfolding completed_def copyable_def by blast
  moreover have "mp_streams mp legacy_stream_prefix u = (Inr (map ((@) legacy_stream_prefix) days), u)"
    using assms(2,3) by (simp add: copyable_def)
  ultimately show ?thesis using assms(3) by (intro that [of u']) (simp_all add: migrate_streams_def bindR_def once_def)
qed

text \<open>The preferences' step, where it has its marker and where it is still to be done.\<close>

lemma prefs_step_run:
  assumes q: "quiet mp docs strs"
    and "marked (docs s) prefs_step \<or>
      docs s (migrations_namespace, prefs_step) = None \<and> listable key mp docs s pages"
  obtains s' where "run_step mp prefs_step (migrate_preferences key mp) s = Some (Inr (), s')" "strs s' = strs s"
    "marked (docs s') prefs_step"
    "docs s' (migrations_namespace, streams_step) = docs s (migrations_namespace, streams_step)"
    "\<And>i. docs s' (legacy_prefs_namespace, i) = docs s (legacy_prefs_namespace, i)"
    "marked (docs s) prefs_step \<Longrightarrow> s' = s"
    "\<not> marked (docs s) prefs_step \<Longrightarrow> \<forall>i. map_option content (docs s' (prefs_namespace, i)) =
       (if docs s (prefs_namespace, i) = None then target_content key (concat (map fst pages)) i
        else map_option content (docs s (prefs_namespace, i)))"
proof (cases "marked (docs s) prefs_step")
  case True
  show ?thesis by (rule that [OF run_step_marked [OF q True]]) (use True in simp_all)
next
  case False
  with assms(2) have fresh: "docs s (migrations_namespace, prefs_step) = None"
    and list: "listable key mp docs s pages" by simp_all
  have stay: "rows_stay docs s s" by (simp add: rows_stay_def)
  obtain s1 where s1: "migrate_preferences key mp s = Some (Inr (), s1)" "strs s1 = strs s"
    "migrated key (concat (map fst pages)) (docs s) (docs s1)"
    using migrate_pages_quiet [OF q _ stay] list unfolding listable_def migrate_preferences_def by blast
  have "docs s1 (migrations_namespace, prefs_step) = None" using s1(3) fresh by (simp add: migrated_def)
  then obtain s2 where
    s2: "run_step mp prefs_step (migrate_preferences key mp) s = Some (Inr (), s2)" "strs s2 = strs s1"
    "marked (docs s2) prefs_step"
    "\<And>c i. (c, i) \<noteq> (migrations_namespace, prefs_step) \<Longrightarrow> docs s2 (c, i) = docs s1 (c, i)"
    by (rule run_step_fresh [where work = "migrate_preferences key mp", OF q fresh s1(1)]) blast
  have keep: "docs s2 (c, i) = docs s1 (c, i)" if "c \<noteq> migrations_namespace" for c i
    using s2(4) [of c i] that by simp
  show ?thesis
  proof (rule that [OF s2(1)])
    show "strs s2 = strs s" using s2(2) s1(2) by simp
    show "marked (docs s2) prefs_step" by (rule s2(3))
    show "docs s2 (migrations_namespace, streams_step) = docs s (migrations_namespace, streams_step)"
      using s2(4) s1(3) by (simp add: migrated_def)
    show "docs s2 (legacy_prefs_namespace, i) = docs s (legacy_prefs_namespace, i)" for i
      unfolding keep [OF namespaces_apart(5)] using s1(3) unfolding migrated_def by simp
    show "\<forall>i. map_option content (docs s2 (prefs_namespace, i)) =
       (if docs s (prefs_namespace, i) = None then target_content key (concat (map fst pages)) i
        else map_option content (docs s (prefs_namespace, i)))"
      unfolding keep [OF namespaces_apart(3)] using s1(3) unfolding migrated_def by simp
  qed (use False in simp)
qed

lemma prepare_fresh:
  assumes q: "quiet mp docs strs"
    and fresh: "docs s (migrations_namespace, prefs_step) = None" "docs s (migrations_namespace, streams_step) = None"
    and "listable key mp docs s pages" "copyable mp strs s days"
  obtains s' where "prepare_storage key mp s = Some (Inr (), s')"
    "marked (docs s') prefs_step" "marked (docs s') streams_step"
    "\<And>i. map_option content (docs s' (prefs_namespace, i)) =
       (if docs s (prefs_namespace, i) = None then target_content key (concat (map fst pages)) i
        else map_option content (docs s (prefs_namespace, i)))"
    "\<And>i. docs s' (legacy_prefs_namespace, i) = docs s (legacy_prefs_namespace, i)"
    "completed (strs s) days (strs s')"
proof -
  have unmarked: "\<not> marked (docs s) prefs_step" using fresh(1) by (simp add: marked_def)
  obtain s2 where s2: "run_step mp prefs_step (migrate_preferences key mp) s = Some (Inr (), s2)" "strs s2 = strs s"
    "marked (docs s2) prefs_step"
    "docs s2 (migrations_namespace, streams_step) = docs s (migrations_namespace, streams_step)"
    "\<And>i. docs s2 (legacy_prefs_namespace, i) = docs s (legacy_prefs_namespace, i)"
    "\<forall>i. map_option content (docs s2 (prefs_namespace, i)) =
       (if docs s (prefs_namespace, i) = None then target_content key (concat (map fst pages)) i
        else map_option content (docs s (prefs_namespace, i)))"
    using prefs_step_run [OF q disjI2 [OF conjI [OF fresh(1) assms(4)]]] unmarked by metis
  have f2: "docs s2 (migrations_namespace, streams_step) = None" using s2(4) fresh(2) by simp
  from migrate_streams_quiet [OF q assms(5) s2(2)] obtain s3 where
    s3: "migrate_streams mp s2 = Some (Inr (), s3)" "docs s3 = docs s2" "completed (strs s) days (strs s3)" .
  have "docs s3 (migrations_namespace, streams_step) = None" using f2 s3(2) by simp
  then obtain s4 where
    s4: "run_step mp streams_step (migrate_streams mp) s2 = Some (Inr (), s4)" "strs s4 = strs s3"
    "marked (docs s4) streams_step"
    "\<And>c i. (c, i) \<noteq> (migrations_namespace, streams_step) \<Longrightarrow> docs s4 (c, i) = docs s3 (c, i)"
    by (rule run_step_fresh [where work = "migrate_streams mp", OF q f2 s3(1)]) blast
  have keep: "docs s4 (c, i) = docs s2 (c, i)" if "c \<noteq> migrations_namespace" for c i
    using s3(2) s4(4) [of c i] that by simp
  have "marked (docs s4) prefs_step" using s2(3) s3(2) s4(4) unfolding marked_def by simp
  moreover have "prepare_storage key mp s = Some (Inr (), s4)"
    using s2(1) s4(1) by (simp add: prepare_storage_def bindR_def)
  ultimately show ?thesis
    using s3(3) s4(2,3) s2(5,6) keep [OF namespaces_apart(3)] keep [OF namespaces_apart(5)]
    by (intro that [of s4]) auto
qed

text \<open>A marker nobody of this module wrote stops its step.\<close>

lemma run_step_foreign:
  assumes "quiet mp docs strs" "docs s (migrations_namespace, step) = Some r" "\<not> is_marker step (vr_doc r)"
  shows "run_step mp step work s =
    Some (Inl (storage_conflict (''invalid connector migration marker for `'' @ step @ ''`'')), s)"
  using assms(2,3) by (simp add: run_step_def bindR_def once_def migration_done_def eff quietD(1) [OF assms(1)])

section \<open>Beside other openers\<close>

text \<open>
  A store other openers and legacy writers use meanwhile, as one source and its target see it: both
  streams only grow, and others put into the target only what the source holds next.
\<close>

definition grown :: "('s \<Rightarrow> json list) \<Rightarrow> ('s \<Rightarrow> json list) \<Rightarrow> 's \<Rightarrow> 's \<Rightarrow> bool" where
  "grown src tgt s s' \<longleftrightarrow> prefix (src s) (src s') \<and> prefix (tgt s) (tgt s') \<and>
     (prefix (tgt s) (src s) \<longrightarrow> prefix (tgt s') (src s'))"

lemma grown_refl: "grown src tgt s s"
  by (simp add: grown_def)

lemma grown_trans: "grown src tgt s s1 \<Longrightarrow> grown src tgt s1 s2 \<Longrightarrow> grown src tgt s s2"
  unfolding grown_def by (meson prefix_order.trans)

definition sized :: "('s \<Rightarrow> json list) \<Rightarrow> 's \<Rightarrow> 's \<Rightarrow> nat \<Rightarrow> bool" where
  "sized view s s' n \<longleftrightarrow> length (view s) \<le> n \<and> n \<le> length (view s')"

definition windowed :: "('s \<Rightarrow> json list) \<Rightarrow> 's \<Rightarrow> 's \<Rightarrow> nat \<Rightarrow> nat \<Rightarrow> json list \<Rightarrow> bool" where
  "windowed view s s' k n vs \<longleftrightarrow> (\<exists>xs. prefix (view s) xs \<and> prefix xs (view s') \<and> vs = take n (drop k xs))"

definition appended ::
  "('s \<Rightarrow> json list) \<Rightarrow> ('s \<Rightarrow> json list) \<Rightarrow> 's \<Rightarrow> 's \<Rightarrow> nat \<Rightarrow> json list \<Rightarrow> bool" where
  "appended src tgt s s' n vs \<longleftrightarrow> prefix (src s) (src s') \<and>
     (\<exists>mid. prefix (tgt s) mid \<and> length mid = n \<and> prefix (mid @ vs) (tgt s') \<and>
       (prefix (tgt s) (src s) \<longrightarrow> prefix mid (src s')) \<and>
       (prefix (mid @ vs) (src s') \<longrightarrow> prefix (tgt s') (src s')))"

definition shared ::
  "'s migration_port \<Rightarrow> str \<Rightarrow> str \<Rightarrow> ('s \<Rightarrow> json list) \<Rightarrow> ('s \<Rightarrow> json list) \<Rightarrow> bool" where
  "shared mp source target src tgt \<longleftrightarrow>
     (\<forall>s r s'. mp_len mp source s = (r, s') \<longrightarrow>
        grown src tgt s s' \<and> (case r of Inl e \<Rightarrow> True | Inr n \<Rightarrow> sized src s s' n)) \<and>
     (\<forall>s r s'. mp_len mp target s = (r, s') \<longrightarrow>
        grown src tgt s s' \<and> (case r of Inl e \<Rightarrow> True | Inr n \<Rightarrow> sized tgt s s' n)) \<and>
     (\<forall>k n s r s'. mp_read_window mp source k n s = (r, s') \<longrightarrow>
        grown src tgt s s' \<and> (case r of Inl e \<Rightarrow> True | Inr vs \<Rightarrow> windowed src s s' k n vs)) \<and>
     (\<forall>k n s r s'. mp_read_window mp target k n s = (r, s') \<longrightarrow> grown src tgt s s') \<and>
     (\<forall>n vs s r s'. mp_append_if mp target n vs s = (r, s') \<longrightarrow>
        (case r of Inl e \<Rightarrow> grown src tgt s s' | Inr u \<Rightarrow> appended src tgt s s' n vs))"

lemma sharedD:
  assumes "shared mp source target src tgt"
  shows "mp_len mp source s = (r, s') \<Longrightarrow> grown src tgt s s'"
    and "mp_len mp source s = (Inr n, s') \<Longrightarrow> sized src s s' n"
    and "mp_len mp target s = (r, s') \<Longrightarrow> grown src tgt s s'"
    and "mp_len mp target s = (Inr n, s') \<Longrightarrow> sized tgt s s' n"
    and "mp_read_window mp source k m s = (rs, s') \<Longrightarrow> grown src tgt s s'"
    and "mp_read_window mp source k m s = (Inr vs, s') \<Longrightarrow> windowed src s s' k m vs"
    and "mp_read_window mp target k m s = (rs, s') \<Longrightarrow> grown src tgt s s'"
    and "mp_append_if mp target m vs s = (Inl e, s') \<Longrightarrow> grown src tgt s s'"
    and "mp_append_if mp target m vs s = (Inr u, s') \<Longrightarrow> appended src tgt s s' m vs"
  using assms unfolding shared_def by (blast | (metis (no_types, lifting) sum.case))+

lemma verify_copied_grown:
  assumes "shared mp source target src tgt"
  shows "verify_copied mp source target n k s = (r, s') \<Longrightarrow> grown src tgt s s'"
proof (induction "n - k" arbitrary: k s rule: less_induct)
  case less
  show ?case
  proof (cases "n \<le> k")
    case True
    then show ?thesis using less.prems by (simp add: verify_copied.simps grown_refl)
  next
    case False
    let ?l = "min (n - k) page_size"
    obtain r1 s1 where r1: "mp_read_window mp source k ?l s = (r1, s1)" by fastforce
    obtain r2 s2 where r2: "mp_read_window mp target k ?l s1 = (r2, s2)" by fastforce
    have g: "grown src tgt s s1" "grown src tgt s1 s2"
      using sharedD(5,7) [OF assms] r1 r2 by blast+
    have "n - (k + ?l) < n - k" using False by (auto simp: page_size_def)
    note IH = less.hyps [OF this]
    show ?thesis
      using less.prems False r1 r2 g grown_trans [OF g] IH [of s2] grown_trans
      by (subst (asm) verify_copied.simps) (auto simp: Let_def split: sum.splits if_splits)
  qed
qed

lemma append_page_grown:
  assumes "shared mp source target src tgt" "append_page mp target n vs s = (Inr (), s')"
  shows "grown src tgt s s' \<or> appended src tgt s s' n vs"
proof -
  obtain r1 s1 where r1: "mp_append_if mp target n vs s = (r1, s1)" by fastforce
  show ?thesis
  proof (cases r1)
    case (Inr u)
    then show ?thesis using assms(2) r1 sharedD(9) [OF assms(1)] by (auto simp: append_page_def)
  next
    case (Inl e)
    obtain r2 s2 where r2: "mp_read_window mp target n (length vs) s1 = (r2, s2)" by fastforce
    then have "s' = s2"
      using assms(2) r1 Inl by (auto simp: append_page_def split: if_splits sum.splits)
    then show ?thesis using grown_trans [OF sharedD(8) [OF assms(1)] sharedD(7) [OF assms(1)]] r1 r2 Inl by blast
  qed
qed

text \<open>A page read from the source and put behind what the target holds keeps the copy exact.\<close>

lemma page_keeps_copy:
  assumes "windowed src s0 s k n vs" "vs \<noteq> []" "appended src tgt s s' k vs" "prefix (tgt s) (src s)"
  shows "prefix (src s) (src s') \<and> prefix (tgt s) (tgt s') \<and> prefix (tgt s') (src s')"
proof -
  obtain xs where xs: "prefix xs (src s)" "vs = take n (drop k xs)"
    using assms(1) unfolding windowed_def by blast
  obtain mid where mid: "prefix (src s) (src s')" "prefix (tgt s) mid" "length mid = k" "prefix (mid @ vs) (tgt s')"
    "prefix mid (src s')" "prefix (mid @ vs) (src s') \<longrightarrow> prefix (tgt s') (src s')"
    using assms(3,4) unfolding appended_def by blast
  obtain ys where ys: "src s' = xs @ ys" using xs(1) mid(1) by (meson prefixE prefix_order.trans)
  have "k < length xs" using xs(2) assms(2) by (metis drop_all not_le take_Nil)
  obtain zs where "xs @ ys = mid @ zs" using mid(5) unfolding ys by (blast elim: prefixE)
  then have "take k (xs @ ys) = mid" using mid(3) by simp
  then have "mid = take k xs" using \<open>k < length xs\<close> by simp
  then have "mid @ vs = take (k + n) xs" unfolding xs(2) by (simp add: take_add)
  then have "prefix (mid @ vs) (src s')" unfolding ys by (simp add: take_is_prefix prefix_order.trans [OF take_is_prefix])
  then show ?thesis using mid by (meson append_prefixD prefix_order.trans)
qed

text \<open>One round of the copy: a page, then the target's new length.\<close>

definition copy_round ::
  "'s migration_port \<Rightarrow> str \<Rightarrow> str \<Rightarrow> nat \<Rightarrow> ('s, storage_error, nat) op" where
  "copy_round mp source target offset =
     bindO (mp_read_window mp source offset page_size) (\<lambda>vs.
       if vs = [] then failO (source_changed source)
       else bindO (append_page mp target offset vs) (\<lambda>_. mp_len mp target))"

lemma copy_round_shared:
  assumes sh: "shared mp source target src tgt" and "copy_round mp source target k s = (Inr k', s')"
    and copy: "prefix (tgt s) (src s)"
  shows "prefix (src s) (src s') \<and> prefix (tgt s) (tgt s') \<and> prefix (tgt s') (src s') \<and> k' \<le> length (tgt s')"
proof -
  obtain vs s1 where r: "mp_read_window mp source k page_size s = (Inr vs, s1)" "vs \<noteq> []"
    using assms(2) by (auto simp: copy_round_def eff split: prod.splits sum.splits if_splits)
  obtain s2 where a: "append_page mp target k vs s1 = (Inr (), s2)" "mp_len mp target s2 = (Inr k', s')"
    using assms(2) r by (auto simp: copy_round_def eff split: prod.splits sum.splits if_splits)
  have g: "grown src tgt s s1" "windowed src s s1 k page_size vs" "grown src tgt s2 s'" "sized tgt s2 s' k'"
    using sharedD(3-6) [OF sh] r(1) a(2) by blast+
  have c1: "prefix (tgt s1) (src s1)" using g(1) copy unfolding grown_def by blast
  have "prefix (src s1) (src s2) \<and> prefix (tgt s1) (tgt s2) \<and> prefix (tgt s2) (src s2)"
    using append_page_grown [OF sh a(1)]
  proof
    assume "grown src tgt s1 s2"
    then show ?thesis using c1 unfolding grown_def by blast
  next
    assume app: "appended src tgt s1 s2 k vs"
    show ?thesis by (rule page_keeps_copy [where src = src and tgt = tgt, OF g(2) r(2) app c1])
  qed
  then show ?thesis using g c1 unfolding grown_def sized_def by (meson prefix_order.trans)
qed

lemma copy_stream_shared:
  assumes sh: "shared mp source target src tgt"
    and run: "copy_stream mp source target n k s = Some (Inr (), s')"
    and "prefix (tgt s) (src s)" "k \<le> length (tgt s)"
  shows "prefix (src s) (src s') \<and> prefix (tgt s) (tgt s') \<and> prefix (tgt s') (src s') \<and> n \<le> length (tgt s')"
proof -
  define P where "P = (\<lambda>m a b n0 k0 s0 (p :: (storage_error + unit) \<times> 'a).
    m = mp \<longrightarrow> a = source \<longrightarrow> b = target \<longrightarrow> fst p = Inr () \<longrightarrow> prefix (tgt s0) (src s0) \<longrightarrow> k0 \<le> length (tgt s0) \<longrightarrow>
    prefix (src s0) (src (snd p)) \<and> prefix (tgt s0) (tgt (snd p)) \<and> prefix (tgt (snd p)) (src (snd p)) \<and>
    n0 \<le> length (tgt (snd p)))"
  have "P mp source target n k s (Inr (), s')"
  proof (rule copy_stream.raw_induct [where P = P, OF _ run])
    fix f m a b n0 k0 s0 p
    assume IH: "\<And>m a b n k s p. f m a b n k s = Some p \<Longrightarrow> P m a b n k s p"
      and eq: "(if n0 \<le> k0 then Some (Inr (), s0)
        else case bindO (mp_read_window m a k0 page_size) (\<lambda>vs.
               if vs = [] then failO (source_changed a)
               else bindO (append_page m b k0 vs) (\<lambda>_. mp_len m b)) s0 of
             (copied, s1) \<Rightarrow> (case copied of Inl e \<Rightarrow> Some (Inl e, s1) | Inr k1 \<Rightarrow> f m a b n0 k1 s1)) = Some p"
    show "P m a b n0 k0 s0 p"
    proof (cases "n0 \<le> k0")
      case True
      then have "p = (Inr (), s0)" using eq by simp
      then show ?thesis using True unfolding P_def by auto
    next
      case False
      obtain copied s1 where c: "copy_round m a b k0 s0 = (copied, s1)" by fastforce
      have eq': "(case copied of Inl e \<Rightarrow> Some (Inl e, s1) | Inr k1 \<Rightarrow> f m a b n0 k1 s1) = Some p"
        using eq False c unfolding copy_round_def by simp
      show ?thesis
      proof (cases copied)
        case (Inl e)
        then have "p = (Inl e, s1)" using eq' by simp
        then show ?thesis unfolding P_def by simp
      next
        case (Inr k1)
        then have later: "P m a b n0 k1 s1 p" using eq' IH by simp
        show ?thesis
          using later copy_round_shared [OF sh, of k0 s0 k1 s1] c Inr
          unfolding P_def by (meson prefix_order.trans)
      qed
    qed
  qed
  then show ?thesis using assms(3,4) unfolding P_def by simp
qed

lemma bindR_Inr:
  "bindR m f s = Some (Inr b, s') \<longleftrightarrow> (\<exists>a s1. m s = Some (Inr a, s1) \<and> f a s1 = Some (Inr b, s'))"
  by (auto simp: bindR_def split: option.splits prod.splits sum.splits)

lemma bindO_Inr:
  "bindO m f s = (Inr b, s') \<longleftrightarrow> (\<exists>a s1. m s = (Inr a, s1) \<and> f a s1 = (Inr b, s'))"
  by (auto simp: bindO_def split: prod.splits sum.splits)

lemma once_Some: "once m s = Some r \<longleftrightarrow> m s = r"
  by (simp add: once_def)

lemma migrate_stream_shared:
  assumes sh: "shared mp (legacy_stream_prefix @ day) (stream_prefix @ day) src tgt"
    and run: "migrate_stream mp (legacy_stream_prefix @ day) s = Some (Inr (), s')"
    and copy: "prefix (tgt s) (src s)"
  shows "prefix (src s) (src s') \<and> prefix (tgt s) (tgt s') \<and> prefix (tgt s') (src s') \<and>
    length (src s) \<le> length (tgt s')"
proof -
  let ?source = "legacy_stream_prefix @ day" and ?target = "stream_prefix @ day"
  have strip: "strip_prefix legacy_stream_prefix ?source = Some day" by (simp add: strip_prefix_Some)
  obtain n s1 k s2 s3 s4 s5 m where
    r: "mp_len mp ?source s = (Inr n, s1)" "mp_len mp ?target s1 = (Inr k, s2)"
      "verify_copied mp ?source ?target k 0 s2 = (Inr (), s3)"
      "copy_stream mp ?source ?target n k s3 = Some (Inr (), s4)"
      "mp_len mp ?source s4 = (Inr m, s')"
    using run unfolding migrate_stream_def strip
    by (auto simp: Let_def bindR_Inr once_Some bindO_Inr retO_def failO_def split: if_splits)
  have g: "grown src tgt s s1" "grown src tgt s1 s2" "grown src tgt s2 s3" "grown src tgt s4 s'"
    "sized src s s1 n" "sized tgt s1 s2 k"
    using sharedD(1-4) [OF sh] verify_copied_grown [OF sh r(3)] r by blast+
  have s3: "prefix (src s) (src s3)" "prefix (tgt s) (tgt s3)" "prefix (tgt s3) (src s3)"
    using grown_trans [OF grown_trans [OF g(1,2)] g(3)] copy unfolding grown_def by blast+
  have "k \<le> length (tgt s2)" "prefix (tgt s2) (tgt s3)" using g(3,6) unfolding sized_def grown_def by blast+
  then have "k \<le> length (tgt s3)" by (meson le_trans prefix_length_le)
  from copy_stream_shared [OF sh r(4) s3(3) this] have
    s4: "prefix (src s3) (src s4)" "prefix (tgt s3) (tgt s4)" "prefix (tgt s4) (src s4)" "n \<le> length (tgt s4)"
    by blast+
  have s': "prefix (src s4) (src s')" "prefix (tgt s4) (tgt s')" "prefix (tgt s') (src s')"
    using g(4) s4(3) unfolding grown_def by blast+
  have "length (src s) \<le> n" using g(5) unfolding sized_def by blast
  then have "length (src s) \<le> length (tgt s')"
    using s4(4) s'(2) by (meson le_trans prefix_length_le)
  then show ?thesis using s3 s4 s' by (meson prefix_order.trans)
qed

lemma mem_shared:
  assumes "source \<noteq> target"
  shows "shared (mem_port ids names) source target (\<lambda>s. m_strs s source) (\<lambda>s. m_strs s target)"
  unfolding shared_def mem_port_def storage_conflict_def
  using assms by (auto simp: grown_def sized_def windowed_def appended_def)

section \<open>A legacy row that keeps changing\<close>

text \<open>
  A store in which legacy writers change one row while its copy stays untouched: every look at the
  row shows the next of a sequence of states, and the last of them from then on.
\<close>

definition scripted ::
  "'s migration_port \<Rightarrow> str \<Rightarrow> str \<Rightarrow> ('s \<Rightarrow> versioned option list) \<Rightarrow> ('s \<Rightarrow> versioned option) \<Rightarrow> bool" where
  "scripted mp row i looks tgt \<longleftrightarrow>
     (\<forall>s. looks s \<noteq> [] \<longrightarrow> (\<exists>s'. mp_get mp legacy_prefs_namespace row s = (Inr (hd (looks s)), s') \<and>
        looks s' = (if tl (looks s) = [] then looks s else tl (looks s)) \<and> tgt s' = tgt s)) \<and>
     (\<forall>s v body sch expires. map_option vr_version (tgt s) = Some v \<longrightarrow>
        (\<exists>w s'. mp_put mp prefs_namespace i body (Pre_version v) sch expires s = (Inr w, s') \<and>
           looks s' = looks s \<and>
           tgt s' = Some \<lparr>vr_id = i, vr_version = w, vr_doc = body, vr_expires = expires\<rparr>)) \<and>
     (\<forall>s v. map_option vr_version (tgt s) = Some v \<longrightarrow>
        (\<exists>s'. mp_delete mp prefs_namespace i (Pre_version v) s = (Inr (), s') \<and> looks s' = looks s \<and> tgt s' = None))"

lemma scriptedD:
  assumes "scripted mp row i looks tgt"
  shows "looks s \<noteq> [] \<Longrightarrow> \<exists>s'. mp_get mp legacy_prefs_namespace row s = (Inr (hd (looks s)), s') \<and>
      looks s' = (if tl (looks s) = [] then looks s else tl (looks s)) \<and> tgt s' = tgt s"
    and "map_option vr_version (tgt s) = Some v \<Longrightarrow>
      \<exists>w s'. mp_put mp prefs_namespace i body (Pre_version v) sch expires s = (Inr w, s') \<and> looks s' = looks s \<and>
        tgt s' = Some \<lparr>vr_id = i, vr_version = w, vr_doc = body, vr_expires = expires\<rparr>"
    and "map_option vr_version (tgt s) = Some v \<Longrightarrow>
      \<exists>s'. mp_delete mp prefs_namespace i (Pre_version v) s = (Inr (), s') \<and> looks s' = looks s \<and> tgt s' = None"
  using assms unfolding scripted_def by blast+

text \<open>
  The states a row was known in: as it was copied, then at every look, the last of which repeats. A
  row is followed through \<open>n\<close> changes when each of the first \<open>n\<close> looks shows it otherwise than the state
  before, and the next look, at which the migration stops, shows it unchanged or gone.
\<close>

definition known_states :: "versioned \<Rightarrow> versioned option list \<Rightarrow> versioned option list" where
  "known_states source looks = Some source # looks @ [last looks]"

fun moved_on :: "versioned option \<Rightarrow> versioned option \<Rightarrow> bool" where
  "moved_on (Some source) (Some latest) = (\<not> unmoved latest source)"
| "moved_on _ _ = False"

definition changes :: "versioned option list \<Rightarrow> nat \<Rightarrow> bool" where
  "changes known n \<longleftrightarrow> list_all (\<lambda>j. moved_on (known ! j) (known ! Suc j)) [0..<n]"

text \<open>What the target holds then: the state last copied, or nothing when the row is gone.\<close>

definition settled_target :: "versioned option list \<Rightarrow> nat \<Rightarrow> versioned option \<Rightarrow> bool" where
  "settled_target known n target \<longleftrightarrow>
     (case known ! Suc n of
        None \<Rightarrow> target = None
      | Some latest \<Rightarrow>
          (case known ! n of
             None \<Rightarrow> False
           | Some source \<Rightarrow> unmoved latest source \<and> map_option content target = Some (moved source)))"

definition looks_left :: "versioned option list \<Rightarrow> nat \<Rightarrow> versioned option list" where
  "looks_left looks n = (if Suc n < length looks then drop (Suc n) looks else [last looks])"

lemma changes_Suc:
  "changes (x # y # known) (Suc n) \<longleftrightarrow> moved_on x y \<and> changes (y # known) n"
  unfolding changes_def upt_conv_Cons [OF zero_less_Suc] list.pred_inject(2)
    map_Suc_upt [symmetric] list.pred_map by (simp add: o_def)

text \<open>One look: the row is gone, it reads as it was copied, or it changed and is copied again.\<close>

lemma follow_gone_look:
  assumes "scripted mp row i looks tgt" "looks s \<noteq> []" "hd (looks s) = None" "vr_id source = row"
    and "map_option vr_version (tgt s) = Some v"
  shows "\<exists>s'. follow_source mp i v source s = Some (Inr (), s') \<and> tgt s' = None \<and> looks s' = looks_left (looks s) 0"
proof -
  obtain s1 where s1: "mp_get mp legacy_prefs_namespace row s = (Inr None, s1)" "tgt s1 = tgt s"
    "looks s1 = (if tl (looks s) = [] then looks s else tl (looks s))"
    using scriptedD(1) [OF assms(1,2)] assms(3) by auto
  then obtain s2 where "mp_delete mp prefs_namespace i (Pre_version v) s1 = (Inr (), s2)" "tgt s2 = None" "looks s2 = looks s1"
    using scriptedD(3) [OF assms(1), of s1 v] assms(5) by auto
  moreover have "looks s1 = looks_left (looks s) 0"
    using s1(3) assms(2) by (cases "looks s") (auto simp: looks_left_def)
  ultimately show ?thesis using s1(1) assms(4) by (simp add: follow_source.simps drop_target_def)
qed

lemma follow_settled_look:
  assumes "scripted mp row i looks tgt" "looks s \<noteq> []" "hd (looks s) = Some latest" "unmoved latest source"
    and "vr_id source = row"
  shows "\<exists>s'. follow_source mp i v source s = Some (Inr (), s') \<and> tgt s' = tgt s \<and> looks s' = looks_left (looks s) 0"
proof -
  obtain s1 where "mp_get mp legacy_prefs_namespace row s = (Inr (Some latest), s1)" "tgt s1 = tgt s"
    "looks s1 = (if tl (looks s) = [] then looks s else tl (looks s))"
    using scriptedD(1) [OF assms(1,2)] assms(3) by auto
  moreover from this(3) have "looks s1 = looks_left (looks s) 0"
    using assms(2) by (cases "looks s") (auto simp: looks_left_def)
  ultimately show ?thesis using assms(4,5) by (auto simp: follow_source.simps)
qed

lemma follow_changed_look:
  assumes "scripted mp row i looks tgt" "looks s \<noteq> []" "hd (looks s) = Some latest" "\<not> unmoved latest source"
    and "vr_id source = row" "map_option vr_version (tgt s) = Some v"
  shows "\<exists>w s'. follow_source mp i v source s = follow_source mp i w latest s' \<and>
    looks s' = (if tl (looks s) = [] then looks s else tl (looks s)) \<and>
    tgt s' = Some \<lparr>vr_id = i, vr_version = w, vr_doc = preference_body latest, vr_expires = vr_expires latest\<rparr>"
proof -
  obtain s1 where s1: "mp_get mp legacy_prefs_namespace row s = (Inr (Some latest), s1)" "tgt s1 = tgt s"
    "looks s1 = (if tl (looks s) = [] then looks s else tl (looks s))"
    using scriptedD(1) [OF assms(1,2)] assms(3) by auto
  obtain w s2 where s2: "mp_put mp prefs_namespace i (preference_body latest) (Pre_version v)
      (Some prefs_schema_version) (vr_expires latest) s1 = (Inr w, s2)" "looks s2 = looks s1"
    "tgt s2 = Some \<lparr>vr_id = i, vr_version = w, vr_doc = preference_body latest, vr_expires = vr_expires latest\<rparr>"
    using scriptedD(2) [OF assms(1), of s1 v "preference_body latest" "Some prefs_schema_version" "vr_expires latest"]
      s1(2) assms(6) by auto
  have "follow_source mp i v source s = follow_source mp i w latest s2"
    using s1(1) s2(1) assms(4,5) by (subst follow_source.simps) (simp add: put_preference_def)
  then show ?thesis using s1(3) s2(2,3) by (intro exI [of _ w] exI [of _ s2]) simp
qed

lemma follow_scripted:
  assumes sc: "scripted mp row i looks tgt"
    and "looks s = l # ls" "\<forall>x \<in> set (l # ls). \<forall>r. x = Some r \<longrightarrow> vr_id r = row" "vr_id source = row"
    and "tgt s = Some t" "vr_version t = v" "content t = moved source"
  shows "\<exists>s' n. follow_source mp i v source s = Some (Inr (), s') \<and> n \<le> Suc (length ls) \<and>
    changes (known_states source (l # ls)) n \<and> settled_target (known_states source (l # ls)) n (tgt s') \<and>
    looks s' = looks_left (l # ls) n"
  using assms(2-7)
proof (induction ls arbitrary: l s source t v)
  case (Nil l)
  have ver: "map_option vr_version (tgt s) = Some v" and ne: "looks s \<noteq> []" and hd: "hd (looks s) = l"
    using Nil.prems(1,4,5) by simp_all
  consider (gone) "l = None" | (settled) latest where "l = Some latest" "unmoved latest source"
    | (changed) latest where "l = Some latest" "\<not> unmoved latest source" by fastforce
  then show ?case
  proof cases
    case gone
    with follow_gone_look [OF sc ne _ Nil.prems(3) ver] hd Nil.prems(1) show ?thesis
      by (fastforce simp: changes_def settled_target_def known_states_def intro!: exI [of _ 0])
  next
    case settled
    with follow_settled_look [OF sc ne _ settled(2) Nil.prems(3)] hd Nil.prems(1,4,6) show ?thesis
      by (fastforce simp: changes_def settled_target_def known_states_def intro!: exI [of _ 0])
  next
    case changed
    obtain w s2 where step: "follow_source mp i v source s = follow_source mp i w latest s2" "looks s2 = [l]"
      "tgt s2 = Some \<lparr>vr_id = i, vr_version = w, vr_doc = preference_body latest, vr_expires = vr_expires latest\<rparr>"
      using follow_changed_look [OF sc ne _ changed(2) Nil.prems(3) ver] hd changed(1) Nil.prems(1) by auto
    have "vr_id latest = row" using Nil.prems(2) changed(1) by simp
    from follow_settled_look [OF sc _ _ unmoved_refl this, of s2 w] step(2) changed(1) obtain s3 where
      "follow_source mp i w latest s2 = Some (Inr (), s3)" "tgt s3 = tgt s2" "looks s3 = looks_left [l] 0" by auto
    then show ?thesis
      using step changed
      by (intro exI [of _ s3] exI [of _ 1])
        (auto simp: changes_def settled_target_def known_states_def looks_left_def content_def moved_def unmoved_refl)
  qed
next
  case (Cons l' ls)
  have ver: "map_option vr_version (tgt s) = Some v" and ne: "looks s \<noteq> []" and hd: "hd (looks s) = l"
    using Cons.prems(1,4,5) by simp_all
  consider (gone) "l = None" | (settled) latest where "l = Some latest" "unmoved latest source"
    | (changed) latest where "l = Some latest" "\<not> unmoved latest source" by fastforce
  then show ?case
  proof cases
    case gone
    with follow_gone_look [OF sc ne _ Cons.prems(3) ver] hd Cons.prems(1) show ?thesis
      by (fastforce simp: changes_def settled_target_def known_states_def intro!: exI [of _ 0])
  next
    case settled
    with follow_settled_look [OF sc ne _ settled(2) Cons.prems(3)] hd Cons.prems(1,4,6) show ?thesis
      by (fastforce simp: changes_def settled_target_def known_states_def intro!: exI [of _ 0])
  next
    case changed
    obtain w s2 where step: "follow_source mp i v source s = follow_source mp i w latest s2" "looks s2 = l' # ls"
      "tgt s2 = Some \<lparr>vr_id = i, vr_version = w, vr_doc = preference_body latest, vr_expires = vr_expires latest\<rparr>"
      using follow_changed_look [OF sc ne _ changed(2) Cons.prems(3) ver] hd changed(1) Cons.prems(1) by auto
    have "vr_id latest = row" "\<forall>x \<in> set (l' # ls). \<forall>r. x = Some r \<longrightarrow> vr_id r = row"
      using Cons.prems(2) changed(1) by simp_all
    from Cons.IH [OF step(2) this(2,1) step(3)] obtain s' n where
      s': "follow_source mp i w latest s2 = Some (Inr (), s')" "n \<le> Suc (length ls)"
        "changes (known_states latest (l' # ls)) n" "settled_target (known_states latest (l' # ls)) n (tgt s')"
        "looks s' = looks_left (l' # ls) n"
      by (auto simp: content_def moved_def)
    have known: "known_states source (l # l' # ls) = Some source # known_states latest (l' # ls)"
      using changed(1) by (simp add: known_states_def)
    have "changes (known_states source (l # l' # ls)) (Suc n)"
      using s'(3) changed(2) unfolding known known_states_def [of latest] by (simp add: changes_Suc)
    moreover have "settled_target (known_states source (l # l' # ls)) (Suc n) (tgt s')"
      using s'(4) unfolding known settled_target_def nth_Cons_Suc .
    moreover have "looks s' = looks_left (l # l' # ls) (Suc n)" using s'(5) by (simp add: looks_left_def)
    ultimately show ?thesis using step(1) s'(1,2) by (intro exI [of _ s'] exI [of _ "Suc n"]) simp
  qed
qed

section \<open>Properties\<close>

text \<open>
  C15. In a store nobody else writes to, with listings that answer and targets that hold a beginning
  of their sources, the first open ends successfully: every legacy preference is at its target unless
  one was there, unwrapped and with its expiry, every legacy stream is complete at its target,
  nothing legacy is touched, and running it again changes nothing.
\<close>

theorem prepare_completes_once:
  assumes "quiet mp docs strs"
    and "docs s (migrations_namespace, prefs_step) = None" "docs s (migrations_namespace, streams_step) = None"
    and "listable key mp docs s pages" "copyable mp strs s days"
  shows "\<exists>s'. prepare_storage key mp s = Some (Inr (), s') \<and> prepare_storage key mp s' = Some (Inr (), s') \<and>
    (\<forall>i. map_option content (docs s' (prefs_namespace, i)) =
       (if docs s (prefs_namespace, i) = None then target_content key (concat (map fst pages)) i
        else map_option content (docs s (prefs_namespace, i)))) \<and>
    (\<forall>i. docs s' (legacy_prefs_namespace, i) = docs s (legacy_prefs_namespace, i)) \<and>
    completed (strs s) days (strs s')"
proof -
  obtain s' where s': "prepare_storage key mp s = Some (Inr (), s')"
    "marked (docs s') prefs_step" "marked (docs s') streams_step"
    "\<And>i. map_option content (docs s' (prefs_namespace, i)) =
       (if docs s (prefs_namespace, i) = None then target_content key (concat (map fst pages)) i
        else map_option content (docs s (prefs_namespace, i)))"
    "\<And>i. docs s' (legacy_prefs_namespace, i) = docs s (legacy_prefs_namespace, i)"
    "completed (strs s) days (strs s')"
    by (rule prepare_fresh [OF assms]) blast
  have "prepare_storage key mp s' = Some (Inr (), s')"
    using run_step_marked [OF assms(1)] s'(2,3) by (simp add: prepare_storage_def bindR_def)
  with s' show ?thesis by blast
qed

definition gmail_row :: versioned where
  "gmail_row = \<lparr>vr_id = ''gmail'', vr_version = 1, vr_doc = JObj [(''value'', JObj [(''read'', JBool True)])],
     vr_expires = None\<rparr>"

definition before_open :: mem where
  "before_open = \<lparr>m_docs = [(legacy_prefs_namespace, ''gmail'') \<mapsto> gmail_row], m_clock = 5,
     m_strs = (\<lambda>st. if st = ''triggers/2026-01-01'' then [JNull, JBool True] else [])\<rparr>"

abbreviation "one_day \<equiv> mem_port [''gmail''] [''triggers/2026-01-01'']"

lemma before_open_listable:
  "listable Inr one_day m_docs before_open [([gmail_row], None)]"
  by (simp add: listable_def rows_stay_def before_open_def mem_port_def gmail_row_def)

lemma before_open_copyable: "copyable one_day m_strs before_open [''2026-01-01'']"
  by (simp add: copyable_def mem_port_def legacy_stream_prefix_def stream_prefix_def before_open_def
      copied_so_far_def same_values_def)

theorem prepare_completes_once_witness:
  "\<exists>s'. prepare_storage Inr one_day before_open = Some (Inr (), s') \<and>
     map_option content (m_docs s' (prefs_namespace, ''gmail'')) = Some (JObj [(''read'', JBool True)], None) \<and>
     m_strs s' ''connectors.triggers/2026-01-01'' = [JNull, JBool True]"
proof -
  have fresh: "m_docs before_open (migrations_namespace, prefs_step) = None"
    "m_docs before_open (migrations_namespace, streams_step) = None"
    by (simp_all add: before_open_def)
  obtain s' where s': "prepare_storage Inr one_day before_open = Some (Inr (), s')"
    "\<forall>i. map_option content (m_docs s' (prefs_namespace, i)) =
       (if m_docs before_open (prefs_namespace, i) = None then target_content Inr (concat (map fst [([gmail_row], None :: str option)])) i
        else map_option content (m_docs before_open (prefs_namespace, i)))"
    "completed (m_strs before_open) [''2026-01-01''] (m_strs s')"
    using prepare_completes_once [OF mem_quiet fresh before_open_listable before_open_copyable]
    by (elim exE conjE) (rule that)
  have "map_option content (m_docs s' (prefs_namespace, ''gmail'')) = Some (JObj [(''read'', JBool True)], None)"
    using s'(2) by (simp add: before_open_def target_content_def gmail_row_def moved_def preference_body_def
        unwrap_or_def encode_preference_def non_object_field_def)
  moreover have "m_strs s' (stream_prefix @ ''2026-01-01'') = [JNull, JBool True]"
    using s'(3) by (simp add: completed_def before_open_def legacy_stream_prefix_def stream_prefix_def)
  ultimately show ?thesis using s'(1) by (auto simp: stream_prefix_def)
qed

text \<open>
  C16. Beside any number of other openers and legacy writers, a stream migration that succeeds leaves
  the target a beginning of the source, with at least every record the source held when it started:
  each of them once, in its place.
\<close>

theorem openers_copy_once:
  assumes "shared mp (legacy_stream_prefix @ day) (stream_prefix @ day) src tgt"
    and "prefix (tgt s) (src s)"
    and "migrate_stream mp (legacy_stream_prefix @ day) s = Some (Inr (), s')"
  shows "prefix (tgt s') (src s') \<and> take (length (src s)) (tgt s') = src s \<and> prefix (tgt s) (tgt s')"
proof -
  have m: "prefix (src s) (src s')" "prefix (tgt s) (tgt s')" "prefix (tgt s') (src s')"
    "length (src s) \<le> length (tgt s')"
    using migrate_stream_shared [OF assms(1,3,2)] by blast+
  then have "prefix (src s) (tgt s')" by (metis prefix_length_prefix)
  then show ?thesis using m by (auto simp: prefix_def)
qed

theorem openers_copy_once_witness:
  "\<exists>s'. migrate_stream one_day ''triggers/2026-01-01'' before_open = Some (Inr (), s') \<and>
     take 2 (m_strs s' ''connectors.triggers/2026-01-01'') = [JNull, JBool True]"
proof -
  have sh: "shared one_day (legacy_stream_prefix @ ''2026-01-01'') (stream_prefix @ ''2026-01-01'')
      (\<lambda>s. m_strs s (legacy_stream_prefix @ ''2026-01-01'')) (\<lambda>s. m_strs s (stream_prefix @ ''2026-01-01''))"
    by (rule mem_shared) (simp add: legacy_stream_prefix_def stream_prefix_def)
  have names: "legacy_stream_prefix @ ''2026-01-01'' = ''triggers/2026-01-01''"
    "stream_prefix @ ''2026-01-01'' = ''connectors.triggers/2026-01-01''"
    by (simp_all add: legacy_stream_prefix_def stream_prefix_def)
  obtain s' where run: "migrate_stream one_day (legacy_stream_prefix @ ''2026-01-01'') before_open = Some (Inr (), s')"
    using migrate_stream_quiet [OF mem_quiet, of before_open "''2026-01-01''" "[''gmail'']" "[''triggers/2026-01-01'']"]
    unfolding names by (auto simp: copied_so_far_def same_values_def before_open_def split: if_splits)
  have "prefix (m_strs before_open (stream_prefix @ ''2026-01-01'')) (m_strs before_open (legacy_stream_prefix @ ''2026-01-01''))"
    by (simp add: names before_open_def)
  from openers_copy_once [OF sh this run] run show ?thesis unfolding names by (auto simp: before_open_def numeral_2_eq_2)
qed

text \<open>
  C20. However often a legacy writer changes or deletes a row while it is migrated, the migration
  follows it: it copies the row again at every look that finds it changed, and ends at the first look
  that finds it as last copied, when the target holds that state, or gone, when the target is
  removed. It has then looked once for every change and once more, so a row that settles ends it.
\<close>

theorem legacy_row_followed:
  assumes "scripted mp (vr_id source) i looks tgt" "looks s \<noteq> []"
    and "list_all (\<lambda>x. case x of None \<Rightarrow> True | Some r \<Rightarrow> vr_id r = vr_id source) (looks s)"
    and "tgt s = Some t" "content t = moved source"
  shows "\<exists>s' n. follow_source mp i (vr_version t) source s = Some (Inr (), s') \<and> n \<le> length (looks s) \<and>
    changes (known_states source (looks s)) n \<and> settled_target (known_states source (looks s)) n (tgt s') \<and>
    looks s' = looks_left (looks s) n"
proof -
  obtain l ls where l: "looks s = l # ls" using assms(2) by (cases "looks s") auto
  have "\<forall>x \<in> set (l # ls). \<forall>r. x = Some r \<longrightarrow> vr_id r = vr_id source"
  proof (intro ballI allI impI)
    fix x r assume "x \<in> set (l # ls)" "x = Some r"
    then show "vr_id r = vr_id source" using bspec [OF assms(3) [unfolded list_all_iff l], of x] by simp
  qed
  from follow_scripted [OF assms(1) l this refl assms(4) refl assms(5)] show ?thesis unfolding l by simp
qed

definition script_port :: "(versioned option list \<times> versioned option) migration_port" where
  "script_port = \<lparr>mp_get = (\<lambda>c i (looks, t). (Inr (hd looks), (if tl looks = [] then looks else tl looks, t))),
     mp_put = (\<lambda>c i body pre sch expires (looks, t).
       (Inr 9, (looks, Some \<lparr>vr_id = i, vr_version = 9, vr_doc = body, vr_expires = expires\<rparr>))),
     mp_delete = (\<lambda>c i pre (looks, t). (Inr (), (looks, None))),
     mp_query = (\<lambda>c n cursor s. (Inr ([], None), s)), mp_streams = (\<lambda>p s. (Inr [], s)),
     mp_len = (\<lambda>st s. (Inr 0, s)), mp_read_window = (\<lambda>st i n s. (Inr [], s)),
     mp_append_if = (\<lambda>st n vs s. (Inr (), s))\<rparr>"

definition expiring_row :: versioned where
  "expiring_row = gmail_row\<lparr>vr_expires := Some 3\<rparr>"

definition first_copy :: versioned where
  "first_copy = \<lparr>vr_id = ''gmail'', vr_version = 1, vr_doc = preference_body gmail_row, vr_expires = None\<rparr>"

theorem legacy_row_followed_witness:
  "\<exists>looks. follow_source script_port ''gmail'' 1 gmail_row ([Some expiring_row, None], Some first_copy) =
    Some (Inr (), (looks, None))"
proof -
  let ?s = "([Some expiring_row, None], Some first_copy)"
  have sc: "scripted script_port (vr_id gmail_row) ''gmail'' fst snd"
    by (simp add: scripted_def script_port_def)
  have seen: "snd ?s = Some first_copy" "content first_copy = moved gmail_row" "fst ?s \<noteq> []"
    "list_all (\<lambda>x. case x of None \<Rightarrow> True | Some r \<Rightarrow> vr_id r = vr_id gmail_row) (fst ?s)"
    by (simp_all add: content_def moved_def gmail_row_def first_copy_def expiring_row_def)
  have v: "vr_version first_copy = 1" by (simp add: first_copy_def)
  obtain s' n where s': "follow_source script_port ''gmail'' 1 gmail_row ?s = Some (Inr (), s')"
    "n \<le> length (fst ?s)" "settled_target (known_states gmail_row (fst ?s)) n (snd s')"
    using legacy_row_followed [OF sc seen(3,4,1,2), unfolded v] by blast
  have "n = 0 \<or> n = 1 \<or> n = 2" using s'(2) by (simp add: le_Suc_eq) arith
  moreover have "\<not> unmoved expiring_row gmail_row" by (simp add: unmoved_def expiring_row_def gmail_row_def)
  ultimately have "snd s' = None"
    using s'(3) by (auto simp: settled_target_def known_states_def numeral_2_eq_2)
  then show ?thesis using s'(1) by (cases s') simp
qed

text \<open>
  C32. A legacy row stored under the encoded id of a name the encoding changes is migrated to an id
  nobody reads: its id is encoded once more, and the document the store looks the name up under
  stays absent.
\<close>

theorem encoded_row_lost:
  assumes "quiet mp docs strs" "short_key name" "short_key (escape_part True name)"
    and "escape_part True name \<noteq> name"
    and "docs s (legacy_prefs_namespace, escape_part True name) = Some row" "vr_id row = escape_part True name"
    and "docs s (prefs_namespace, escape_part True name) = None"
  shows "\<exists>s'. migrate_page (migrated_key digest Inr key_error) mp [row] s = Some (Inr (), s') \<and>
    document_id digest Inr name = Inr (escape_part True name) \<and>
    docs s' (prefs_namespace, escape_part True name) = None \<and>
    docs s' (prefs_namespace, escape_part True (escape_part True name)) \<noteq> None"
proof -
  let ?key = "migrated_key digest Inr key_error"
  have key: "?key (vr_id row) = Inr (escape_part True (escape_part True name))"
    using assms(3,6) by (simp add: migrated_key_def legacy_key_short)
  have ne: "escape_part True (escape_part True name) \<noteq> escape_part True name"
    using assms(4) escape_part_inj by blast
  have "\<forall>r \<in> set [row]. docs s (legacy_prefs_namespace, vr_id r) = Some r \<and> (\<exists>i. ?key (vr_id r) = Inr i)"
    using assms(5,6) key by simp
  from migrate_page_quiet [OF assms(1) this] obtain s' where
    s': "migrate_page ?key mp [row] s = Some (Inr (), s')" "migrated ?key [row] (docs s) (docs s')" by blast
  have "document_id digest Inr name = Inr (escape_part True name)"
    using assms(2) by (simp add: document_id_def legacy_key_short)
  moreover have "docs s' (prefs_namespace, escape_part True name) = None"
    using migrated_none [OF s'(2), of "escape_part True name"] assms(7) key ne by simp
  moreover have "docs s' (prefs_namespace, escape_part True (escape_part True name)) \<noteq> None"
    using migrated_none [OF s'(2), of "escape_part True (escape_part True name)"] key by simp
  ultimately show ?thesis using s'(1) by blast
qed

definition slash_row :: versioned where
  "slash_row = \<lparr>vr_id = ''a%2Fb'', vr_version = 1, vr_doc = JObj [], vr_expires = None\<rparr>"

theorem encoded_row_lost_witness:
  "\<exists>s'. migrate_page (migrated_key id Inr storage_invalid) one_day [slash_row]
      (before_open\<lparr>m_docs := [(legacy_prefs_namespace, ''a%2Fb'') \<mapsto> slash_row]\<rparr>) = Some (Inr (), s') \<and>
     m_docs s' (prefs_namespace, ''a%2Fb'') = None"
proof -
  have e: "escape_part True ''a/b'' = ''a%2Fb''" by simp
  show ?thesis
    using encoded_row_lost [OF mem_quiet, of "''a/b''" "before_open\<lparr>m_docs := [(legacy_prefs_namespace, ''a%2Fb'') \<mapsto> slash_row]\<rparr>"
        slash_row id storage_invalid "[''gmail'']" "[''triggers/2026-01-01'']"]
    unfolding e by (auto simp: short_key_def slash_row_def)
qed

text \<open>
  C31. A marker some other owner wrote is a refusal, not a reason to migrate, for either step: the open
  fails with a conflict that names the step, the marker stays, no stream is written, no legacy row
  is touched and no handle is kept, so that the next open looks again. Where the preferences' marker is the
  foreign one, or they are done already, nothing is written at all; where only the streams' marker is
  foreign, the preferences have been migrated and marked before it is found.
\<close>

theorem foreign_marker_refused:
  assumes "quiet mp docs strs" "connect s0 = (Inr mp, s)" "List.member [prefs_step, streams_step] step"
    and "docs s (migrations_namespace, step) = Some r" "\<not> is_marker step (vr_doc r)"
    and "step = prefs_step \<or> marked (docs s) prefs_step \<or>
      docs s (migrations_namespace, prefs_step) = None \<and> listable key mp docs s pages"
  shows "\<exists>s'. scoped render key (Some connect) (s0, None) =
      Some (Inl \<lparr>se_kind = Conflict_kind, se_message = ''storage migration failed: '' @
        render (storage_conflict (''invalid connector migration marker for `'' @ step @ ''`''))\<rparr>, (s', None)) \<and>
    docs s' (migrations_namespace, step) = Some r \<and> strs s' = strs s \<and>
    (\<forall>i. docs s' (legacy_prefs_namespace, i) = docs s (legacy_prefs_namespace, i)) \<and>
    (if step = prefs_step \<or> marked (docs s) prefs_step then s' = s
     else marked (docs s') prefs_step \<and>
       (\<forall>i. map_option content (docs s' (prefs_namespace, i)) =
          (if docs s (prefs_namespace, i) = None then target_content key (concat (map fst pages)) i
           else map_option content (docs s (prefs_namespace, i)))))"
proof -
  let ?e = "storage_conflict (''invalid connector migration marker for `'' @ step @ ''`'')"
  have refused: "scoped render key (Some connect) (s0, None) =
      Some (Inl \<lparr>se_kind = Conflict_kind, se_message = ''storage migration failed: '' @ render ?e\<rparr>, (s', None))"
    if "prepare_storage key mp s = Some (Inl ?e, s')" for s'
    using assms(2) that by (simp add: scoped_def storage_conflict_def)
  show ?thesis
  proof (cases "step = prefs_step")
    case True
    have "prepare_storage key mp s = Some (Inl ?e, s)"
      using run_step_foreign [OF assms(1,4,5)] by (simp add: prepare_storage_def bindR_def True)
    from refused [OF this] show ?thesis using assms(4) True by auto
  next
    case False
    then have step: "step = streams_step" using assms(3) by simp
    from False assms(6) have "marked (docs s) prefs_step \<or>
        docs s (migrations_namespace, prefs_step) = None \<and> listable key mp docs s pages" by simp
    then obtain s2 where s2: "run_step mp prefs_step (migrate_preferences key mp) s = Some (Inr (), s2)"
      "strs s2 = strs s" "marked (docs s2) prefs_step"
      "docs s2 (migrations_namespace, streams_step) = docs s (migrations_namespace, streams_step)"
      "\<And>i. docs s2 (legacy_prefs_namespace, i) = docs s (legacy_prefs_namespace, i)"
      "marked (docs s) prefs_step \<Longrightarrow> s2 = s"
      "\<not> marked (docs s) prefs_step \<Longrightarrow> \<forall>i. map_option content (docs s2 (prefs_namespace, i)) =
       (if docs s (prefs_namespace, i) = None then target_content key (concat (map fst pages)) i
        else map_option content (docs s (prefs_namespace, i)))"
      by (rule prefs_step_run [OF assms(1)]) blast
    have m: "docs s2 (migrations_namespace, step) = Some r" using s2(4) assms(4) step by simp
    have "prepare_storage key mp s = Some (Inl ?e, s2)"
      using s2(1) run_step_foreign [OF assms(1) m assms(5)] by (simp add: prepare_storage_def bindR_def step)
    from refused [OF this] show ?thesis using m s2 False by (intro exI [of _ s2]) auto
  qed
qed

definition half_foreign :: mem where
  "half_foreign = before_open\<lparr>m_docs := (m_docs before_open)((migrations_namespace, streams_step) \<mapsto> gmail_row)\<rparr>"

theorem foreign_marker_refused_witness:
  "\<exists>s'. scoped se_message Inr (Some (\<lambda>s. (Inr one_day, s))) (half_foreign, None) =
      Some (Inl \<lparr>se_kind = Conflict_kind, se_message =
        ''storage migration failed: invalid connector migration marker for `triggers-v1-rename`''\<rparr>, (s', None)) \<and>
    m_docs s' (prefs_namespace, ''gmail'') \<noteq> None \<and> m_strs s' = m_strs half_foreign"
proof -
  have row: "m_docs half_foreign (migrations_namespace, streams_step) = Some gmail_row"
    by (simp add: half_foreign_def)
  have foreign: "\<not> is_marker streams_step (vr_doc gmail_row)" by (simp add: is_marker_def gmail_row_def)
  have fresh: "m_docs half_foreign (migrations_namespace, prefs_step) = None"
    "m_docs half_foreign (prefs_namespace, ''gmail'') = None"
    by (simp_all add: half_foreign_def before_open_def)
  then have unmarked: "\<not> marked (m_docs half_foreign) prefs_step" by (simp add: marked_def)
  have "listable Inr one_day m_docs half_foreign [([gmail_row], None)]"
    by (simp add: listable_def rows_stay_def half_foreign_def before_open_def mem_port_def gmail_row_def)
  with fresh(1) have ready: "streams_step = prefs_step \<or> marked (m_docs half_foreign) prefs_step \<or>
      m_docs half_foreign (migrations_namespace, prefs_step) = None \<and> listable Inr one_day m_docs half_foreign [([gmail_row], None)]"
    by blast
  have step: "List.member [prefs_step, streams_step] streams_step" by simp
  from foreign_marker_refused [where ?s0.0 = half_foreign and connect = "\<lambda>s. (Inr one_day, s)" and render = se_message,
      OF mem_quiet refl step row foreign ready]
  obtain s' where s': "scoped se_message Inr (Some (\<lambda>s. (Inr one_day, s))) (half_foreign, None) =
      Some (Inl \<lparr>se_kind = Conflict_kind, se_message = ''storage migration failed: '' @
        se_message (storage_conflict (''invalid connector migration marker for `'' @ streams_step @ ''`''))\<rparr>, (s', None))"
    "m_strs s' = m_strs half_foreign"
    "if streams_step = prefs_step \<or> marked (m_docs half_foreign) prefs_step then s' = half_foreign
     else marked (m_docs s') prefs_step \<and>
       (\<forall>i. map_option content (m_docs s' (prefs_namespace, i)) =
          (if m_docs half_foreign (prefs_namespace, i) = None
           then target_content Inr (concat (map fst [([gmail_row], None :: str option)])) i
           else map_option content (m_docs half_foreign (prefs_namespace, i))))"
    by (elim exE conjE)
  have "map_option content (m_docs s' (prefs_namespace, ''gmail'')) \<noteq> None"
    using s'(3) unmarked fresh(2) by (simp add: target_content_def gmail_row_def)
  then show ?thesis using s'(1,2) by (auto simp: storage_conflict_def streams_step_def)
qed

end
