(* ===== verification/Trigger_History.thy ===== *)
theory Trigger_History
  imports Migration_Laws
begin

text \<open>
  The trigger history when deliveries are stored more than once, as they are after a migration, which
  copies the legacy streams and keeps them: the read of \<open>triggers/archive.rs\<close> against the streams
  \<open>state/migration.rs\<close> leaves behind.
\<close>

section \<open>Records whose keys may be known\<close>

fun new_entries :: "'s archive_env \<Rightarrow> json list \<Rightarrow> str list \<Rightarrow> history_entry list" where
  "new_entries ae [] seen = []"
| "new_entries ae (v # vs) seen =
     (case entry_from_value v of
        None \<Rightarrow> new_entries ae vs seen
      | Some e \<Rightarrow>
          if List.member seen (archive_entry_key ae e) then new_entries ae vs seen
          else e # new_entries ae vs (archive_entry_key ae e # seen))"

lemma take_records_new:
  "\<exists>seen'. take_records ae vs got (entries, seen) =
      (got + length (new_entries ae vs seen), (entries @ new_entries ae vs seen, seen')) \<and>
    set seen' = set seen \<union> set (map (archive_entry_key ae) (new_entries ae vs seen))"
proof (induction vs arbitrary: got entries seen)
  case (Cons v vs)
  show ?case
  proof (cases "entry_from_value v")
    case None
    with Cons show ?thesis by simp
  next
    case (Some e)
    with Cons [of got entries seen] Cons [of "Suc got" "entries @ [e]" "archive_entry_key ae e # seen"]
    show ?thesis by (auto simp: Let_def)
  qed
qed simp

lemma new_entries_valid: "set (new_entries ae vs seen) \<subseteq> set (valid_entries vs)"
  by (induction vs arbitrary: seen) (auto simp: valid_entries_def split: option.splits)

lemma new_entries_apart:
  "archive_entry_key ae ` set (new_entries ae vs seen) \<inter> set seen = {} \<and>
   distinct (map (archive_entry_key ae) (new_entries ae vs seen))"
  by (induction vs arbitrary: seen) (force split: option.splits)+

lemma new_entries_complete:
  "x \<in> set (valid_entries vs) \<Longrightarrow>
     archive_entry_key ae x \<in> set seen \<union> archive_entry_key ae ` set (new_entries ae vs seen)"
proof (induction vs arbitrary: seen)
  case (Cons v vs)
  show ?case
  proof (cases "entry_from_value v")
    case None
    with Cons show ?thesis by (simp add: valid_entries_def)
  next
    case (Some e)
    with Cons.prems have "x = e \<or> x \<in> set (valid_entries vs)" by (simp add: valid_entries_def)
    then show ?thesis
      using Some Cons.IH [of seen] Cons.IH [of "archive_entry_key ae e # seen"] by auto
  qed
qed (simp add: valid_entries_def)

section \<open>What the loop over the streams keeps\<close>

text \<open>
  After some streams: the collected entries are theirs, each under a key of its own, the known keys
  are those of the collected entries, and an entry left out has as many no older ones collected as
  are wanted.
\<close>

definition collected_ok :: "'s archive_env \<Rightarrow> nat \<Rightarrow> history_entry set \<Rightarrow> collected \<Rightarrow> bool" where
  "collected_ok ae m all acc \<longleftrightarrow>
     set (fst acc) \<subseteq> all \<and> distinct (map (archive_entry_key ae) (fst acc)) \<and>
     set (snd acc) = archive_entry_key ae ` set (fst acc) \<and>
     (\<forall>x \<in> all - set (fst acc).
        m \<le> length (filter (\<lambda>z. he_received_at_ms x \<le> he_received_at_ms z) (fst acc)))"

text \<open>
  One stream read from its end down to position \<open>k\<close>: an entry it does not leave in the collection
  is older than every entry collected from the stream.
\<close>

lemma left_out_older:
  assumes "inj_on (archive_entry_key ae) (all \<union> set (valid_entries c))" "newest_first (rev (valid_entries c))"
    and "set es \<subseteq> all" "set seen = archive_entry_key ae ` set es"
    and "x \<in> set (valid_entries c)" "x \<notin> set (es @ new_entries ae (rev (drop k c)) seen)"
  shows "0 < k \<and> (\<forall>z \<in> set (new_entries ae (rev (drop k c)) seen). he_received_at_ms x \<le> he_received_at_ms z)"
proof -
  let ?N = "new_entries ae (rev (drop k c)) seen" and ?K = "archive_entry_key ae"
  have all: "rev (valid_entries c) = valid_entries (rev (drop k c)) @ rev (valid_entries (take k c))"
    by (metis append_take_drop_id rev_append valid_append valid_rev)
  have own: "set (valid_entries c) = set (valid_entries (rev (drop k c))) \<union> set (valid_entries (take k c))"
    using arg_cong [OF all, of set] by auto
  have N: "set ?N \<subseteq> set (valid_entries (rev (drop k c)))" by (rule new_entries_valid)
  have "x \<notin> set (valid_entries (rev (drop k c)))"
  proof
    assume "x \<in> set (valid_entries (rev (drop k c)))"
    then have "?K x \<in> ?K ` (set es \<union> set ?N)"
      using new_entries_complete [of x "rev (drop k c)" ae seen] assms(4) by auto
    moreover have "set es \<union> set ?N \<subseteq> all \<union> set (valid_entries c)" using assms(3) N own by blast
    ultimately have "x \<in> set es \<union> set ?N" using inj_on_image_mem_iff [OF assms(1)] assms(5) by blast
    then show False using assms(6) by simp
  qed
  then have x: "x \<in> set (rev (valid_entries (take k c)))" using assms(5) own by simp
  then have "\<forall>z \<in> set ?N. he_received_at_ms x \<le> he_received_at_ms z"
    using assms(2) N unfolding all newest_first_def sorted_wrt_append by blast
  moreover have "0 < k" using x by (cases k) (auto simp: valid_entries_def)
  ultimately show ?thesis by blast
qed

lemma window_loop_collects:
  assumes "serves ae sp days legacy contents" "collected_ok ae m all acc"
    and "newest_first (rev (valid_entries (contents stream)))"
    and "inj_on (archive_entry_key ae) (all \<union> set (valid_entries (contents stream)))"
  shows "\<exists>acc'. window_loop ae sp m stream (length (contents stream)) 0 acc s = (Inr acc', s) \<and>
    collected_ok ae m (all \<union> set (valid_entries (contents stream))) acc'"
proof -
  let ?c = "contents stream" and ?K = "archive_entry_key ae"
  obtain es seen where acc: "acc = (es, seen)" by (cases acc)
  obtain k got' acc' where k: "window_loop ae sp m stream (length ?c) 0 acc s = (Inr acc', s)"
    "take_records ae (rev (drop k ?c)) 0 acc = (got', acc')" "k = 0 \<or> got' = m"
    using window_loop_reads [OF assms(1), of "length ?c" stream 0 m acc s] by auto
  let ?N = "new_entries ae (rev (drop k ?c)) seen"
  obtain seen' where t: "got' = length ?N" "acc' = (es @ ?N, seen')" "set seen' = set seen \<union> ?K ` set ?N"
    using take_records_new [of ae "rev (drop k ?c)" 0 es seen] k(2) by (auto simp: acc)
  have old: "set es \<subseteq> all" "distinct (map ?K es)" "set seen = ?K ` set es"
    "\<And>x. x \<in> all - set es \<Longrightarrow> m \<le> length (filter (\<lambda>z. he_received_at_ms x \<le> he_received_at_ms z) es)"
    using assms(2) by (auto simp: collected_ok_def acc)
  have N: "set ?N \<subseteq> set (valid_entries ?c)"
    using new_entries_valid [of ae "rev (drop k ?c)" seen] set_drop_subset [of k ?c]
    by (fastforce simp: valid_entries_def set_filter_map)
  have left: "m \<le> length (filter (\<lambda>z. he_received_at_ms x \<le> he_received_at_ms z) (es @ ?N))"
    if x: "x \<in> (all \<union> set (valid_entries ?c)) - set (es @ ?N)" for x
  proof (cases "x \<in> all")
    case True
    then show ?thesis using old(4) [of x] x by simp
  next
    case False
    then have "x \<in> set (valid_entries ?c)" "x \<notin> set (es @ ?N)" using x by blast+
    from left_out_older [OF assms(4,3) old(1,3) this]
    have "length ?N = m" "filter (\<lambda>z. he_received_at_ms x \<le> he_received_at_ms z) ?N = ?N"
      using k(3) t(1) by (auto simp: filter_id_conv)
    then show ?thesis by simp
  qed
  have "collected_ok ae m (all \<union> set (valid_entries ?c)) acc'"
    using new_entries_apart [of ae "rev (drop k ?c)" seen] old N left
    unfolding collected_ok_def t(2) by (auto simp: t(3))
  then show ?thesis using k(1) by blast
qed

lemma stream_loop_collects:
  assumes "serves ae sp days legacy contents"
    and "collected_ok ae m all acc"
    and "list_all (\<lambda>st. newest_first (rev (valid_entries (contents st)))) streams"
    and "inj_on (archive_entry_key ae) (all \<union> (\<Union>st \<in> set streams. set (valid_entries (contents st))))"
  shows "\<exists>acc'. stream_loop ae sp m streams acc s = (Inr acc', s) \<and>
    collected_ok ae m (all \<union> (\<Union>st \<in> set streams. set (valid_entries (contents st)))) acc'"
  using assms(2-4)
proof (induction streams arbitrary: acc all)
  case (Cons st rest)
  have inj: "inj_on (archive_entry_key ae) (all \<union> set (valid_entries (contents st)))"
    using Cons.prems(3) by (rule inj_on_subset) auto
  obtain acc1 where w: "window_loop ae sp m st (length (contents st)) 0 acc s = (Inr acc1, s)"
    "collected_ok ae m (all \<union> set (valid_entries (contents st))) acc1"
    using window_loop_collects [OF assms(1) Cons.prems(1) _ inj, of s] Cons.prems(2) by auto
  have "inj_on (archive_entry_key ae) ((all \<union> set (valid_entries (contents st))) \<union>
      (\<Union>st \<in> set rest. set (valid_entries (contents st))))"
    using Cons.prems(3) by (simp add: Un_assoc)
  from Cons.IH [OF w(2) _ this] Cons.prems(2) obtain acc' where
    "stream_loop ae sp m rest acc1 s = (Inr acc', s)"
    "collected_ok ae m ((all \<union> set (valid_entries (contents st))) \<union>
       (\<Union>st \<in> set rest. set (valid_entries (contents st)))) acc'" by auto
  then show ?case using w(1) assms(1) by (simp add: serves_def bindO_def map_errO_def Un_assoc)
qed (simp add: retO_def)

section \<open>The history as the newest of a set\<close>

definition newest_of :: "nat \<Rightarrow> history_entry set \<Rightarrow> history_entry list \<Rightarrow> bool" where
  "newest_of m all es \<longleftrightarrow>
     newest_first es \<and> distinct es \<and> set es \<subseteq> all \<and> length es = min m (card all) \<and>
     (\<forall>x \<in> all - set es. \<forall>y \<in> set es. he_received_at_ms x \<le> he_received_at_ms y)"

lemma collected_newest:
  assumes "arranges arrange" "collected_ok ae m all (es, seen)" "finite all"
  shows "newest_of m all (take m (arrange es))"
proof -
  have A: "mset (arrange es) = mset es" "newest_first (arrange es)"
    using assms(1) unfolding arranges_def by blast+
  have ok: "set es \<subseteq> all" "distinct es"
    "\<And>x. x \<in> all - set es \<Longrightarrow> m \<le> length (filter (\<lambda>z. he_received_at_ms x \<le> he_received_at_ms z) es)"
    using assms(2) by (auto simp: collected_ok_def distinct_map)
  have sets: "set (arrange es) = set es" "length (arrange es) = length es" "distinct (arrange es)"
    using A(1) ok(2) by (metis set_mset_mset, metis size_mset, metis mset_eq_imp_distinct_iff)
  have many: "length (filter P es) \<le> length es" for P :: "history_entry \<Rightarrow> bool" by simp
  have "min m (length es) = min m (card all)"
  proof (cases "all = set es")
    case True
    then show ?thesis using ok(2) by (simp add: distinct_card)
  next
    case False
    then obtain x where "x \<in> all - set es" using ok(1) by blast
    then have "m \<le> length es" using ok(3) many le_trans by blast
    moreover have "length es \<le> card all" using card_mono [OF assms(3) ok(1)] ok(2) by (simp add: distinct_card)
    ultimately show ?thesis by simp
  qed
  moreover have "he_received_at_ms x \<le> he_received_at_ms y"
    if x: "x \<in> all - set (take m (arrange es))" and y: "y \<in> set (take m (arrange es))" for x y
  proof (cases "x \<in> set es")
    case True
    then have "x \<in> set (drop m (arrange es))"
      using x sets(1) by (metis DiffD2 Un_iff append_take_drop_id set_append)
    then show ?thesis using newest_split [OF A(2)] y by blast
  next
    case False
    then have "m \<le> size (filter_mset (\<lambda>z. he_received_at_ms x \<le> he_received_at_ms z) (mset (arrange es)))"
      using ok(3) [of x] x unfolding A(1) by (metis Diff_iff mset_filter size_mset)
    then show ?thesis by (rule newest_many [OF A(2) _ y])
  qed
  moreover have "set (take m (arrange es)) \<subseteq> all" using ok(1) sets(1) set_take_subset by fastforce
  ultimately show ?thesis
    unfolding newest_of_def using newest_take [OF A(2)] sets(2,3) by auto
qed

definition deliveries :: "(str \<Rightarrow> json list) \<Rightarrow> str list \<Rightarrow> history_entry set" where
  "deliveries contents streams = (\<Union>st \<in> set streams. set (valid_entries (contents st)))"

lemma list_recent_newest:
  assumes "serves ae sp days legacy contents" "arranges (ae_arrange ae)"
    and "list_all (\<lambda>st. newest_first (rev (valid_entries (contents st)))) (days @ legacy)"
    and "inj_on (archive_entry_key ae) (deliveries contents (days @ legacy))"
  shows "\<exists>r. list_recent ae sp limit s = (Inr r, s) \<and>
    newest_of (history_limit limit) (deliveries contents (days @ legacy)) (hr_entries r)"
proof -
  let ?streams = "rev (sort (days @ legacy))" and ?m = "history_limit limit"
  have new: "list_all (\<lambda>st. newest_first (rev (valid_entries (contents st)))) ?streams"
    using assms(3) by (auto simp: list_all_iff)
  have inj: "inj_on (archive_entry_key ae) ({} \<union> (\<Union>st \<in> set ?streams. set (valid_entries (contents st))))"
    using assms(4) by (simp add: deliveries_def)
  have start: "collected_ok ae ?m {} ([], [])" by (simp add: collected_ok_def)
  obtain es seen where loop: "stream_loop ae sp ?m ?streams ([], []) s = (Inr (es, seen), s)"
    "collected_ok ae ?m (deliveries contents (days @ legacy)) (es, seen)"
    using stream_loop_collects [OF assms(1) start new inj, of s] by (auto simp: deliveries_def)
  have "list_recent ae sp limit s =
      (Inr \<lparr>hr_archive_dir = archive_dir, hr_current_day_file = current_day_file ae s,
         hr_entries = take ?m (ae_arrange ae es)\<rparr>, s)"
    using assms(1) loop(1) by (simp add: list_recent_def serves_def bindO_def map_errO_def retO_def Let_def)
  moreover have "newest_of ?m (deliveries contents (days @ legacy)) (take ?m (ae_arrange ae es))"
    by (rule collected_newest [OF assms(2) loop(2)]) (simp add: deliveries_def)
  ultimately show ?thesis by simp
qed

text \<open>Two such lists of one set show the same times.\<close>

lemma newest_of_times:
  assumes "newest_of m all es" "newest_of m all es'"
  shows "map he_received_at_ms es = map he_received_at_ms es'"
proof -
  let ?t = he_received_at_ms and ?D = "set es - set es'" and ?D' = "set es' - set es"
  have ms: "mset xs = mset_set (set xs)" if "distinct xs" for xs :: "history_entry list"
    using that by (simp add: mset_set_set)
  have d: "distinct es" "distinct es'" "length es = length es'" using assms by (auto simp: newest_of_def)
  have "card (set es) = card (set es')" using d by (simp add: distinct_card)
  then have cards: "card ?D = card ?D'" by (simp add: card_Diff_subset_Int Int_commute)
  have same: "?t x = ?t y" if "x \<in> ?D" "y \<in> ?D'" for x y
    using assms that unfolding newest_of_def by (intro antisym) blast+
  have "image_mset ?t (mset_set ?D) = image_mset ?t (mset_set ?D')"
  proof (cases "?D = {}")
    case True
    then have "?D' = {}" using cards by (metis card.empty card_0_eq finite_Diff finite_set)
    with True show ?thesis by (simp only: mset_set.empty image_mset_empty)
  next
    case False
    then obtain x where x: "x \<in> ?D" by blast
    from False cards obtain y where y: "y \<in> ?D'" by (metis card_0_eq finite_Diff finite_set ex_in_conv)
    have "image_mset ?t (mset_set ?D) = image_mset (\<lambda>_. ?t y) (mset_set ?D)"
      using same y by (intro image_mset_cong) auto
    moreover have "image_mset ?t (mset_set ?D') = image_mset (\<lambda>_. ?t y) (mset_set ?D')"
      using same x y by (intro image_mset_cong) (metis finite_Diff finite_set elem_mset_set)
    ultimately show ?thesis using cards by (simp add: image_mset_const_eq)
  qed
  moreover have "mset_set (set es) = mset_set (set es \<inter> set es') + mset_set ?D"
    "mset_set (set es') = mset_set (set es \<inter> set es') + mset_set ?D'"
    by (subst mset_set_Union [symmetric]; auto intro!: arg_cong [where f = mset_set])+
  ultimately have "mset (rev (map ?t es)) = mset (rev (map ?t es'))" using d ms by simp
  moreover have "sorted (rev (map ?t es))" "sorted (rev (map ?t es'))"
    using assms by (simp_all add: newest_of_def newest_first_def sorted_wrt_rev sorted_wrt_map)
  ultimately have "rev (map ?t es) = rev (map ?t es')" by (metis properties_for_sort)
  then show ?thesis by simp
qed

text \<open>They differ only in which deliveries of the oldest time shown they hold.\<close>

lemma newest_of_differ:
  assumes "newest_of m all es" "newest_of m all es'" "x \<in> set es - set es' \<or> x \<in> set es' - set es" "y \<in> set es"
  shows "he_received_at_ms x \<le> he_received_at_ms y"
proof -
  let ?t = he_received_at_ms
  have n: "distinct es" "distinct es'" "length es = length es'" "set es \<subseteq> all" "set es' \<subseteq> all"
    "\<And>u v. u \<in> all - set es \<Longrightarrow> v \<in> set es \<Longrightarrow> ?t u \<le> ?t v"
    "\<And>u v. u \<in> all - set es' \<Longrightarrow> v \<in> set es' \<Longrightarrow> ?t u \<le> ?t v"
    using assms(1,2) by (auto simp: newest_of_def)
  show ?thesis
  proof (cases "x \<in> set es")
    case False
    then show ?thesis using n(5,6) assms(3,4) by blast
  next
    case True
    then have x: "x \<in> set es - set es'" using assms(3) by blast
    have "card (set es) = card (set es')" using n(1-3) by (simp add: distinct_card)
    then have "\<not> set es' \<subseteq> set es" using x by (metis Diff_iff List.finite_set card_subset_eq)
    then obtain z where z: "z \<in> set es' - set es" by blast
    then have "?t x \<le> ?t z" using n(4,7) x by blast
    moreover have "?t z \<le> ?t y" using n(5,6) z assms(4) by blast
    ultimately show ?thesis by (rule order_trans)
  qed
qed

lemma newest_of_all:
  assumes "newest_of m all es" "finite all" "card all \<le> m"
  shows "set es = all"
  using assms card_subset_eq [OF assms(2), of "set es"] by (simp add: newest_of_def distinct_card)

section \<open>Properties\<close>

text \<open>
  C24. However often deliveries are stored, the history is the newest of the distinct ones: none
  twice, as many as wanted or all there are, and none left out is newer than one returned. Days hold
  their records in the order of arrival, and records of one key are one delivery.
\<close>

theorem history_newest_distinct:
  assumes "serves ae sp days legacy contents" "arranges (ae_arrange ae)"
    and "list_all (\<lambda>st. newest_first (rev (valid_entries (contents st)))) (days @ legacy)"
    and "inj_on (archive_entry_key ae) (deliveries contents (days @ legacy))"
  shows "\<exists>r. list_recent ae sp limit s = (Inr r, s) \<and> newest_first (hr_entries r) \<and> distinct (hr_entries r) \<and>
    set (hr_entries r) \<subseteq> deliveries contents (days @ legacy) \<and>
    length (hr_entries r) = min (history_limit limit) (card (deliveries contents (days @ legacy))) \<and>
    (\<forall>x \<in> deliveries contents (days @ legacy) - set (hr_entries r). \<forall>y \<in> set (hr_entries r).
       he_received_at_ms x \<le> he_received_at_ms y)"
  using list_recent_newest [OF assms, of limit s] unfolding newest_of_def by blast

theorem history_newest_distinct_witness:
  "\<exists>r. list_recent fixed_env fixed_port (Some 2) () = (Inr r, ()) \<and> length (hr_entries r) = 2 \<and>
     distinct (hr_entries r)"
proof -
  have null: "entry_from_value JNull = None" by (simp add: entry_from_value_def)
  have split: "stream_prefix \<noteq> legacy_stream_prefix"
    by (simp add: stream_prefix_def legacy_stream_prefix_def)
  have serve: "serves fixed_env fixed_port [''connectors.triggers/2026-01-02''] [''triggers/2026-01-01''] two_days"
    using split by (simp add: serves_def fixed_port_def)
  have v: "valid_entries (two_days ''connectors.triggers/2026-01-02'') = [delivery 5 ''b'', delivery 9 ''c'']"
    "valid_entries (two_days ''triggers/2026-01-01'') = [delivery 2 ''a'']"
    using entry_round null by (simp_all add: two_days_def valid_entries_def)
  have all: "deliveries two_days ([''connectors.triggers/2026-01-02''] @ [''triggers/2026-01-01'']) =
      {delivery 5 ''b'', delivery 9 ''c'', delivery 2 ''a''}"
    by (auto simp: deliveries_def v)
  have inj: "inj_on (archive_entry_key fixed_env) {delivery 5 ''b'', delivery 9 ''c'', delivery 2 ''a''}"
    by (simp add: archive_entry_key_def delivery_def)
  have "card {delivery 5 ''b'', delivery 9 ''c'', delivery 2 ''a''} = 3" by (simp add: delivery_def)
  then show ?thesis
    using history_newest_distinct [OF serve, of "Some 2" "()", unfolded all, OF _ _ inj] by_time_arranges
    by (auto simp: v fixed_env_def newest_first_def delivery_def history_limit_def)
qed

text \<open>
  C17. A first migration of the streams does not change the history: read before it from the legacy
  streams, and after it from both families, where every delivery is stored twice, it shows
  deliveries of the same store, each once and with its payload, of the same times and, when no two
  arrived in the same millisecond, the very same list. It shows all of them when they fit; beyond
  that the two can differ only in which of several deliveries of the oldest time shown they hold, a
  choice the code leaves to an unstable sort.
\<close>

theorem migration_keeps_history:
  assumes "quiet mp docs strs" "distinct days"
    and "mp_streams mp legacy_stream_prefix s = (Inr (map ((@) legacy_stream_prefix) days), s)"
    and "\<forall>d \<in> set days. strs s (stream_prefix @ d) = []"
    and "migrate_streams mp s = Some (Inr (), s')"
    and "serves ae before [] (map ((@) legacy_stream_prefix) days) (strs s)"
    and "serves ae after (map ((@) stream_prefix) days) (map ((@) legacy_stream_prefix) days) (strs s')"
    and "arranges (ae_arrange ae)"
    and "list_all (\<lambda>d. newest_first (rev (valid_entries (strs s (legacy_stream_prefix @ d))))) days"
    and "inj_on (archive_entry_key ae) (deliveries (strs s) (map ((@) legacy_stream_prefix) days))"
  shows "\<exists>r r'. list_recent ae before limit t = (Inr r, t) \<and> list_recent ae after limit t' = (Inr r', t') \<and>
    map he_received_at_ms (hr_entries r') = map he_received_at_ms (hr_entries r) \<and>
    distinct (hr_entries r) \<and> distinct (hr_entries r') \<and>
    (let stored = deliveries (strs s) (map ((@) legacy_stream_prefix) days) in
       set (hr_entries r) \<subseteq> stored \<and> set (hr_entries r') \<subseteq> stored \<and>
       (if card stored \<le> history_limit limit then set (hr_entries r) = stored \<and> set (hr_entries r') = stored else True) \<and>
       (if inj_on he_received_at_ms stored then hr_entries r' = hr_entries r else True)) \<and>
    (\<forall>x \<in> (set (hr_entries r) - set (hr_entries r')) \<union> (set (hr_entries r') - set (hr_entries r)).
       \<forall>y \<in> set (hr_entries r). he_received_at_ms x \<le> he_received_at_ms y)"
proof -
  let ?old = "map ((@) legacy_stream_prefix) days" and ?new = "map ((@) stream_prefix) days"
  have "\<forall>d \<in> set days. copied_so_far (strs s (legacy_stream_prefix @ d)) (strs s (stream_prefix @ d))"
    using assms(4) by (simp add: copied_so_far_def same_values_def)
  from migrate_each_quiet [OF assms(1,2) this] obtain u where
    u: "migrate_each mp ?old s = Some (Inr (), u)"
      "\<forall>d. strs u (stream_prefix @ d) = (if d \<in> set days
         then strs s (stream_prefix @ d) @
           drop (length (strs s (stream_prefix @ d))) (strs s (legacy_stream_prefix @ d))
         else strs s (stream_prefix @ d))"
      "\<forall>st. (\<forall>d \<in> set days. st \<noteq> stream_prefix @ d) \<longrightarrow> strs u st = strs s st" by blast
  have "s' = u" using assms(3,5) u(1) by (simp add: migrate_streams_def bindR_def once_def)
  then have new: "strs s' (stream_prefix @ d) = strs s (legacy_stream_prefix @ d)" if "d \<in> set days" for d
    using u(2) assms(4) that by simp
  have old: "strs s' (legacy_stream_prefix @ d) = strs s (legacy_stream_prefix @ d)" for d
    using u(3) \<open>s' = u\<close> stream_names_apart [of _ d] by metis
  have same: "deliveries (strs s') (?new @ ?old) = deliveries (strs s) ?old"
    unfolding deliveries_def using new old by auto
  have "list_all (\<lambda>st. newest_first (rev (valid_entries (strs s st)))) ([] @ ?old)"
    "list_all (\<lambda>st. newest_first (rev (valid_entries (strs s' st)))) (?new @ ?old)"
    using assms(9) new old by (auto simp: list_all_iff)
  from list_recent_newest [OF assms(6,8) this(1)] list_recent_newest [OF assms(7,8) this(2)] assms(10)
  obtain r r' where "list_recent ae before limit t = (Inr r, t)" "list_recent ae after limit t' = (Inr r', t')"
    "newest_of (history_limit limit) (deliveries (strs s) ?old) (hr_entries r)"
    "newest_of (history_limit limit) (deliveries (strs s) ?old) (hr_entries r')"
    unfolding same by (metis append_Nil)
  moreover from this(3,4) have "map he_received_at_ms (hr_entries r') = map he_received_at_ms (hr_entries r)"
    "set (hr_entries r) \<subseteq> deliveries (strs s) ?old" "set (hr_entries r') \<subseteq> deliveries (strs s) ?old"
    "distinct (hr_entries r)" "distinct (hr_entries r')"
    using newest_of_times by (blast, auto simp: newest_of_def)
  moreover from this(1-3) have "inj_on he_received_at_ms (deliveries (strs s) ?old) \<Longrightarrow> hr_entries r' = hr_entries r"
    by (meson inj_on_subset map_inj_on sup_least)
  moreover have "finite (deliveries (strs s) ?old)" by (simp add: deliveries_def)
  ultimately show ?thesis
    using newest_of_differ newest_of_all by (intro exI [of _ r] exI [of _ r']) (auto simp: Let_def)
qed

text \<open>A stream port over fixed streams, for the example.\<close>

definition port_of :: "str list \<Rightarrow> str list \<Rightarrow> (str \<Rightarrow> json list) \<Rightarrow> unit stream_port" where
  "port_of days legacy contents = fixed_port
     \<lparr>sp_streams := (\<lambda>p s. (Inr (if p = stream_prefix then days else if p = legacy_stream_prefix then legacy else []), s)),
      sp_len := (\<lambda>st s. (Inr (length (contents st)), s)),
      sp_read_window := (\<lambda>st i n s. (Inr (take n (drop i (contents st))), s))\<rparr>"

lemma port_of_serves: "serves ae (port_of days legacy contents) days legacy contents"
  by (simp add: serves_def port_of_def fixed_port_def stream_prefix_def legacy_stream_prefix_def)

definition one_delivery :: mem where
  "one_delivery = before_open\<lparr>m_strs := (\<lambda>st. if st = ''triggers/2026-01-01'' then [entry_value (delivery 2 ''a'')] else [])\<rparr>"

theorem migration_keeps_history_witness:
  "\<exists>s' r. migrate_streams one_day one_delivery = Some (Inr (), s') \<and>
     list_recent fixed_env (port_of [''connectors.triggers/2026-01-01''] [''triggers/2026-01-01''] (m_strs s')) None () =
       (Inr r, ()) \<and> hr_entries r = [delivery 2 ''a'']"
proof -
  let ?old = "map ((@) legacy_stream_prefix) [''2026-01-01'']" and ?new = "map ((@) stream_prefix) [''2026-01-01'']"
  have names: "?old = [''triggers/2026-01-01'']" "?new = [''connectors.triggers/2026-01-01'']"
    by (simp_all add: legacy_stream_prefix_def stream_prefix_def)
  have listed: "mp_streams one_day legacy_stream_prefix one_delivery = (Inr ?old, one_delivery)"
    by (simp add: mem_port_def legacy_stream_prefix_def)
  have strs: "m_strs one_delivery (legacy_stream_prefix @ ''2026-01-01'') = [entry_value (delivery 2 ''a'')]"
    "m_strs one_delivery (stream_prefix @ ''2026-01-01'') = []"
    by (simp_all add: one_delivery_def legacy_stream_prefix_def stream_prefix_def)
  have valid: "valid_entries [entry_value (delivery 2 ''a'')] = [delivery 2 ''a'']"
    by (simp add: valid_entries_def entry_round)
  have "copyable one_day m_strs one_delivery [''2026-01-01'']"
    using strs by (simp add: copyable_def copied_so_far_def same_values_def mem_port_def legacy_stream_prefix_def)
  then obtain s' where run: "migrate_streams one_day one_delivery = Some (Inr (), s')"
    by (rule migrate_streams_quiet [OF mem_quiet]) auto
  have arr: "arranges (ae_arrange fixed_env)" by (simp add: fixed_env_def by_time_arranges)
  have old: "deliveries (m_strs one_delivery) ?old = {delivery 2 ''a''}"
    by (simp add: deliveries_def strs valid)
  have fresh: "\<forall>d \<in> set [''2026-01-01'']. m_strs one_delivery (stream_prefix @ d) = []"
    and new: "list_all (\<lambda>d. newest_first (rev (valid_entries (m_strs one_delivery (legacy_stream_prefix @ d))))) [''2026-01-01'']"
    using strs by (simp_all add: newest_first_def valid)
  have inj: "inj_on (archive_entry_key fixed_env) (deliveries (m_strs one_delivery) ?old)"
    unfolding old by simp
  obtain r r' where r: "list_recent fixed_env (port_of [] ?old (m_strs one_delivery)) None () = (Inr r, ())"
    "list_recent fixed_env (port_of ?new ?old (m_strs s')) None () = (Inr r', ())"
    "hr_entries r' = hr_entries r"
    using migration_keeps_history [where limit = None, OF mem_quiet _ listed fresh run port_of_serves port_of_serves arr new inj]
    unfolding old by (auto simp: Let_def)
  have "newest_of 50 {delivery 2 ''a''} (hr_entries r)"
    using list_recent_newest [where limit = None and s = "()", OF port_of_serves [of fixed_env "[]" ?old "m_strs one_delivery"] arr]
      new inj r(1)
    by (simp add: old [simplified] history_limit_def default_history_limit_def unwrap_or_def)
  then have "hr_entries r = [delivery 2 ''a'']"
    by (cases "hr_entries r") (auto simp: newest_of_def)
  then show ?thesis using run r(2,3) unfolding names by auto
qed

end
