(* ===== verification/Identity.thy ===== *)
theory Identity
  imports Rust_Str Complex_Main
begin

text \<open>
  Connected identities: the kinds and shapes of
  \<open>crates/tinyconnectors-bus/src/vocabulary/profile.rs\<close>, and the canonical forms, connection
  identifiers and prompt section of \<open>crates/tinyconnectors/src/vocabulary/profile.rs\<close>. The
  standard library's lowercasing of Unicode text is an argument; on ASCII it is \<open>to_lower\<close>.
\<close>

section \<open>Kinds\<close>

datatype identity_kind = User_id | Email | Handle | Phone | Display_name | Avatar_url | Profile_url

fun kind_name :: "identity_kind \<Rightarrow> str" where
  "kind_name User_id = ''user_id''"
| "kind_name Email = ''email''"
| "kind_name Handle = ''handle''"
| "kind_name Phone = ''phone''"
| "kind_name Display_name = ''display_name''"
| "kind_name Avatar_url = ''avatar_url''"
| "kind_name Profile_url = ''profile_url''"

definition parse_kind :: "str \<Rightarrow> identity_kind option" where
  "parse_kind s =
     (if s = ''user_id'' then Some User_id
      else if s = ''email'' then Some Email
      else if s = ''handle'' then Some Handle
      else if s = ''phone'' then Some Phone
      else if s = ''display_name'' then Some Display_name
      else if s = ''avatar_url'' then Some Avatar_url
      else if s = ''profile_url'' then Some Profile_url
      else None)"

fun confidence :: "identity_kind \<Rightarrow> rat" where
  "confidence User_id = 1"
| "confidence Phone = 1"
| "confidence Email = 95 / 100"
| "confidence Handle = 70 / 100"
| "confidence Display_name = 40 / 100"
| "confidence Avatar_url = 50 / 100"
| "confidence Profile_url = 50 / 100"

definition is_matchable :: "identity_kind \<Rightarrow> bool" where
  "is_matchable k \<longleftrightarrow> List.member [User_id, Email, Handle, Phone, Display_name] k"

record connected_identity =
  ci_source :: str
  ci_identifier :: str
  ci_display_name :: "str option"
  ci_email :: "str option"
  ci_handle :: "str option"
  ci_phone :: "str option"
  ci_user_id :: "str option"
  ci_avatar_url :: "str option"
  ci_profile_url :: "str option"

section \<open>Canonical forms\<close>

definition canonicalize :: "(str \<Rightarrow> str) \<Rightarrow> identity_kind \<Rightarrow> str \<Rightarrow> str option" where
  "canonicalize lower kind raw =
     (let trimmed = trim raw in
      if trimmed = [] \<or> (kind = Phone \<and> \<not> list_ex is_digit trimmed) then None
      else
        (let v = (case kind of
             Email \<Rightarrow> lower trimmed
           | Handle \<Rightarrow> lower (dropWhile (\<lambda>c. c = CHR ''@'') trimmed)
           | Phone \<Rightarrow> filter (\<lambda>c. is_digit c \<or> c = CHR ''+'') trimmed
           | Display_name \<Rightarrow> join '' '' (split_whitespace trimmed)
           | _ \<Rightarrow> trimmed)
         in if v = [] then None else Some v))"

text \<open>One underscore for every character, not byte, that is not kept.\<close>

definition identifier_char :: "char \<Rightarrow> char option" where
  "identifier_char c =
     (if is_cont c then None
      else Some (let l = lower_char c in
        if is_alnum l \<or> l = CHR ''-'' \<or> l = CHR ''_'' then l else CHR ''_''))"

definition trim_matches :: "char \<Rightarrow> str \<Rightarrow> str" where
  "trim_matches d s = rev (dropWhile (\<lambda>c. c = d) (rev (dropWhile (\<lambda>c. c = d) s)))"

definition normalize_connection_identifier :: "str \<Rightarrow> str" where
  "normalize_connection_identifier raw = trim_matches (CHR ''_'') (filter_map identifier_char raw)"

section \<open>The prompt section\<close>

definition flatten_char :: "char \<Rightarrow> char" where
  "flatten_char c =
     (if List.member [CHR 0x0A, CHR 0x0D, CHR 0x09] c then CHR '' '' else if c = CHR ''|'' then CHR ''/'' else c)"

definition sanitize_prompt_value :: "str \<Rightarrow> str" where
  "sanitize_prompt_value raw = join '' '' (split_whitespace (map flatten_char raw))"

fun title_case :: "str \<Rightarrow> str" where
  "title_case [] = []"
| "title_case (c # s) = upper_char c # s"

definition shown_field :: "str \<Rightarrow> str option \<Rightarrow> str list" where
  "shown_field mark v =
     (case v of
        None \<Rightarrow> []
      | Some v \<Rightarrow> (let w = sanitize_prompt_value v in if w = [] then [] else [mark @ w]))"

definition identity_fields :: "connected_identity \<Rightarrow> str list" where
  "identity_fields i =
     shown_field [] (ci_display_name i) @ shown_field [] (ci_email i) @
     shown_field ''@'' (ci_handle i) @ shown_field [] (ci_profile_url i)"

definition identity_line :: "connected_identity \<Rightarrow> str" where
  "identity_line i =
     ''- '' @ title_case (sanitize_prompt_value (ci_source i)) @ '' ('' @
     sanitize_prompt_value (ci_identifier i) @ ''): '' @ join '' | '' (identity_fields i) @ [CHR 0x0A]"

definition section_heading :: str where
  "section_heading = ''## Connected Identities'' @ [CHR 0x0A, CHR 0x0A]"

definition render_connected_identities_section :: "connected_identity list \<Rightarrow> str" where
  "render_connected_identities_section ids =
     (if ids = [] then []
      else
        (let out = section_heading @ concat (map identity_line (filter (\<lambda>i. identity_fields i \<noteq> []) ids)) in
         if trim out = ''## Connected Identities'' then [] else out))"

section \<open>The member\<close>

record identity_value =
  iv_value :: "str option"
  iv_confidence :: rat
  iv_matchable :: bool

record identities_response =
  ir_values :: "identity_value list"
  ir_connection_identifiers :: "str list"
  ir_prompt_section :: str

definition normalize_identities ::
  "(str \<Rightarrow> str) \<Rightarrow> (identity_kind \<times> str) list \<Rightarrow> str list \<Rightarrow> connected_identity list \<Rightarrow> identities_response" where
  "normalize_identities lower vs connections ids =
     \<lparr>ir_values = map (\<lambda>(k, v). \<lparr>iv_value = canonicalize lower k v, iv_confidence = confidence k,
        iv_matchable = is_matchable k\<rparr>) vs,
      ir_connection_identifiers = map normalize_connection_identifier connections,
      ir_prompt_section = render_connected_identities_section ids\<rparr>"

section \<open>Laws of splitting\<close>

text \<open>Text in which white space starts nowhere.\<close>

definition unbroken :: "str \<Rightarrow> bool" where
  "unbroken p \<longleftrightarrow> (\<forall>q t. p = q @ t \<longrightarrow> skip_ws ws2 ws3 t = None)"

lemma unbroken_tail: "unbroken (c # p) \<Longrightarrow> unbroken p"
  unfolding unbroken_def by (metis append_Cons)

lemma skip_ws_space: "skip_ws w2 w3 (CHR '' '' # s) = Some s"
  by (cases s rule: list.exhaust; cases "tl s" rule: list.exhaust) (auto simp: ws1_def neq_Nil_conv)

lemma skip_ws_before_space:
  assumes "skip_ws ws2 ws3 (c # p) = None"
  shows "skip_ws ws2 ws3 (c # p @ CHR '' '' # s) = None"
proof (cases p)
  case Nil
  then show ?thesis
    using assms by (cases s) (auto simp: ws1_def ws2_def ws3_def split: if_splits)
next
  case (Cons b q)
  then show ?thesis
    using assms by (cases q) (auto simp: ws1_def ws2_def ws3_def split: if_splits)
qed

lemma skip_ws_member: "skip_ws ws2 ws3 (c # s) = None \<Longrightarrow> \<not> ws1 c"
  by (cases s rule: list.exhaust; cases "tl s") (auto simp: neq_Nil_conv split: if_splits)

lemma unbroken_no_space: "unbroken p \<Longrightarrow> \<not> list_ex ws1 p"
proof (induction p)
  case (Cons c p)
  have "skip_ws ws2 ws3 (c # p) = None" using Cons.prems unfolding unbroken_def by (metis append_Nil)
  then show ?case using skip_ws_member Cons unbroken_tail by auto
qed simp

lemma split_ws_word:
  "unbroken p \<Longrightarrow> split_ws_aux acc (p @ CHR '' '' # s) =
     (if rev acc @ p = [] then [] else [rev acc @ p]) @ split_ws_aux [] s"
proof (induction p arbitrary: acc)
  case Nil
  show ?case by (simp add: split_ws_aux.simps [of acc "CHR '' '' # s"] skip_ws_space)
next
  case (Cons c p)
  have "skip_ws ws2 ws3 (c # p) = None" using Cons.prems unfolding unbroken_def by (metis append_Nil)
  then have "skip_ws ws2 ws3 ((c # p) @ CHR '' '' # s) = None" using skip_ws_before_space by simp
  then have "split_ws_aux acc ((c # p) @ CHR '' '' # s) = split_ws_aux (c # acc) (p @ CHR '' '' # s)"
    by (subst split_ws_aux.simps) simp
  then show ?case using Cons.IH [OF unbroken_tail [OF Cons.prems], of "c # acc"] by simp
qed

lemma split_ws_last:
  "unbroken p \<Longrightarrow> split_ws_aux acc p = (if rev acc @ p = [] then [] else [rev acc @ p])"
proof (induction p arbitrary: acc)
  case Nil
  show ?case by (simp add: split_ws_aux.simps)
next
  case (Cons c p)
  have "skip_ws ws2 ws3 (c # p) = None" using Cons.prems unfolding unbroken_def by (metis append_Nil)
  then have "split_ws_aux acc (c # p) = split_ws_aux (c # acc) p" by (subst split_ws_aux.simps) simp
  then show ?case using Cons.IH [OF unbroken_tail [OF Cons.prems], of "c # acc"] by simp
qed

lemma split_join_words:
  "list_all (\<lambda>p. unbroken p \<and> p \<noteq> []) ps \<Longrightarrow> split_whitespace (join '' '' ps) = ps"
proof (induction "'' ''" ps rule: join.induct)
  case 1
  show ?case by (simp add: split_whitespace_def split_ws_aux.simps)
next
  case (2 x)
  then show ?case by (simp add: split_whitespace_def split_ws_last)
next
  case (3 x y xs)
  then show ?case using split_ws_word [of x "[]" "join '' '' (y # xs)"] by (simp add: split_whitespace_def)
qed

text \<open>The pieces of a split are unbroken and not empty.\<close>

lemma split_ws_unbroken:
  "(\<And>q t. rev acc = q @ t \<Longrightarrow> t \<noteq> [] \<Longrightarrow> skip_ws ws2 ws3 (t @ s) = None) \<Longrightarrow>
     p \<in> set (split_ws_aux acc s) \<Longrightarrow> unbroken p \<and> p \<noteq> []"
proof (induction acc s rule: split_ws_aux.induct)
  case (1 acc s)
  have piece: "unbroken (rev acc) \<and> rev acc \<noteq> []" if "acc \<noteq> []"
  proof -
    have "skip_ws ws2 ws3 t = None" if "rev acc = q @ t" for q t
    proof (cases "t = []")
      case False
      then have "skip_ws ws2 ws3 (t @ s) = None" using 1(3) that by blast
      then show ?thesis by (rule skip_ws_prefix [rotated]) simp
    qed simp
    then show ?thesis using that unfolding unbroken_def by auto
  qed
  show ?case
  proof (cases "skip_ws ws2 ws3 s")
    case (Some t)
    have "split_ws_aux acc s = (if acc = [] then [] else [rev acc]) @ split_ws_aux [] t"
      by (subst split_ws_aux.simps) (simp add: Some)
    then show ?thesis using 1(2) [OF Some] 1(4) piece by (auto split: if_splits)
  next
    case None
    show ?thesis
    proof (cases s)
      case Nil
      then have "split_ws_aux acc s = (if acc = [] then [] else [rev acc])" by (subst split_ws_aux.simps) simp
      then show ?thesis using 1(4) piece by (auto split: if_splits)
    next
      case (Cons c t)
      have step: "split_ws_aux acc s = split_ws_aux (c # acc) t"
        using None by (subst split_ws_aux.simps) (simp add: Cons)
      have "skip_ws ws2 ws3 (u @ t) = None" if split: "rev (c # acc) = q @ u" "u \<noteq> []" for q u
      proof -
        obtain v y where u: "u = v @ [y]" using split(2) by (cases u rule: rev_cases) auto
        then have v: "u = v @ [c]" "rev acc = q @ v" using split(1) by simp_all
        show ?thesis
          using 1(3) [OF v(2)] None by (cases "v = []") (simp_all add: v(1) Cons)
      qed
      then show ?thesis using 1(1) [OF None Cons] 1(4) unfolding step by blast
    qed
  qed
qed

lemma split_pieces: "p \<in> set (split_whitespace s) \<Longrightarrow> unbroken p \<and> p \<noteq> []"
  unfolding split_whitespace_def by (rule split_ws_unbroken [where acc = "[]"]) auto

lemma split_join_split: "split_whitespace (join '' '' (split_whitespace s)) = split_whitespace s"
  by (rule split_join_words) (simp add: list_all_iff split_pieces)

text \<open>Joined pieces neither start nor end with white space.\<close>

lemma unbroken_end:
  assumes "unbroken p" "p \<noteq> []" "q = [] \<or> last q = CHR '' ''"
  shows "trim_end (q @ p) = q @ p"
proof -
  obtain p1 a where p1: "p = p1 @ [a]" using assms(2) by (cases p rule: rev_cases) auto
  have a: "\<not> ws1 a" using unbroken_no_space [OF assms(1)] by (simp add: p1)
  have none: "skip_ws ws2 ws3 t = None" if "p = u @ t" for u t using assms(1) that unfolding unbroken_def by blast
  have q: "q = [] \<or> (\<exists>r. q = r @ '' '')" using assms(3) by (metis append_butlast_last_id)
  have "skip_ws (\<lambda>a b. ws2 b a) (\<lambda>a b c. ws3 c b a) (rev (q @ p)) = None"
  proof (cases p1 rule: rev_cases)
    case Nil
    show ?thesis
    proof (cases "q = []")
      case True
      then show ?thesis using a by (simp add: p1 Nil)
    next
      case False
      then obtain r where "q = r @ '' ''" using q by blast
      then show ?thesis using a by (cases "rev r") (simp_all add: p1 Nil ws2_def ws3_def)
    qed
  next
    case (snoc p2 b)
    have b: "\<not> ws2 b a" using none [of p2 "[b, a]"] by (auto simp: p1 snoc split: if_splits)
    show ?thesis
    proof (cases p2 rule: rev_cases)
      case Nil
      then show ?thesis using q a b by (auto simp: p1 snoc ws3_def)
    next
      case p3: (snoc p3 c)
      have "\<not> ws3 c b a" using none [of p3 "[c, b, a]"] by (auto simp: p1 snoc p3 split: if_splits)
      then show ?thesis using a b by (simp add: p1 snoc p3)
    qed
  qed
  then show ?thesis by (simp add: trim_end_def trim_with_id del: rev_append)
qed

lemma join_last:
  "ps \<noteq> [] \<Longrightarrow> \<exists>q. join '' '' ps = q @ last ps \<and> (q = [] \<or> last q = CHR '' '')"
proof (induction "'' ''" ps rule: join.induct)
  case (2 x)
  then show ?case by simp
next
  case (3 x y xs)
  then obtain q where "join '' '' (y # xs) = q @ last (y # xs)" "q = [] \<or> last q = CHR '' ''" by auto
  then show ?case by (intro exI [of _ "x @ '' '' @ q"]) (auto simp: last_append)
qed simp

lemma join_trimmed:
  assumes "list_all (\<lambda>p. unbroken p \<and> p \<noteq> []) ps"
  shows "trim (join '' '' ps) = join '' '' ps"
proof (cases ps)
  case (Cons p rest)
  have "unbroken p" and some: "p \<noteq> []" using assms by (simp_all add: Cons)
  then have first: "skip_ws ws2 ws3 p = None" unfolding unbroken_def by (metis append_Nil)
  have "skip_ws ws2 ws3 (join '' '' ps) = None"
  proof (cases rest)
    case Nil
    then show ?thesis using first by (simp add: Cons)
  next
    case (Cons r rs)
    obtain c d where "p = c # d" using some by (cases p) auto
    then show ?thesis using first skip_ws_before_space [of c d] by (simp add: \<open>ps = p # rest\<close> Cons)
  qed
  then have start: "trim_start (join '' '' ps) = join '' '' ps" by (rule trim_start_id)
  obtain q where q: "join '' '' ps = q @ last ps" "q = [] \<or> last q = CHR '' ''" using join_last [of ps] Cons by auto
  have "unbroken (last ps)" "last ps \<noteq> []" using assms Cons by (auto simp: list_all_iff)
  from unbroken_end [OF this q(2)] show ?thesis by (simp add: trim_def start) (simp add: q(1))
qed simp

lemma split_joined_trim: "trim (join '' '' (split_whitespace s)) = join '' '' (split_whitespace s)"
  by (rule join_trimmed) (simp add: list_all_iff split_pieces)

lemma solid_trim: "list_all solid s \<Longrightarrow> trim s = s"
proof (cases s rule: rev_cases)
  case (snoc q x)
  assume "list_all solid s"
  then have x: "solid x" and q: "list_all solid q" by (simp_all add: snoc)
  have "prefix s (trim s)"
  proof (cases q)
    case Nil
    then show ?thesis using trim_end_solid [OF x, of "[]" "[]"] trim_solid_head [OF x] by (simp add: snoc)
  next
    case (Cons c p)
    then show ?thesis using trim_solid_prefix [of c x p "[]"] q x by (simp add: snoc)
  qed
  then obtain z where z: "trim s = s @ z" by (auto simp: prefix_def)
  then show ?thesis using trim_length [of s] by simp
qed simp

lemma digit_solid: "is_digit c \<Longrightarrow> solid c"
  by (cases c) (auto simp: solid_def ws1_def)

section \<open>Canonical forms are settled\<close>

text \<open>What the canonical forms need of lowercasing, and what ASCII lowercasing provides.\<close>

locale lowercase =
  fixes lower :: "str \<Rightarrow> str"
  assumes lower_lower: "lower (lower s) = lower s"
    and lower_trim: "trim s = s \<Longrightarrow> trim (lower s) = lower s"
begin

lemma canonical_email: "canonicalize lower Email raw = Some v \<Longrightarrow> canonicalize lower Email v = Some v"
  by (auto simp: canonicalize_def Let_def lower_lower lower_trim split: if_splits)

end

interpretation ascii: lowercase to_lower
  by unfold_locales (simp_all add: trim_lower)

lemma phone_digits: "list_ex is_digit s \<longleftrightarrow> list_ex is_digit (filter (\<lambda>c. is_digit c \<or> c = CHR ''+'') s)"
  by (induction s) auto

lemma plus_solid: "solid (CHR ''+'')"
  by (simp add: solid_def ws1_def)

lemma canonical_phone:
  assumes "canonicalize lower Phone raw = Some v"
  shows "canonicalize lower Phone v = Some v"
proof -
  have v: "v = filter (\<lambda>c. is_digit c \<or> c = CHR ''+'') (trim raw)" "v \<noteq> []" "list_ex is_digit (trim raw)"
    using assms by (auto simp: canonicalize_def Let_def split: if_splits)
  have "list_all solid v" unfolding v(1) by (auto simp: list_all_iff digit_solid plus_solid)
  then have "trim v = v" by (rule solid_trim)
  moreover have "list_ex is_digit v" using v(3) phone_digits [of "trim raw"] unfolding v(1) by simp
  ultimately show ?thesis using v(2) by (simp add: canonicalize_def) (simp add: v(1))
qed

lemma canonical_display:
  assumes "canonicalize lower Display_name raw = Some v"
  shows "canonicalize lower Display_name v = Some v"
proof -
  have v: "v = join '' '' (split_whitespace (trim raw))" "v \<noteq> []"
    using assms by (auto simp: canonicalize_def Let_def split: if_splits)
  then have "trim v = v" using split_joined_trim by simp
  then show ?thesis using v by (simp add: canonicalize_def split_join_split)
qed

lemma canonical_plain:
  "List.member [User_id, Avatar_url, Profile_url] k \<Longrightarrow> canonicalize lower k raw = Some v \<Longrightarrow>
     canonicalize lower k v = Some v"
  by (auto simp: canonicalize_def Let_def split: if_splits)

text \<open>
  The canonical form of an identifier is settled: canonicalising it again gives it back, so a
  stored value and the form computed at match time agree. A handle is the exception.
\<close>

theorem canonical_settled:
  assumes "lowercase lower" "canonicalize lower kind raw = Some v" "if kind = Handle then False else True"
  shows "canonicalize lower kind v = Some v"
proof (cases kind)
  case Email
  then show ?thesis using assms(2) lowercase.canonical_email [OF assms(1), of raw v] by simp
next
  case Phone
  then show ?thesis using assms(2) canonical_phone [of lower raw v] by simp
next
  case Display_name
  then show ?thesis using assms(2) canonical_display [of lower raw v] by simp
next
  case Handle
  then show ?thesis using assms(3) by simp
qed (use assms(2) canonical_plain [of kind lower raw v] in simp_all)

text \<open>
  A handle is trimmed before the at signs are stripped, so white space between the two survives:
  the form is not settled, and it is not the form of the same handle without the space.
\<close>

lemma handle_unsettled:
  "canonicalize to_lower Handle ''@ Alice'' = Some '' alice'' \<and>
   canonicalize to_lower Handle '' alice'' = Some ''alice'' \<and>
   canonicalize to_lower Handle ''Alice'' = Some ''alice''"
  by code_simp

section \<open>Connection identifiers\<close>

definition identifier_ok :: "char \<Rightarrow> bool" where
  "identifier_ok c \<longleftrightarrow> (is_alnum c \<and> \<not> is_upper c) \<or> c = CHR ''-'' \<or> c = CHR ''_''"

lemma alnum_starts: "is_alnum c \<Longrightarrow> \<not> is_cont c"
  by (cases c) (auto simp: is_alnum_def)

lemma lower_char_fixed: "\<not> is_upper c \<Longrightarrow> lower_char c = c"
  by (cases c) auto

lemma identifier_char_ok: "identifier_char c = Some d \<Longrightarrow> identifier_ok d"
  using lower_char_not_upper [of c] by (auto simp: identifier_char_def Let_def identifier_ok_def split: if_splits)

lemma identifier_char_fixed: "identifier_ok d \<Longrightarrow> identifier_char d = Some d"
  using alnum_starts [of d] lower_char_fixed [of d] by (auto simp: identifier_char_def Let_def identifier_ok_def)

lemma identifier_chars_ok: "list_all identifier_ok (filter_map identifier_char s)"
  by (induction s) (auto split: option.splits dest: identifier_char_ok)

lemma identifier_chars_fixed: "list_all identifier_ok s \<Longrightarrow> filter_map identifier_char s = s"
  by (induction s) (auto simp: identifier_char_fixed)

lemma trim_matches_ends:
  "trim_matches d s = [] \<or> hd (trim_matches d s) \<noteq> d \<and> last (trim_matches d s) \<noteq> d"
proof (cases "trim_matches d s")
  case (Cons c t)
  define u where "u = dropWhile (\<lambda>c. c = d) s"
  have m: "trim_matches d s = rev (dropWhile (\<lambda>c. c = d) (rev u))" by (simp add: trim_matches_def u_def)
  have some: "dropWhile (\<lambda>c. c = d) (rev u) \<noteq> []" "u \<noteq> []" using Cons m by auto
  obtain z where "rev u = z @ dropWhile (\<lambda>c. c = d) (rev u)" by (metis takeWhile_dropWhile_id)
  then have "u = trim_matches d s @ rev z" unfolding m by (metis rev_append rev_rev_ident)
  then have "hd u = hd (trim_matches d s)" using Cons by (metis hd_append2 list.distinct(1))
  moreover have "hd u \<noteq> d" using some(2) hd_dropWhile [of "\<lambda>c. c = d" s] unfolding u_def by blast
  moreover have "last (trim_matches d s) \<noteq> d"
    using hd_dropWhile [OF some(1)] some(1) by (simp add: m last_rev)
  ultimately show ?thesis by simp
qed simp

lemma dropWhile_hd: "s = [] \<or> hd s \<noteq> d \<Longrightarrow> dropWhile (\<lambda>c. c = d) s = s"
  by (cases s) auto

lemma trim_matches_fixed: "s = [] \<or> hd s \<noteq> d \<and> last s \<noteq> d \<Longrightarrow> trim_matches d s = s"
  using dropWhile_hd [of s d] dropWhile_hd [of "rev s" d] by (auto simp: trim_matches_def hd_rev)

lemma trim_matches_chars: "set (trim_matches d s) \<subseteq> set s"
  unfolding trim_matches_def by (metis set_rev set_dropWhileD subsetI)

lemma identifier_alphabet: "list_all identifier_ok (normalize_connection_identifier raw)"
  using identifier_chars_ok [of raw] trim_matches_chars
  unfolding normalize_connection_identifier_def list_all_iff by blast

lemma identifier_idem:
  "normalize_connection_identifier (normalize_connection_identifier raw) = normalize_connection_identifier raw"
proof -
  let ?v = "normalize_connection_identifier raw"
  have "normalize_connection_identifier ?v = trim_matches (CHR ''_'') ?v"
    by (subst normalize_connection_identifier_def) (simp only: identifier_chars_fixed [OF identifier_alphabet])
  also have "\<dots> = ?v"
    by (rule trim_matches_fixed) (unfold normalize_connection_identifier_def, rule trim_matches_ends)
  finally show ?thesis .
qed

interpretation connection_ids: normaliser normalize_connection_identifier
  by unfold_locales (rule identifier_idem)

text \<open>A writer and a reader who both normalise agree, whatever form each was given.\<close>

lemma identifier_rows:
  "(rows(normalize_connection_identifier k \<mapsto> v)) (normalize_connection_identifier k') =
     (if normalize_connection_identifier k = normalize_connection_identifier k' then Some v
      else rows (normalize_connection_identifier k'))"
  by (rule connection_ids.stored_lookup)

section \<open>Prompt lines cannot be forged\<close>

lemma split_ws_chars: "p \<in> set (split_ws_aux acc s) \<Longrightarrow> set p \<subseteq> set acc \<union> set s"
proof (induction acc s rule: split_ws_aux.induct)
  case (1 acc s)
  show ?case
  proof (cases "skip_ws ws2 ws3 s")
    case (Some t)
    then have "set t \<subseteq> set s" using skip_ws_suffix set_mono_suffix by blast
    moreover have "split_ws_aux acc s = (if acc = [] then [] else [rev acc]) @ split_ws_aux [] t"
      by (subst split_ws_aux.simps) (simp add: Some)
    ultimately show ?thesis using 1(2) [OF Some] 1(3) by (auto split: if_splits)
  next
    case None
    show ?thesis
    proof (cases s)
      case Nil
      then have "split_ws_aux acc s = (if acc = [] then [] else [rev acc])" by (subst split_ws_aux.simps) simp
      then show ?thesis using 1(3) by (auto split: if_splits)
    next
      case (Cons c t)
      have "split_ws_aux acc s = split_ws_aux (c # acc) t"
        using None by (subst split_ws_aux.simps) (simp add: Cons)
      then show ?thesis using 1(1) [OF None Cons] 1(3) by (auto simp: Cons)
    qed
  qed
qed

lemma join_chars: "set (join sep ps) \<subseteq> set sep \<union> \<Union> (set ` set ps)"
  by (induction sep ps rule: join.induct) auto

definition inert :: "char \<Rightarrow> bool" where
  "inert c \<longleftrightarrow> \<not> List.member [CHR 0x0A, CHR 0x0D, CHR 0x09, CHR ''|''] c"

lemma inert_flat: "inert (flatten_char c)"
  by (auto simp: flatten_char_def inert_def)

lemma sanitized_inert: "list_all inert (sanitize_prompt_value v)"
proof -
  have "set (sanitize_prompt_value v) \<subseteq> set '' '' \<union> flatten_char ` set v"
    using join_chars [of "'' ''"] split_ws_chars [of _ "[]" "map flatten_char v"]
    unfolding sanitize_prompt_value_def split_whitespace_def by fastforce
  moreover have "inert (CHR '' '')" by (simp add: inert_def)
  ultimately show ?thesis using inert_flat by (auto simp: list_all_iff)
qed

lemma sanitized_settled: "sanitize_prompt_value (sanitize_prompt_value v) = sanitize_prompt_value v"
proof -
  have "flatten_char c = c" if "inert c" for c using that by (auto simp: flatten_char_def inert_def)
  then have "map flatten_char (sanitize_prompt_value v) = sanitize_prompt_value v"
    using sanitized_inert [of v] by (auto simp: list_all_iff intro: map_idI)
  then have "sanitize_prompt_value (sanitize_prompt_value v) = join '' '' (split_whitespace (sanitize_prompt_value v))"
    by (simp only: sanitize_prompt_value_def)
  then show ?thesis by (simp add: sanitize_prompt_value_def split_join_split)
qed

lemma count_inert: "list_all inert s \<Longrightarrow> \<not> inert c \<Longrightarrow> count_list s c = 0"
  by (induction s) auto

lemma title_inert: "list_all inert s \<Longrightarrow> list_all inert (title_case s)"
proof (cases s)
  case (Cons c t)
  assume "list_all inert s"
  moreover have "inert (upper_char c)" if "inert c"
    using that by (cases c) (auto simp: inert_def)
  ultimately show ?thesis by (simp add: Cons)
qed simp

lemma fields_inert: "f \<in> set (identity_fields i) \<Longrightarrow> list_all inert f \<and> f \<noteq> []"
  by (auto simp: identity_fields_def shown_field_def Let_def sanitized_inert inert_def
      split: option.splits if_splits)

lemma count_join:
  "list_all (list_all inert) fs \<Longrightarrow> fs \<noteq> [] \<Longrightarrow> Suc (count_list (join '' | '' fs) (CHR ''|'')) = length fs"
  by (induction "'' | ''" fs rule: join.induct) (auto simp: count_inert inert_def)

lemma count_join_newline:
  "list_all (list_all inert) fs \<Longrightarrow> count_list (join '' | '' fs) (CHR 0x0A) = 0"
  by (induction "'' | ''" fs rule: join.induct) (auto simp: count_inert inert_def)

lemma line_newlines: "count_list (identity_line i) (CHR 0x0A) = 1"
proof -
  have none: "count_list s (CHR 0x0A) = 0" if "list_all inert s" for s
    using that by (rule count_inert) (simp add: inert_def)
  show ?thesis
    using count_join_newline [of "identity_fields i"] fields_inert [of _ i]
    by (simp add: identity_line_def none [OF sanitized_inert] none [OF title_inert [OF sanitized_inert]] list_all_iff)
qed

lemma line_bars: "identity_fields i \<noteq> [] \<Longrightarrow> Suc (count_list (identity_line i) (CHR ''|'')) = length (identity_fields i)"
proof -
  assume some: "identity_fields i \<noteq> []"
  have none: "count_list s (CHR ''|'') = 0" if "list_all inert s" for s
    using that by (rule count_inert) (simp add: inert_def)
  show ?thesis
    using count_join [of "identity_fields i"] some fields_inert [of _ i]
    by (simp add: identity_line_def none [OF sanitized_inert] none [OF title_inert [OF sanitized_inert]] list_all_iff)
qed

lemma line_end: "last (identity_line i) = CHR 0x0A"
  by (simp add: identity_line_def)

lemma heading_alone: "trim section_heading = ''## Connected Identities''"
  by code_simp

lemma heading_grown: "trim (section_heading @ CHR ''-'' # r) \<noteq> ''## Connected Identities''"
proof -
  have "prefix (CHR ''#'' # tl section_heading @ [CHR ''-'']) (trim (CHR ''#'' # tl section_heading @ CHR ''-'' # r))"
    by (rule trim_solid_prefix) (simp_all add: solid_def ws1_def)
  then show ?thesis by (auto simp: section_heading_def prefix_def)
qed

lemma section_shape:
  "render_connected_identities_section ids =
     (let shown = filter (\<lambda>i. identity_fields i \<noteq> []) ids in
      if shown = [] then [] else section_heading @ concat (map identity_line shown))"
proof (cases "filter (\<lambda>i. identity_fields i \<noteq> []) ids")
  case Nil
  then show ?thesis by (simp add: render_connected_identities_section_def heading_alone)
next
  case (Cons i shown)
  then have "ids \<noteq> []" by auto
  then show ?thesis
    using heading_grown by (simp add: render_connected_identities_section_def Cons identity_line_def)
qed

text \<open>
  C9. Provider text cannot forge prompt lines: the section is empty when no identity has anything
  to show, and otherwise the heading followed by one line per shown identity, in order; each line
  holds one newline, at its end, and exactly the separators between its own fields.
\<close>

theorem prompt_lines_not_forged:
  "let shown = filter (\<lambda>i. identity_fields i \<noteq> []) ids in
     render_connected_identities_section ids =
       (if shown = [] then [] else section_heading @ concat (map identity_line shown)) \<and>
     list_all (\<lambda>i. last (identity_line i) = CHR 0x0A \<and> count_list (identity_line i) (CHR 0x0A) = 1 \<and>
       Suc (count_list (identity_line i) (CHR ''|'')) = length (identity_fields i)) shown"
  using section_shape [of ids] by (simp add: Let_def line_end line_newlines line_bars list_all_iff)

theorem canonical_settled_witness:
  "canonicalize to_lower Email '' Ann@X.ORG '' = Some ''ann@x.org'' \<and>
   canonicalize to_lower Email ''ann@x.org'' = Some ''ann@x.org''"
proof -
  have c: "canonicalize to_lower Email '' Ann@X.ORG '' = Some ''ann@x.org''" by code_simp
  show ?thesis using c canonical_settled [OF ascii.lowercase_axioms c] by simp
qed

lemma kind_round: "parse_kind (kind_name k) = Some k"
  by (cases k) (simp_all add: parse_kind_def)

interpretation kinds: codec kind_name parse_kind Some
  by unfold_locales (simp_all add: kind_round)

end
