(* ===== verification/Tasks.thy ===== *)
theory Tasks
  imports Json
begin

text \<open>
  Task queries: \<open>crates/tinyconnectors-bus/src/vocabulary/tasks.rs\<close> and
  \<open>vocabulary/task_sources.rs\<close>, and \<open>prepare_task_filter\<close> of
  \<open>crates/tinyconnectors/src/vocabulary/mod.rs\<close>. What the user configured per provider becomes
  one envelope; the module only applies the default cap to it.
\<close>

section \<open>Tasks\<close>

datatype task_kind = Generic | Issue | Pull_Request

fun task_kind_name :: "task_kind \<Rightarrow> str" where
  "task_kind_name Generic = ''generic''"
| "task_kind_name Issue = ''issue''"
| "task_kind_name Pull_Request = ''pull_request''"

datatype github_fetch_mode = Auto_Fetch | Composio_Fetch | Local_Fetch

record task_fetch_filter =
  ff_assignee_is_me :: bool
  ff_github_fetch_mode :: github_fetch_mode
  ff_repo :: "str option"
  ff_labels :: "str list"
  ff_state :: "str option"
  ff_database_id :: "str option"
  ff_status :: "str option"
  ff_team_id :: "str option"
  ff_list_id :: "str option"
  ff_extra :: json
  ff_max :: "32 word"

definition default_filter :: task_fetch_filter where
  "default_filter =
     \<lparr>ff_assignee_is_me = False, ff_github_fetch_mode = Auto_Fetch, ff_repo = None, ff_labels = [],
      ff_state = None, ff_database_id = None, ff_status = None, ff_team_id = None, ff_list_id = None,
      ff_extra = JNull, ff_max = 0\<rparr>"

definition default_task_fetch_max :: nat where "default_task_fetch_max = 25"

definition effective_max :: "task_fetch_filter \<Rightarrow> nat" where
  "effective_max f = (if ff_max f = 0 then default_task_fetch_max else unat (ff_max f))"

record prepared_task_filter =
  pf_effective_max :: nat
  pf_filter :: task_fetch_filter

definition prepare_task_filter :: "task_fetch_filter \<Rightarrow> prepared_task_filter" where
  "prepare_task_filter f = \<lparr>pf_effective_max = effective_max f, pf_filter = f\<rparr>"

section \<open>Task sources\<close>

datatype provider_slug = Github | Notion | Linear | Clickup

fun provider_slug_name :: "provider_slug \<Rightarrow> str" where
  "provider_slug_name Github = ''github''"
| "provider_slug_name Notion = ''notion''"
| "provider_slug_name Linear = ''linear''"
| "provider_slug_name Clickup = ''clickup''"

definition parse_provider_slug :: "str \<Rightarrow> str + provider_slug" where
  "parse_provider_slug raw =
     (let other = to_lower (trim raw) in
      if other = ''github'' then Inr Github
      else if other = ''notion'' then Inr Notion
      else if other = ''linear'' then Inr Linear
      else if other = ''clickup'' then Inr Clickup
      else Inl (''unknown task source provider '' @ [CHR 0x27] @ other @ [CHR 0x27] @
        '' (expected github|notion|linear|clickup)''))"

text \<open>The fields of each variant in the order the source declares them.\<close>

datatype filter_spec =
    Github_Filter "str option" "str list" bool "str option" github_fetch_mode json
  | Notion_Filter "str option" bool "str option" json
  | Linear_Filter "str option" bool "str option" json
  | Clickup_Filter "str option" "str option" bool json

fun spec_provider :: "filter_spec \<Rightarrow> provider_slug" where
  "spec_provider (Github_Filter repo labels mine state fetch_mode extra) = Github"
| "spec_provider (Notion_Filter database_id mine status extra) = Notion"
| "spec_provider (Linear_Filter team_id mine state extra) = Linear"
| "spec_provider (Clickup_Filter team_id list_id mine extra) = Clickup"

fun to_fetch_filter :: "filter_spec \<Rightarrow> 32 word \<Rightarrow> task_fetch_filter" where
  "to_fetch_filter (Github_Filter repo labels mine state fetch_mode extra) cap =
     default_filter\<lparr>ff_assignee_is_me := mine, ff_github_fetch_mode := fetch_mode, ff_repo := repo,
       ff_labels := labels, ff_state := state, ff_extra := extra, ff_max := cap\<rparr>"
| "to_fetch_filter (Notion_Filter database_id mine status extra) cap =
     default_filter\<lparr>ff_assignee_is_me := mine, ff_database_id := database_id, ff_status := status,
       ff_extra := extra, ff_max := cap\<rparr>"
| "to_fetch_filter (Linear_Filter team_id mine state extra) cap =
     default_filter\<lparr>ff_assignee_is_me := mine, ff_team_id := team_id, ff_state := state,
       ff_extra := extra, ff_max := cap\<rparr>"
| "to_fetch_filter (Clickup_Filter team_id list_id mine extra) cap =
     default_filter\<lparr>ff_assignee_is_me := mine, ff_team_id := team_id, ff_list_id := list_id,
       ff_extra := extra, ff_max := cap\<rparr>"

datatype source_target = Agent_Todo_Proactive | Todo_Only

datatype fetch_reason = Connection_Created | Periodic | Manual

fun fetch_reason_name :: "fetch_reason \<Rightarrow> str" where
  "fetch_reason_name Connection_Created = ''connection_created''"
| "fetch_reason_name Periodic = ''periodic''"
| "fetch_reason_name Manual = ''manual''"

section \<open>Laws\<close>

lemma slug_name_settled: "to_lower (trim (provider_slug_name p)) = provider_slug_name p"
proof -
  have "list_all (\<lambda>p. to_lower (trim (provider_slug_name p)) = provider_slug_name p) [Github, Notion, Linear, Clickup]"
    by code_simp
  then show ?thesis by (cases p) simp_all
qed

lemma slug_round: "parse_provider_slug (provider_slug_name p) = Inr p"
  using slug_name_settled [of p] by (cases p) (simp_all add: parse_provider_slug_def)

interpretation provider_slugs: codec provider_slug_name parse_provider_slug Inr
  by unfold_locales (simp_all add: slug_round)

text \<open>A slug parses exactly when its lowercased, trimmed text is the name of a provider.\<close>

lemma slug_parse_iff: "parse_provider_slug raw = Inr p \<longleftrightarrow> to_lower (trim raw) = provider_slug_name p"
  by (cases p) (auto simp: parse_provider_slug_def Let_def)

text \<open>The text a query carries for a provider that does not read it is never set.\<close>

fun foreign_fields :: "provider_slug \<Rightarrow> task_fetch_filter \<Rightarrow> str option list" where
  "foreign_fields Github f = [ff_database_id f, ff_status f, ff_team_id f, ff_list_id f]"
| "foreign_fields Notion f = [ff_repo f, ff_state f, ff_team_id f, ff_list_id f]"
| "foreign_fields Linear f = [ff_repo f, ff_database_id f, ff_status f, ff_list_id f]"
| "foreign_fields Clickup f = [ff_repo f, ff_state f, ff_database_id f, ff_status f]"

lemma foreign_unset: "set (foreign_fields (spec_provider spec) (to_fetch_filter spec cap)) \<subseteq> {None}"
  by (cases spec) (simp_all add: default_filter_def)

lemma github_only_fields:
  "spec_provider spec \<noteq> Github \<Longrightarrow>
     ff_labels (to_fetch_filter spec cap) = [] \<and> ff_github_fetch_mode (to_fetch_filter spec cap) = Auto_Fetch"
  by (cases spec) (simp_all add: default_filter_def)

text \<open>Within one provider nothing the user configured is lost.\<close>

lemma fetch_filter_faithful:
  "spec_provider a = spec_provider b \<Longrightarrow> to_fetch_filter a c = to_fetch_filter b d \<longleftrightarrow> a = b \<and> c = d"
  by (cases a; cases b) (auto simp: default_filter_def)

lemma effective_max_bounds: "0 < effective_max f \<and> effective_max f < 2 ^ 32"
  using unsigned_less [of "ff_max f", where 'a = nat] by (auto simp: effective_max_def default_task_fetch_max_def unat_gt_0)

text \<open>Applying the cap a second time, as a host that sends the prepared cap back would, changes nothing.\<close>

lemma prepared_cap_settled:
  "effective_max (f\<lparr>ff_max := of_nat (effective_max f)\<rparr>) = effective_max f"
proof -
  have "unat (of_nat (effective_max f) :: 32 word) = effective_max f"
    using effective_max_bounds [of f] by (simp add: unsigned_of_nat take_bit_nat_eq_self)
  moreover have "(of_nat (effective_max f) :: 32 word) \<noteq> 0"
    using calculation effective_max_bounds [of f] by (metis unat_0 less_irrefl)
  ultimately show ?thesis by (simp add: effective_max_def [of "f\<lparr>ff_max := _\<rparr>"])
qed

end
