(* ===== verification/Storage_Grant.thy ===== *)
theory Storage_Grant
  imports Migration_Laws
begin

text \<open>
  The storage the module asks for, \<open>storage_needs\<close> of
  \<open>crates/tinyconnectors-bus/src/storage/mod.rs\<close>, is all its migration uses: nothing it does
  depends on, or reaches, a collection or a stream outside.
\<close>

definition needed_collections :: "str list" where
  "needed_collections = [prefs_namespace, migrations_namespace, legacy_prefs_namespace]"

definition needed_stream_prefixes :: "str list" where
  "needed_stream_prefixes = [stream_prefix, legacy_stream_prefix]"

definition granted_collection :: "str \<Rightarrow> bool" where
  "granted_collection c \<longleftrightarrow> List.member needed_collections c"

definition granted_stream :: "str \<Rightarrow> bool" where
  "granted_stream st \<longleftrightarrow> list_ex (\<lambda>p. prefix p st) needed_stream_prefixes"

text \<open>Two ports that answer alike, and act alike, on everything granted.\<close>

definition agree :: "'s migration_port \<Rightarrow> 's migration_port \<Rightarrow> bool" where
  "agree mp mq \<longleftrightarrow>
     (\<forall>c. granted_collection c \<longrightarrow>
        mp_get mp c = mp_get mq c \<and> mp_put mp c = mp_put mq c \<and> mp_delete mp c = mp_delete mq c \<and>
        mp_query mp c = mp_query mq c) \<and>
     (\<forall>p. List.member needed_stream_prefixes p \<longrightarrow> mp_streams mp p = mp_streams mq p) \<and>
     (\<forall>st. granted_stream st \<longrightarrow>
        mp_len mp st = mp_len mq st \<and> mp_read_window mp st = mp_read_window mq st \<and>
        mp_append_if mp st = mp_append_if mq st)"

lemma agree_sym: "agree mp mq \<Longrightarrow> agree mq mp"
  unfolding agree_def by (metis (no_types))

lemma granted_names:
  "granted_collection prefs_namespace" "granted_collection migrations_namespace"
  "granted_collection legacy_prefs_namespace"
  by (simp_all add: granted_collection_def needed_collections_def)

lemma agree_documents:
  assumes "agree mp mq"
  shows "mp_get mp prefs_namespace = mp_get mq prefs_namespace"
    "mp_get mp migrations_namespace = mp_get mq migrations_namespace"
    "mp_get mp legacy_prefs_namespace = mp_get mq legacy_prefs_namespace"
    "mp_put mp prefs_namespace = mp_put mq prefs_namespace"
    "mp_put mp migrations_namespace = mp_put mq migrations_namespace"
    "mp_delete mp prefs_namespace = mp_delete mq prefs_namespace"
    "mp_query mp legacy_prefs_namespace = mp_query mq legacy_prefs_namespace"
    "mp_streams mp legacy_stream_prefix = mp_streams mq legacy_stream_prefix"
  using assms granted_names by (simp_all add: agree_def needed_stream_prefixes_def)

lemma agree_streams:
  assumes "agree mp mq" "granted_stream st"
  shows "mp_len mp st = mp_len mq st" "mp_read_window mp st = mp_read_window mq st"
    "mp_append_if mp st = mp_append_if mq st"
  using assms by (simp_all add: agree_def)

section \<open>Each part of the migration\<close>

lemma marks_agree:
  assumes "agree mp mq"
  shows "migration_done mp step = migration_done mq step" "mark_done mp step = mark_done mq step"
  unfolding migration_done_def mark_done_def agree_documents [OF assms] by (rule refl)+

text \<open>A loop that ends over one port ends alike over the other; each is the other way round, too.\<close>

lemma follow_within:
  assumes agree: "agree mp mq" and run: "follow_source mp i v r s = Some x"
  shows "follow_source mq i v r s = Some x"
proof -
  define P where "P = (\<lambda>m i v r s x. m = mp \<longrightarrow> follow_source mq i v r s = Some x)"
  note eq = agree_documents [OF agree]
  have drop: "drop_target mp = drop_target mq" unfolding drop_target_def eq by (rule refl)
  have put: "put_preference mp = put_preference mq" unfolding put_preference_def fun_eq_iff eq by simp
  have "P mp i v r s x"
  proof (rule follow_source.raw_induct [where P = P, OF _ run])
    fix f m i v r s and x :: "(storage_error + unit) \<times> 'a"
    assume IH: "\<And>m i v r s x. f m i v r s = Some x \<Longrightarrow> P m i v r s x"
      and body: "(case mp_get m legacy_prefs_namespace (vr_id r) s of (found, s1) \<Rightarrow>
          (case found of Inl e \<Rightarrow> Some (Inl e, s1)
           | Inr row \<Rightarrow> (case row of None \<Rightarrow> Some (drop_target m i v s1)
             | Some latest \<Rightarrow>
                 (if unmoved latest r then Some (Inr (), s1)
                  else (case put_preference m i (preference_body latest) (vr_expires latest) (Pre_version v) s1 of
                      (written, s2) \<Rightarrow>
                        (case written of
                           Inr version \<Rightarrow> f m i version latest s2
                         | Inl e \<Rightarrow> Some (if se_kind e = Conflict_kind then Inr () else Inl e, s2))))))) = Some x"
    show "P m i v r s x"
      unfolding P_def
    proof
      assume m: "m = mp"
      have step: "follow_source mq i version latest s2 = Some x" if "f m i version latest s2 = Some x" for version latest s2
        using IH [OF that] m by (simp add: P_def)
      show "follow_source mq i v r s = Some x"
        using body unfolding m eq drop put
        by (subst follow_source.simps)
          (auto simp: m intro: step split: prod.splits sum.splits option.splits if_splits)
    qed
  qed
  then show ?thesis by (simp add: P_def)
qed

lemma follow_agree: "agree mp mq \<Longrightarrow> follow_source mp = follow_source mq"
  unfolding fun_eq_iff using follow_within agree_sym by (metis option.exhaust)

lemma preference_agree:
  assumes "agree mp mq"
  shows "migrate_preference mp = migrate_preference mq"
proof -
  have "put_preference mp = put_preference mq"
    unfolding put_preference_def fun_eq_iff agree_documents [OF assms] by simp
  then show ?thesis
    unfolding migrate_preference_def fun_eq_iff follow_agree [OF assms] agree_documents [OF assms] by simp
qed

lemma page_agree: "agree mp mq \<Longrightarrow> migrate_page key mp rows = migrate_page key mq rows"
  by (induction rows) (simp_all add: preference_agree split: sum.split)

lemma pages_within:
  assumes agree: "agree mp mq" and run: "migrate_pages key mp cursor s = Some x"
  shows "migrate_pages key mq cursor s = Some x"
proof -
  define P where "P = (\<lambda>k m cursor s x. k = key \<longrightarrow> m = mp \<longrightarrow> migrate_pages key mq cursor s = Some x)"
  have "P key mp cursor s x"
  proof (rule migrate_pages.raw_induct [where P = P, OF _ run])
    fix f k m cursor s and x :: "(storage_error + unit) \<times> 'a"
    assume IH: "\<And>k m cursor s x. f k m cursor s = Some x \<Longrightarrow> P k m cursor s x"
      and body: "(case mp_query m legacy_prefs_namespace page_size cursor s of (answer, s1) \<Rightarrow>
          (case answer of Inl e \<Rightarrow> Some (Inl e, s1)
           | Inr page \<Rightarrow>
               (if fst page = [] then Some (Inr (), s1)
                else Option.bind (migrate_page k m (fst page) s1) (\<lambda>done.
                    case fst done of
                      Inl e \<Rightarrow> Some (Inl e, snd done)
                    | Inr u \<Rightarrow> (case snd page of
                        None \<Rightarrow> Some (Inr (), snd done)
                      | Some next \<Rightarrow> f k m (Some next) (snd done)))))) = Some x"
    show "P k m cursor s x"
      unfolding P_def
    proof (intro impI)
      assume k: "k = key" and m: "m = mp"
      have step: "migrate_pages key mq c s2 = Some x" if "f key mp c s2 = Some x" for c s2
        using IH that k m by (auto simp: P_def)
      show "migrate_pages key mq cursor s = Some x"
        using body unfolding k m agree_documents [OF agree] page_agree [OF agree]
        by (subst migrate_pages.simps)
          (auto intro: step split: prod.splits sum.splits option.splits if_splits Option.bind_splits)
    qed
  qed
  then show ?thesis by (simp add: P_def)
qed

lemma preferences_agree: "agree mp mq \<Longrightarrow> migrate_preferences key mp = migrate_preferences key mq"
  unfolding migrate_preferences_def fun_eq_iff using pages_within agree_sym by (metis option.exhaust)

section \<open>Streams\<close>

lemma granted_days: "granted_stream (stream_prefix @ day)" "granted_stream (legacy_stream_prefix @ day)"
  by (simp_all add: granted_stream_def needed_stream_prefixes_def)

lemma verify_agree:
  assumes "agree mp mq" "granted_stream source" "granted_stream target"
  shows "verify_copied mp source target n k s = verify_copied mq source target n k s"
proof -
  note eq = agree_streams(2) [OF assms(1,2)] agree_streams(2) [OF assms(1,3)]
  show ?thesis
  proof (induction "n - k" arbitrary: k s rule: less_induct)
    case less
    show ?case
    proof (cases "n \<le> k")
      case False
      then have "n - (k + min (n - k) page_size) < n - k" by (simp add: page_size_def)
      then have rest: "verify_copied mp source target n (k + min (n - k) page_size) =
          verify_copied mq source target n (k + min (n - k) page_size)"
        by (intro ext less)
      show ?thesis
        unfolding verify_copied.simps [of mp source target n k s] verify_copied.simps [of mq source target n k s]
          Let_def eq rest
        by (rule refl)
    qed (simp add: verify_copied.simps [of _ source target n k s])
  qed
qed

lemma append_agree:
  assumes "agree mp mq" "granted_stream target"
  shows "append_page mp target = append_page mq target"
  unfolding append_page_def agree_streams [OF assms] by (rule refl)

lemma copy_within:
  assumes agree: "agree mp mq" and grant: "granted_stream source" "granted_stream target"
    and run: "copy_stream mp source target n k s = Some x"
  shows "copy_stream mq source target n k s = Some x"
proof -
  define P where "P = (\<lambda>m a b n k s x. m = mp \<longrightarrow> a = source \<longrightarrow> b = target \<longrightarrow>
    copy_stream mq source target n k s = Some x)"
  note eq = agree_streams [OF agree grant(1)] agree_streams [OF agree grant(2)] append_agree [OF agree grant(2)]
  have "P mp source target n k s x"
  proof (rule copy_stream.raw_induct [where P = P, OF _ run])
    fix f m a b n k s and x :: "(storage_error + unit) \<times> 'a"
    assume IH: "\<And>m a b n k s x. f m a b n k s = Some x \<Longrightarrow> P m a b n k s x"
      and body: "(if n \<le> k then Some (Inr (), s)
        else case bindO (mp_read_window m a k page_size) (\<lambda>vs.
               if vs = [] then failO (source_changed a)
               else bindO (append_page m b k vs) (\<lambda>_. mp_len m b)) s of
             (copied, s1) \<Rightarrow> (case copied of Inl e \<Rightarrow> Some (Inl e, s1) | Inr k1 \<Rightarrow> f m a b n k1 s1)) = Some x"
    show "P m a b n k s x"
      unfolding P_def
    proof (intro impI)
      assume m: "m = mp" "a = source" "b = target"
      have step: "copy_stream mq source target n k1 s1 = Some x" if "f mp source target n k1 s1 = Some x" for k1 s1
        using IH that m by (auto simp: P_def)
      show "copy_stream mq source target n k s = Some x"
        using body unfolding m eq
        by (subst copy_stream.simps) (auto intro: step split: prod.splits sum.splits if_splits)
    qed
  qed
  then show ?thesis by (simp add: P_def)
qed

lemma copy_agree:
  assumes "agree mp mq" "granted_stream source" "granted_stream target"
  shows "copy_stream mp source target = copy_stream mq source target"
  unfolding fun_eq_iff
  using copy_within [OF assms] copy_within [OF agree_sym [OF assms(1)] assms(2,3)] by (metis option.exhaust)

lemma stream_agree:
  assumes "agree mp mq"
  shows "migrate_stream mp source = migrate_stream mq source"
proof (cases "strip_prefix legacy_stream_prefix source")
  case None
  then show ?thesis by (simp add: migrate_stream_def)
next
  case (Some day)
  then have source: "source = legacy_stream_prefix @ day"
    by (auto simp: strip_prefix_def split: if_splits elim: prefixE)
  note src = granted_days(2) [of day, folded source] and tgt = granted_days(1) [of day]
  show ?thesis
    unfolding migrate_stream_def Some option.case Let_def agree_streams [OF assms src] agree_streams [OF assms tgt]
      copy_agree [OF assms src tgt] verify_agree [OF assms src tgt, THEN ext]
    by (rule refl)
qed

lemma streams_agree: "agree mp mq \<Longrightarrow> migrate_streams mp = migrate_streams mq"
proof -
  assume agree: "agree mp mq"
  have "migrate_each mp sources = migrate_each mq sources" for sources
    by (induction sources) (simp_all add: stream_agree [OF agree])
  then have "migrate_each mp = migrate_each mq" by blast
  then show ?thesis by (simp add: migrate_streams_def agree_documents [OF agree])
qed

text \<open>
  C30. Preparing the storage depends on, and reaches, nothing but the three collections and two
  stream prefixes the module declares as its needs: over two ports that agree on those it ends
  alike, in the same state and with the same result, or runs forever alike.
\<close>

theorem prepare_within_grant:
  assumes "agree mp mq"
  shows "prepare_storage key mp s = prepare_storage key mq s"
  unfolding prepare_storage_def run_step_def marks_agree [OF assms] preferences_agree [OF assms] streams_agree [OF assms]
  by (rule refl)

text \<open>A store that refuses everything the module did not declare.\<close>

definition walled :: "'s migration_port \<Rightarrow> 's migration_port" where
  "walled mp =
     \<lparr>mp_get = (\<lambda>c. if granted_collection c then mp_get mp c else (\<lambda>i s. (Inl (storage_invalid ''not granted''), s))),
       mp_put = (\<lambda>c. if granted_collection c then mp_put mp c
         else (\<lambda>i body pre sch expires s. (Inl (storage_invalid ''not granted''), s))),
       mp_delete = (\<lambda>c. if granted_collection c then mp_delete mp c
         else (\<lambda>i pre s. (Inl (storage_invalid ''not granted''), s))),
       mp_query = (\<lambda>c. if granted_collection c then mp_query mp c
         else (\<lambda>n cursor s. (Inl (storage_invalid ''not granted''), s))),
       mp_streams = (\<lambda>p. if List.member needed_stream_prefixes p then mp_streams mp p
         else (\<lambda>s. (Inl (storage_invalid ''not granted''), s))),
       mp_len = (\<lambda>st. if granted_stream st then mp_len mp st else (\<lambda>s. (Inl (storage_invalid ''not granted''), s))),
       mp_read_window = (\<lambda>st. if granted_stream st then mp_read_window mp st
         else (\<lambda>i n s. (Inl (storage_invalid ''not granted''), s))),
       mp_append_if = (\<lambda>st. if granted_stream st then mp_append_if mp st
         else (\<lambda>n vs s. (Inl (storage_invalid ''not granted''), s)))\<rparr>"

lemma walled_agrees: "agree (walled mp) mp"
  by (simp add: agree_def walled_def)

theorem prepare_within_grant_witness:
  "prepare_storage Inr (walled one_day) before_open = prepare_storage Inr one_day before_open"
  by (rule prepare_within_grant [OF walled_agrees])

end
