(* ===== verification/Fetch_Race.thy ===== *)
theory Fetch_Race
  imports Service_Contracts
begin

text \<open>
  Concurrent callers of \<open>toolkit_contracts\<close> in
  \<open>crates/tinyconnectors/src/tinybus_module/contracts.rs\<close>: the look into the cache, the wait for
  the toolkit's lock, the second look under the lock, the fetch and the store are steps of their
  own, and the steps of any number of callers interleave. The lock is the one of \<open>fetch_lock\<close>, a
  mutex that one caller holds at a time and whose guard is dropped with the call.
\<close>

datatype caller =
    Looking
  | Waiting
  | Checking
  | Fetching
  | Storing "tool_schema list"
  | Answered "str + tool_contract list"

fun holding :: "caller \<Rightarrow> bool" where
  "holding Checking = True"
| "holding Fetching = True"
| "holding (Storing listing) = True"
| "holding _ = False"

text \<open>The callers of one toolkit, the holder of its lock and how many listings were fetched.\<close>

record ('e, 'y) race =
  rc_svc :: "('e, 'y) svc"
  rc_holder :: "nat option"
  rc_callers :: "nat \<Rightarrow> caller"
  rc_fetched :: nat

definition view :: "('p, 'e, 'y) host \<Rightarrow> str \<Rightarrow> ('e, 'y) svc \<Rightarrow> tool_contract list option" where
  "view ho key s = cached_catalog (clock_now ho s) (sv_caches s) key"

text \<open>Nothing expires and nothing forgets: the cache still answers alike for this toolkit.\<close>

definition same_view :: "('p, 'e, 'y) host \<Rightarrow> str \<Rightarrow> ('e, 'y) svc \<Rightarrow> ('e, 'y) svc \<Rightarrow> bool" where
  "same_view ho key s s' \<longleftrightarrow> view ho key s' = view ho key s \<and> cc_ttl (sv_caches s') = cc_ttl (sv_caches s)"

fun first_look :: "tool_contract list option \<Rightarrow> caller" where
  "first_look None = Waiting"
| "first_look (Some cached) = Answered (Inr cached)"

fun second_look :: "tool_contract list option \<Rightarrow> caller" where
  "second_look None = Fetching"
| "second_look (Some cached) = Answered (Inr cached)"

inductive race_step :: "('p, 'e, 'y) host \<Rightarrow> str \<Rightarrow> ('e, 'y) race \<Rightarrow> ('e, 'y) race \<Rightarrow> bool" for ho key where
  look:
    "rc_callers x i = Looking \<Longrightarrow> catalog_lookup ho key (rc_svc x) = (Inr found, s) \<Longrightarrow>
     race_step ho key x (x\<lparr>rc_svc := s, rc_callers := (rc_callers x)(i := first_look found)\<rparr>)"
| acquire:
    "rc_callers x i = Waiting \<Longrightarrow> rc_holder x = None \<Longrightarrow>
     race_step ho key x (x\<lparr>rc_holder := Some i, rc_callers := (rc_callers x)(i := Checking)\<rparr>)"
| check:
    "rc_callers x i = Checking \<Longrightarrow> catalog_lookup ho key (rc_svc x) = (Inr found, s) \<Longrightarrow>
     race_step ho key x (x\<lparr>rc_svc := s, rc_holder := (if found = None then rc_holder x else None),
       rc_callers := (rc_callers x)(i := second_look found)\<rparr>)"
| fetch:
    "rc_callers x i = Fetching \<Longrightarrow> catalog_fetch key (rc_svc x) = (Inr listing, s) \<Longrightarrow>
     same_view ho key (rc_svc x) s \<Longrightarrow>
     race_step ho key x (x\<lparr>rc_svc := s, rc_callers := (rc_callers x)(i := Storing listing),
       rc_fetched := Suc (rc_fetched x)\<rparr>)"
| fail:
    "rc_callers x i = Fetching \<Longrightarrow> catalog_fetch key (rc_svc x) = (Inl m, s) \<Longrightarrow>
     same_view ho key (rc_svc x) s \<Longrightarrow>
     race_step ho key x (x\<lparr>rc_svc := s, rc_holder := None, rc_callers := (rc_callers x)(i := Answered (Inl m))\<rparr>)"
| store:
    "rc_callers x i = Storing listing \<Longrightarrow> catalog_store ho key listing (rc_svc x) = (Inr (k, fetched), s) \<Longrightarrow>
     race_step ho key x (x\<lparr>rc_svc := s, rc_holder := None,
       rc_callers := (rc_callers x)(i := Answered (Inr fetched))\<rparr>)"
| elsewhere:
    "same_view ho key (rc_svc x) s \<Longrightarrow> race_step ho key x (x\<lparr>rc_svc := s\<rparr>)"

section \<open>Laws\<close>

text \<open>
  The lock is held by exactly the caller between its second look and its answer; a listing is in
  hand only while the cache has none, and every answer is what the cache holds.
\<close>

fun in_hand :: "caller \<Rightarrow> nat" where
  "in_hand (Storing listing) = 1"
| "in_hand _ = 0"

definition orderly :: "('p, 'e, 'y) host \<Rightarrow> str \<Rightarrow> ('e, 'y) race \<Rightarrow> bool" where
  "orderly ho key x \<longleftrightarrow>
     0 < cc_ttl (sv_caches (rc_svc x)) \<and>
     (\<forall>i. holding (rc_callers x i) = (rc_holder x = Some i)) \<and>
     (\<forall>i c. rc_callers x i = Answered (Inr c) \<longrightarrow> view ho key (rc_svc x) = Some c) \<and>
     (case view ho key (rc_svc x) of
        None \<Rightarrow> rc_fetched x = (case rc_holder x of None \<Rightarrow> 0 | Some i \<Rightarrow> in_hand (rc_callers x i))
      | Some c \<Rightarrow> rc_fetched x \<le> 1 \<and>
          (case rc_holder x of None \<Rightarrow> True | Some i \<Rightarrow> rc_callers x i = Checking))"

lemma orderlyD:
  assumes "orderly ho key x"
  shows "0 < cc_ttl (sv_caches (rc_svc x))"
    and "holding (rc_callers x i) = (rc_holder x = Some i)"
    and "rc_callers x i = Answered (Inr c) \<Longrightarrow> view ho key (rc_svc x) = Some c"
    and "view ho key (rc_svc x) = None \<Longrightarrow>
      rc_fetched x = (case rc_holder x of None \<Rightarrow> 0 | Some i \<Rightarrow> in_hand (rc_callers x i))"
    and "view ho key (rc_svc x) = Some c \<Longrightarrow> rc_fetched x \<le> 1 \<and>
      (case rc_holder x of None \<Rightarrow> True | Some i \<Rightarrow> rc_callers x i = Checking)"
  using assms by (auto simp: orderly_def)

lemma lookup_view: "catalog_lookup ho key s = (Inr found, s') \<longleftrightarrow> found = view ho key s \<and> s' = s"
  by (auto simp: catalog_lookup_def view_def)

lemma store_view:
  assumes "catalog_store ho key listing s = (Inr (k, fetched), s')" "0 < cc_ttl (sv_caches s)"
  shows "view ho key s' = Some fetched \<and> cc_ttl (sv_caches s') = cc_ttl (sv_caches s)"
  using assms
  by (auto simp: catalog_store_def Let_def view_def cached_catalog_def remember_catalog_def clock_now_def
      ttl_get_def ttl_insert_def)

lemma orderly_start:
  "0 < cc_ttl (sv_caches s) \<Longrightarrow>
     orderly ho key \<lparr>rc_svc = s, rc_holder = None, rc_callers = (\<lambda>_. Looking), rc_fetched = 0\<rparr>"
  by (simp add: orderly_def split: option.split)

text \<open>A caller past its second look holds the lock, and the cache has nothing for it.\<close>

lemma past_second_look:
  assumes "orderly ho key x" "holding (rc_callers x i)" "rc_callers x i \<noteq> Checking"
  shows "rc_holder x = Some i \<and> view ho key (rc_svc x) = None"
  using orderlyD(2,5) [OF assms(1)] assms(2,3) by (cases "view ho key (rc_svc x)") auto

lemma orderly_step:
  assumes "race_step ho key x x'" "orderly ho key x"
  shows "orderly ho key x'"
  using assms(1)
proof cases
  case (look i found s)
  then have f: "found = view ho key (rc_svc x)" and s: "s = rc_svc x" by (simp_all add: lookup_view)
  have n: "rc_holder x \<noteq> Some i" using orderlyD(2) [OF assms(2), of i] look by auto
  show ?thesis
    using assms(2) n unfolding look(1) f s orderly_def
    by (cases "view ho key (rc_svc x)") (auto split: option.splits)
next
  case (acquire i)
  then show ?thesis using assms(2) unfolding orderly_def by (auto split: option.splits)
next
  case (check i found s)
  then have f: "found = view ho key (rc_svc x)" and s: "s = rc_svc x" by (simp_all add: lookup_view)
  have n: "rc_holder x = Some i" using orderlyD(2) [OF assms(2), of i] check by auto
  show ?thesis
    using assms(2) n check(2) unfolding check(1) f s orderly_def
    by (cases "view ho key (rc_svc x)") (auto split: option.splits)
next
  case (fetch i listing s)
  show ?thesis using assms(2) past_second_look [OF assms(2), of i] fetch unfolding fetch(1) orderly_def same_view_def by auto
next
  case (fail i m s)
  show ?thesis using assms(2) past_second_look [OF assms(2), of i] fail unfolding fail(1) orderly_def same_view_def by auto
next
  case (store i listing k fetched s)
  have v: "view ho key s = Some fetched" "cc_ttl (sv_caches s) = cc_ttl (sv_caches (rc_svc x))"
    using store_view [OF store(3)] orderlyD(1) [OF assms(2)] by blast+
  show ?thesis using assms(2) past_second_look [OF assms(2), of i] v store(2) unfolding store(1) orderly_def by auto
next
  case (elsewhere s)
  show ?thesis using assms(2) elsewhere(2) unfolding elsewhere(1) orderly_def same_view_def
    by (auto split: option.splits)
qed

lemma orderly_reachable:
  "(race_step ho key)\<^sup>*\<^sup>* x x' \<Longrightarrow> orderly ho key x \<Longrightarrow> orderly ho key x'"
  by (induction rule: rtranclp_induct) (auto intro: orderly_step)

text \<open>
  C13. Concurrent misses share one fetch. Over any interleaving of any number of callers of one
  toolkit, while no cache entry expires and no one forgets it, at most one listing is fetched
  however many callers found the cache empty, at most one caller at a time is past the lock, and
  every caller answered with contracts is answered with the same ones.
\<close>

theorem misses_share_fetch:
  assumes "(race_step ho key)\<^sup>*\<^sup>* \<lparr>rc_svc = s, rc_holder = None, rc_callers = (\<lambda>_. Looking), rc_fetched = 0\<rparr> x"
    and "0 < cc_ttl (sv_caches s)"
  shows "rc_fetched x \<le> 1 \<and> card {i. holding (rc_callers x i)} \<le> 1 \<and>
    (\<exists>c. \<forall>i. case rc_callers x i of Answered (Inr c') \<Rightarrow> c' = c | _ \<Rightarrow> True)"
proof -
  have o: "orderly ho key x" by (rule orderly_reachable [OF assms(1) orderly_start [OF assms(2)]])
  have "rc_fetched x \<le> 1"
    using orderlyD(4,5) [OF o]
    by (cases "view ho key (rc_svc x)"; cases "rc_holder x"; cases "rc_callers x (the (rc_holder x))") auto
  moreover have "{i. holding (rc_callers x i)} = set_option (rc_holder x)"
    using orderlyD(2) [OF o] by (auto simp: elem_set)
  then have "card {i. holding (rc_callers x i)} \<le> 1" by (cases "rc_holder x") simp_all
  moreover have "case rc_callers x i of Answered (Inr c') \<Rightarrow> c' = the (view ho key (rc_svc x)) | _ \<Rightarrow> True" for i
    using orderlyD(3) [OF o, of i] by (auto split: caller.split sum.split)
  ultimately show ?thesis by blast
qed

text \<open>A caller that runs alone runs the member.\<close>

lemma alone_reaches_fetch:
  assumes "rc_callers x i = Looking" "rc_holder x = None" "view ho key (rc_svc x) = None"
  shows "\<exists>x'. (race_step ho key)\<^sup>*\<^sup>* x x' \<and> rc_svc x' = rc_svc x \<and> rc_callers x' i = Fetching"
proof -
  have l: "catalog_lookup ho key (rc_svc x) = (Inr None, rc_svc x)" by (simp add: lookup_view assms(3))
  define x1 where "x1 = x\<lparr>rc_callers := (rc_callers x)(i := Waiting)\<rparr>"
  define x2 where "x2 = x1\<lparr>rc_holder := Some i, rc_callers := (rc_callers x1)(i := Checking)\<rparr>"
  define x3 where "x3 = x2\<lparr>rc_callers := (rc_callers x2)(i := Fetching)\<rparr>"
  have r: "race_step ho key x x1" "race_step ho key x1 x2" "race_step ho key x2 x3"
    using race_step.look [of x i, OF assms(1) l] race_step.acquire [of x1 i ho key]
      race_step.check [of x2 i ho key None "rc_svc x"] l assms(2)
    by (simp_all add: x1_def x2_def x3_def)
  have path: "(race_step ho key)\<^sup>*\<^sup>* x x3" using r by (meson converse_rtranclp_into_rtranclp rtranclp.rtrancl_refl)
  then show ?thesis by (intro exI [of _ x3]) (simp add: x1_def x2_def x3_def)
qed

lemma alone_is_member:
  assumes "rc_callers x i = Looking" "rc_holder x = None" "to_lower (trim key) = key" "key \<noteq> []"
    and "same_view ho key (rc_svc x) (snd (catalog_fetch key (rc_svc x)))"
  shows "\<exists>x'. (race_step ho key)\<^sup>*\<^sup>* x x' \<and> rc_svc x' = snd (toolkit_contracts ho key (rc_svc x)) \<and>
    rc_callers x' i = Answered (map_sum id snd (fst (toolkit_contracts ho key (rc_svc x))))"
proof (cases "view ho key (rc_svc x)")
  case (Some c)
  have l: "catalog_lookup ho key (rc_svc x) = (Inr (Some c), rc_svc x)" by (simp add: lookup_view Some)
  then have m: "toolkit_contracts ho key (rc_svc x) = (Inr (key, c), rc_svc x)"
    using assms(3,4) by (simp add: toolkit_contracts_def bindO_def retO_def)
  show ?thesis
    by (rule exI, rule conjI, rule r_into_rtranclp, rule race_step.look [of x i, OF assms(1) l])
      (simp add: m)
next
  case None
  have l: "catalog_lookup ho key (rc_svc x) = (Inr None, rc_svc x)" by (simp add: lookup_view None)
  obtain x3 where path: "(race_step ho key)\<^sup>*\<^sup>* x x3" and x3: "rc_svc x3 = rc_svc x" "rc_callers x3 i = Fetching"
    using alone_reaches_fetch [OF assms(1,2) None] by blast
  obtain r4 s4 where f: "catalog_fetch key (rc_svc x) = (r4, s4)" by fastforce
  have v: "same_view ho key (rc_svc x3) s4" using assms(5) f x3 by simp
  show ?thesis
  proof (cases r4)
    case (Inl e)
    then have m: "toolkit_contracts ho key (rc_svc x) = (Inl e, s4)"
      using assms(3,4) l f by (simp add: toolkit_contracts_def bindO_def)
    define x4 where "x4 = x3\<lparr>rc_svc := s4, rc_holder := None, rc_callers := (rc_callers x3)(i := Answered (Inl e))\<rparr>"
    have "race_step ho key x3 x4"
      using race_step.fail [of x3 i key e s4 ho] f x3 v Inl by (simp add: x4_def)
    with path have "(race_step ho key)\<^sup>*\<^sup>* x x4" by (rule rtranclp.rtrancl_into_rtrancl)
    then show ?thesis by (intro exI [of _ x4]) (simp add: x4_def m)
  next
    case (Inr listing)
    define x4 where "x4 = x3\<lparr>rc_svc := s4, rc_callers := (rc_callers x3)(i := Storing listing), rc_fetched := Suc (rc_fetched x3)\<rparr>"
    have r4: "race_step ho key x3 x4"
      using race_step.fetch [of x3 i key listing s4 ho] f x3 v Inr by (simp add: x4_def)
    obtain k fetched s5 where g: "catalog_store ho key listing s4 = (Inr (k, fetched), s5)"
      by (auto simp: catalog_store_def Let_def)
    have m: "toolkit_contracts ho key (rc_svc x) = (Inr (k, fetched), s5)"
      using assms(3,4) l f g Inr by (simp add: toolkit_contracts_def bindO_def)
    define x5 where "x5 = x4\<lparr>rc_svc := s5, rc_holder := None, rc_callers := (rc_callers x4)(i := Answered (Inr fetched))\<rparr>"
    have "race_step ho key x4 x5"
      using race_step.store [of x4 i listing ho key k fetched s5] g by (simp add: x4_def x5_def)
    with r4 path have "(race_step ho key)\<^sup>*\<^sup>* x x5" by (meson rtranclp.rtrancl_into_rtrancl)
    then show ?thesis by (intro exI [of _ x5]) (simp add: x5_def m)
  qed
qed

theorem misses_share_fetch_witness:
  "\<exists>x :: (unit, unit) race. rc_svc x = snd (toolkit_contracts (example_host nothing_saved) ''gmail''
        (connected_state [example_tool ''GMAIL_FETCH_EMAILS''] [] JNull)) \<and>
     rc_fetched x \<le> 1 \<and> card {i. holding (rc_callers x i)} \<le> 1"
proof -
  let ?ho = "example_host nothing_saved" and ?s = "connected_state [example_tool ''GMAIL_FETCH_EMAILS''] [] JNull"
  let ?x = "\<lparr>rc_svc = ?s, rc_holder = None, rc_callers = (\<lambda>_. Looking), rc_fetched = 0\<rparr>"
  have key: "to_lower (trim ''gmail'') = ''gmail''" by code_simp
  have quiet: "snd (catalog_fetch ''gmail'' ?s) = ?s"
    by (simp add: catalog_fetch_def forward_def bindO_def service_client_def connected_state_def acting_def
        client_list_tools_def example_route_def retA_def)
  then have "same_view ?ho ''gmail'' (rc_svc ?x) (snd (catalog_fetch ''gmail'' (rc_svc ?x)))"
    by (simp add: same_view_def)
  then obtain x where x: "(race_step ?ho ''gmail'')\<^sup>*\<^sup>* ?x x" "rc_svc x = snd (toolkit_contracts ?ho ''gmail'' ?s)"
    using alone_is_member [of ?x 0 "''gmail''" ?ho] key by auto
  have "0 < cc_ttl (sv_caches ?s)"
    by (simp add: connected_state_def example_state_def default_caches_def caches_with_ttl_def catalog_cache_ttl_def)
  from misses_share_fetch [OF x(1) this] x(2) show ?thesis by blast
qed

end
