(* ===== verification/Dispatch.thy ===== *)
theory Dispatch
  imports Service_Contracts Archive Identity Tasks
begin

text \<open>
  The module as its host sees it: the members of
  \<open>crates/tinyconnectors-bus/src/names/mod.rs\<close>, the dispatch of a request to the member of
  \<open>crates/tinyconnectors/src/tinybus_module/mod.rs\<close> that answers it, the restricted instance of
  \<open>tinybus_module/restricted.rs\<close>, and the version rule of
  \<open>crates/tinyconnectors-bus/src/version/mod.rs\<close>. A member runs to its end before the next starts.
\<close>

section \<open>Version\<close>

definition contract_version :: "nat \<times> nat" where "contract_version = (1, 22)"

fun binds :: "nat \<times> nat \<Rightarrow> nat \<times> nat \<Rightarrow> bool" where
  "binds (host_major, host_minor) (module_major, module_minor) =
     (module_major = host_major \<and> host_minor \<le> module_minor)"

definition is_compatible :: "nat \<times> nat \<Rightarrow> bool" where
  "is_compatible m = binds contract_version m"

section \<open>Requests and replies\<close>

datatype (plugins only: code) request =
    Configure configure_request
  | List_Toolkits
  | List_Connections
  | Authorize str "json option"
  | Delete_Connection str
  | List_Tools "str list" "str list" bool
  | Get_User_Scopes str
  | Set_User_Scopes str scope_pref
  | Prepare_Arguments str "json option" "str option" "str option"
  | Filter_Response str execute_response str
  | Classify_Error str str
  | Record_Trigger str trigger_event
  | Open_Archive
  | Read_Archive str "nat option"
  | Close_Archive str
  | Execute str "json option" "str option"
  | List_Capabilities
  | List_Agent_Ready_Toolkits
  | Get_User_Profile str "str option"
  | Refresh_All_Identities
  | List_Github_Repos "str option"
  | List_Available_Triggers str "str option"
  | List_Triggers "str option"
  | Create_Trigger str "str option" "json option"
  | Enable_Trigger str str "json option"
  | Disable_Trigger str
  | List_Trigger_History "nat option"
  | List_Connections_Direct direct_credential
  | List_Tools_Direct direct_credential "str list" "str list"
  | Routed_Read call_route read_operation
  | Get_Vocabulary "str list"
  | List_Curated_Catalog "str option"
  | List_Visible_Tools str "scope_pref option"
  | Evaluate_Actions "action_request list"
  | Normalize_Identities "(identity_kind \<times> str) list" "str list" "connected_identity list"
  | Prepare_Task_Filter task_fetch_filter
  | Get_Tool_Contract str
  | List_Tool_Contracts str
  | Probe_Tool_Output str json
  | List_Connected_Integrations overview_mode
  | Runtime_Mode

fun member_name :: "request \<Rightarrow> str" where
  "member_name (Configure _) = ''Configure''"
| "member_name List_Toolkits = ''ListToolkits''"
| "member_name List_Connections = ''ListConnections''"
| "member_name (Authorize _ _) = ''Authorize''"
| "member_name (Delete_Connection _) = ''DeleteConnection''"
| "member_name (List_Tools _ _ _) = ''ListTools''"
| "member_name (Get_User_Scopes _) = ''GetUserScopes''"
| "member_name (Set_User_Scopes _ _) = ''SetUserScopes''"
| "member_name (Prepare_Arguments _ _ _ _) = ''PrepareArguments''"
| "member_name (Filter_Response _ _ _) = ''FilterResponse''"
| "member_name (Classify_Error _ _) = ''ClassifyError''"
| "member_name (Record_Trigger _ _) = ''RecordTrigger''"
| "member_name Open_Archive = ''OpenArchive''"
| "member_name (Read_Archive _ _) = ''ReadArchive''"
| "member_name (Close_Archive _) = ''CloseArchive''"
| "member_name (Execute _ _ _) = ''Execute''"
| "member_name List_Capabilities = ''ListCapabilities''"
| "member_name List_Agent_Ready_Toolkits = ''ListAgentReadyToolkits''"
| "member_name (Get_User_Profile _ _) = ''GetUserProfile''"
| "member_name Refresh_All_Identities = ''RefreshAllIdentities''"
| "member_name (List_Github_Repos _) = ''ListGithubRepos''"
| "member_name (List_Available_Triggers _ _) = ''ListAvailableTriggers''"
| "member_name (List_Triggers _) = ''ListTriggers''"
| "member_name (Create_Trigger _ _ _) = ''CreateTrigger''"
| "member_name (Enable_Trigger _ _ _) = ''EnableTrigger''"
| "member_name (Disable_Trigger _) = ''DisableTrigger''"
| "member_name (List_Trigger_History _) = ''ListTriggerHistory''"
| "member_name (List_Connections_Direct _) = ''ListConnectionsDirect''"
| "member_name (List_Tools_Direct _ _ _) = ''ListToolsDirect''"
| "member_name (Routed_Read _ _) = ''RoutedRead''"
| "member_name (Get_Vocabulary _) = ''GetVocabulary''"
| "member_name (List_Curated_Catalog _) = ''ListCuratedCatalog''"
| "member_name (List_Visible_Tools _ _) = ''ListVisibleTools''"
| "member_name (Evaluate_Actions _) = ''EvaluateActions''"
| "member_name (Normalize_Identities _ _ _) = ''NormalizeIdentities''"
| "member_name (Prepare_Task_Filter _) = ''PrepareTaskFilter''"
| "member_name (Get_Tool_Contract _) = ''GetToolContract''"
| "member_name (List_Tool_Contracts _) = ''ListToolContracts''"
| "member_name (Probe_Tool_Output _ _) = ''ProbeToolOutput''"
| "member_name (List_Connected_Integrations _) = ''ListConnectedIntegrations''"
| "member_name Runtime_Mode = ''RuntimeMode''"

definition methods :: "str list" where
  "methods =
     [''Configure'', ''ListToolkits'', ''ListConnections'', ''Authorize'', ''DeleteConnection'',
      ''ListTools'', ''GetUserScopes'', ''SetUserScopes'', ''PrepareArguments'', ''FilterResponse'',
      ''ClassifyError'', ''RecordTrigger'', ''OpenArchive'', ''ReadArchive'', ''CloseArchive'',
      ''Execute'', ''ListCapabilities'', ''ListAgentReadyToolkits'', ''GetUserProfile'',
      ''RefreshAllIdentities'', ''ListGithubRepos'', ''ListAvailableTriggers'', ''ListTriggers'',
      ''CreateTrigger'', ''EnableTrigger'', ''DisableTrigger'', ''ListTriggerHistory'',
      ''ListConnectionsDirect'', ''ListToolsDirect'', ''RoutedRead'', ''GetVocabulary'',
      ''ListCuratedCatalog'', ''ListVisibleTools'', ''EvaluateActions'', ''NormalizeIdentities'',
      ''PrepareTaskFilter'', ''GetToolContract'', ''ListToolContracts'', ''ProbeToolOutput'',
      ''ListConnectedIntegrations'', ''RuntimeMode'']"

datatype (plugins only: code) 'y reply =
    Configured str
  | Toolkits toolkits_response
  | Connections "connection list"
  | Authorized authorize_response
  | Deleted bool
  | Tools "tool_schema list"
  | User_Scopes "str \<times> scope_pref"
  | Prepared "provider_error + json"
  | Executed execute_response
  | Classified provider_error
  | Recorded history_entry
  | Archive_Handle str
  | History history_result
  | Closed
  | Capabilities "capability list"
  | Agent_Ready "str list"
  | Profile user_profile
  | Refreshed "user_profile list \<times> identity_failure list"
  | Github_Repos 'y
  | Available_Triggers "available_trigger list"
  | Active_Triggers "active_trigger list"
  | Created create_trigger_response
  | Enabled enable_trigger_response
  | Disabled bool
  | Routed "(toolkits_response, 'y) read_reply"
  | Vocabulary_Rows "toolkit_vocabulary list \<times> str list"
  | Curated "curated_tool list"
  | Visible visible_tools
  | Evaluated "action_response list"
  | Identities identities_response
  | Task_Filter prepared_task_filter
  | Contract "tool_contract option"
  | Tool_Contracts "str \<times> tool_contract list"
  | Probed probed_sample
  | Integrations "integration list"
  | Mode runtime_mode "nat \<times> nat"

section \<open>The full instance\<close>

text \<open>The state of a served instance, and what it finds around it.\<close>

record ('e, 'y) inst =
  in_svc :: "('e, 'y) svc"
  in_leases :: "'e stream_port leases"

record ('p, 'e, 'y) site =
  st_host :: "('p, 'e, 'y) host"
  st_lower :: "str \<Rightarrow> str"
  st_archive :: "'e archive_env"
  st_connect :: "('e, str, 'e stream_port) op"
  st_draw :: "'e \<Rightarrow> 128 word option \<times> 'e"

type_synonym ('e, 'y, 'a) served_op = "(('e, 'y) inst, str, 'a) op"

text \<open>A part's operation on the state of the instance.\<close>

definition on_svc :: "('a \<Rightarrow> 'y reply) \<Rightarrow> ('e, 'y, 'a) member \<Rightarrow> ('e, 'y, 'y reply) served_op" where
  "on_svc f m = (\<lambda>i. case m (in_svc i) of (r, s) \<Rightarrow> (map_sum id f r, i\<lparr>in_svc := s\<rparr>))"

definition on_world :: "('a \<Rightarrow> 'y reply) \<Rightarrow> ('e world, str, 'a) op \<Rightarrow> ('e, 'y, 'y reply) served_op" where
  "on_world f m = on_svc f (\<lambda>s. case m (sv_world s) of (r, w) \<Rightarrow> (r, s\<lparr>sv_world := w\<rparr>))"

definition on_env :: "('a \<Rightarrow> 'y reply) \<Rightarrow> ('e, str, 'a) op \<Rightarrow> ('e, 'y, 'y reply) served_op" where
  "on_env f m = on_svc f (storing m)"

definition on_archive :: "('a \<Rightarrow> 'y reply) \<Rightarrow> ('e, 'a) archive_member \<Rightarrow> ('e, 'y, 'y reply) served_op" where
  "on_archive f m = (\<lambda>i. case m (env (sv_world (in_svc i)), in_leases i) of
     (r, e, ls) \<Rightarrow> (map_sum id f r,
       i\<lparr>in_svc := (in_svc i)\<lparr>sv_world := (sv_world (in_svc i))\<lparr>env := e\<rparr>\<rparr>, in_leases := ls\<rparr>))"

fun dispatch :: "('p, 'e, 'y) site \<Rightarrow> request \<Rightarrow> ('e, 'y, 'y reply) served_op" where
  "dispatch st (Configure q) = on_svc Configured (configure (st_host st) q)"
| "dispatch st List_Toolkits = on_svc Toolkits (list_toolkits (st_host st))"
| "dispatch st List_Connections = on_svc Connections list_connections"
| "dispatch st (Authorize toolkit extra) = on_svc Authorized (service_authorize toolkit extra)"
| "dispatch st (Delete_Connection connid) = on_svc Deleted (delete_connection connid)"
| "dispatch st (List_Tools toolkits tags scoped) =
     on_svc Tools (list_tools (st_host st) toolkits tags scoped)"
| "dispatch st (Get_User_Scopes toolkit) = on_svc User_Scopes (get_user_scopes (st_host st) toolkit)"
| "dispatch st (Set_User_Scopes toolkit pref) =
     on_svc User_Scopes (set_user_scopes (st_host st) toolkit pref)"
| "dispatch st (Prepare_Arguments tool arguments zone since) =
     retO (Prepared (prepare_arguments (st_host st) tool arguments zone since))"
| "dispatch st (Filter_Response tool response since) =
     on_svc Executed (filter_response_member (st_host st) tool response since)"
| "dispatch st (Classify_Error tool message) = retO (Classified (classified tool message))"
| "dispatch st (Record_Trigger handle event) =
     on_archive Recorded (record_trigger (st_archive st) handle event)"
| "dispatch st Open_Archive = on_archive Archive_Handle (open_archive (st_connect st) (st_draw st))"
| "dispatch st (Read_Archive handle limit) =
     on_archive History (read_archive (st_archive st) handle limit)"
| "dispatch st (Close_Archive handle) = on_archive (\<lambda>_. Closed) (close_archive handle)"
| "dispatch st (Execute tool arguments connid) =
     on_svc Executed (execute_checked (st_host st) tool arguments connid)"
| "dispatch st List_Capabilities = retO (Capabilities (capabilities provider_registry))"
| "dispatch st List_Agent_Ready_Toolkits = retO (Agent_Ready (list_agent_ready (st_host st)))"
| "dispatch st (Get_User_Profile toolkit connid) =
     on_svc Profile (get_user_profile (st_host st) toolkit connid)"
| "dispatch st Refresh_All_Identities = on_svc Refreshed (refresh_all_identities (st_host st))"
| "dispatch st (List_Github_Repos connid) = on_svc Github_Repos (list_github_repos connid)"
| "dispatch st (List_Available_Triggers toolkit connid) =
     on_svc Available_Triggers (list_available_triggers toolkit connid)"
| "dispatch st (List_Triggers toolkit) = on_svc Active_Triggers (list_triggers toolkit)"
| "dispatch st (Create_Trigger slug connid config) = on_svc Created (create_trigger slug connid config)"
| "dispatch st (Enable_Trigger connid slug config) = on_svc Enabled (enable_trigger connid slug config)"
| "dispatch st (Disable_Trigger trigger_id) = on_svc Disabled (disable_trigger trigger_id)"
| "dispatch st (List_Trigger_History limit) =
     on_env History (list_trigger_history (st_archive st) (st_connect st) limit)"
| "dispatch st (List_Connections_Direct credential) =
     on_world Connections (list_connections_direct (ho_outside (st_host st)) credential)"
| "dispatch st (List_Tools_Direct credential toolkits tags) =
     on_world Tools (list_tools_direct (ho_outside (st_host st)) credential toolkits tags)"
| "dispatch st (Routed_Read rt operation) =
     on_world Routed (routed_read (ho_outside (st_host st)) rt operation)"
| "dispatch st (Get_Vocabulary toolkits) = retO (Vocabulary_Rows (vocabulary_member (st_host st) toolkits))"
| "dispatch st (List_Curated_Catalog toolkit) = retO (Curated (list_curated_catalog toolkit))"
| "dispatch st (List_Visible_Tools toolkit preference) =
     on_svc Visible (visible_tools_member (st_host st) toolkit preference)"
| "dispatch st (Evaluate_Actions actions) = retO (Evaluated (evaluate_actions actions))"
| "dispatch st (Normalize_Identities vs connections ids) =
     retO (Identities (normalize_identities (st_lower st) vs connections ids))"
| "dispatch st (Prepare_Task_Filter f) = retO (Task_Filter (prepare_task_filter f))"
| "dispatch st (Get_Tool_Contract slug) = on_svc Contract (contract_with_probe (st_host st) slug)"
| "dispatch st (List_Tool_Contracts toolkit) =
     on_svc Tool_Contracts (list_tool_contracts (st_host st) toolkit)"
| "dispatch st (Probe_Tool_Output slug args) = on_svc Probed (probe_output (st_host st) slug args)"
| "dispatch st (List_Connected_Integrations mode) =
     on_svc Integrations (connected_integrations (st_host st) mode)"
| "dispatch st Runtime_Mode = retO (Mode Classic contract_version)"

text \<open>What \<open>setup\<close> serves over an admitted route, which has counted no rejection yet.\<close>

definition fresh_instance :: "'e world \<Rightarrow> ('e, toolkits_response, 'y) route option \<Rightarrow> ('e, 'y) inst" where
  "fresh_instance w r =
     \<lparr>in_svc = \<lparr>sv_world = w\<lparr>gate := Map.empty\<rparr>, sv_client = r, sv_caches = default_caches\<rparr>, in_leases = []\<rparr>"

section \<open>The restricted instance\<close>

text \<open>It keeps nothing but the outside. A member it does not declare is not dispatched: \<open>None\<close>.\<close>

fun restricted_dispatch ::
  "('p, 'e, toolkits_response, 'y) outside \<Rightarrow> request \<Rightarrow> ('e world, str, 'y reply) op option" where
  "restricted_dispatch ou (Routed_Read rt operation) =
     Some (\<lambda>w. case routed_read ou rt operation w of (r, w') \<Rightarrow> (map_sum id Routed r, w'))"
| "restricted_dispatch ou Runtime_Mode = Some (retO (Mode Routed_Read_Only contract_version))"
| "restricted_dispatch ou List_Capabilities = Some (retO (Capabilities []))"
| "restricted_dispatch ou List_Agent_Ready_Toolkits =
     Some (retO (Agent_Ready (agent_ready_providers provider_registry)))"
| "restricted_dispatch ou _ = None"

end
