(* ===== verification/Payloads.thy ===== *)
theory Payloads
  imports Dispatch
begin

text \<open>
  What crosses the bus without the module computing with it, and the small conversions on the way:
  the host's identity shape of \<open>crates/tinyconnectors-bus/src/vocabulary/profile.rs\<close>, tasks and
  task containers of \<open>vocabulary/tasks.rs\<close>, repositories of \<open>composio/github/types.rs\<close>, the
  defaults of \<open>composio/tools/types.rs\<close>, and the second and third copies of the catalog lookup.
\<close>

section \<open>Identities as the host stores them\<close>

record provider_profile =
  pp_toolkit :: str
  pp_connection_id :: "str option"
  pp_display_name :: "str option"
  pp_email :: "str option"
  pp_username :: "str option"
  pp_avatar_url :: "str option"
  pp_profile_url :: "str option"
  pp_extras :: json

definition profile_of_reply :: "user_profile \<Rightarrow> provider_profile" where
  "profile_of_reply p =
     \<lparr>pp_toolkit = up_toolkit p, pp_connection_id = up_connection_id p,
      pp_display_name = up_display_name p, pp_email = up_email p, pp_username = up_username p,
      pp_avatar_url = up_avatar_url p, pp_profile_url = up_profile_url p, pp_extras = up_extras p\<rparr>"

definition reply_of_profile :: "provider_profile \<Rightarrow> user_profile" where
  "reply_of_profile p =
     \<lparr>up_toolkit = pp_toolkit p, up_connection_id = pp_connection_id p,
      up_display_name = pp_display_name p, up_email = pp_email p, up_username = pp_username p,
      up_avatar_url = pp_avatar_url p, up_profile_url = pp_profile_url p, up_extras = pp_extras p\<rparr>"

interpretation profiles: codec profile_of_reply "\<lambda>p. Some (reply_of_profile p)" Some
  by unfold_locales (simp_all add: profile_of_reply_def reply_of_profile_def)

lemma profile_back: "profile_of_reply (reply_of_profile p) = p"
  by (simp add: profile_of_reply_def reply_of_profile_def)

section \<open>Data\<close>

record normalized_task =
  nt_external_id :: str
  nt_source_id :: str
  nt_provider :: str
  nt_kind :: task_kind
  nt_title :: str
  nt_body :: "str option"
  nt_url :: "str option"
  nt_status :: "str option"
  nt_assignee :: "str option"
  nt_due :: "str option"
  nt_labels :: "str list"
  nt_priority :: "str option"
  nt_updated_at :: "str option"
  nt_raw :: json

record task_container =
  tk_id :: str
  tk_title :: str

record github_repo =
  gr_owner :: str
  gr_repo :: str
  gr_full_name :: str
  gr_private :: "bool option"
  gr_default_branch :: "str option"
  gr_html_url :: "str option"

record github_repos_response =
  gs_connection_id :: str
  gs_repositories :: "github_repo list"

section \<open>Defaults\<close>

definition default_function_type :: str where "default_function_type = ''function''"

definition enabled :: bool where "enabled = True"

record user_scopes =
  us_read :: bool
  us_write :: bool
  us_admin :: bool

definition default_user_scopes :: user_scopes where
  "default_user_scopes = \<lparr>us_read = True, us_write = True, us_admin = False\<rparr>"

text \<open>Absent flags of a request take the serialisation defaults.\<close>

definition scopes_of_flags :: "bool option \<Rightarrow> bool option \<Rightarrow> bool option \<Rightarrow> user_scopes" where
  "scopes_of_flags r w a =
     \<lparr>us_read = unwrap_or enabled r, us_write = unwrap_or enabled w, us_admin = unwrap_or False a\<rparr>"

record list_tools_request =
  lr_toolkits :: "str list"
  lr_tags :: "str list"
  lr_apply_user_scopes :: bool

definition default_list_tools :: list_tools_request where
  "default_list_tools = \<lparr>lr_toolkits = [], lr_tags = [], lr_apply_user_scopes = True\<rparr>"

definition pref_of_scopes :: "user_scopes \<Rightarrow> scope_pref" where
  "pref_of_scopes u = \<lparr>pref_read = us_read u, pref_write = us_write u, pref_admin = us_admin u\<rparr>"

definition scopes_of_pref :: "scope_pref \<Rightarrow> user_scopes" where
  "scopes_of_pref p = \<lparr>us_read = pref_read p, us_write = pref_write p, us_admin = pref_admin p\<rparr>"

interpretation scopes: codec scopes_of_pref "\<lambda>u. Some (pref_of_scopes u)" Some
  by unfold_locales (simp_all add: scopes_of_pref_def pref_of_scopes_def)

text \<open>A request without flags, the default shape and the default preference are one and the same.\<close>

lemma defaults_agree:
  "scopes_of_flags None None None = default_user_scopes" "pref_of_scopes default_user_scopes = default_pref"
  by (simp_all add: scopes_of_flags_def default_user_scopes_def enabled_def pref_of_scopes_def default_pref_def)

section \<open>The copies of the catalog lookup\<close>

definition sync_find_curated :: "catalog \<Rightarrow> str \<Rightarrow> (str \<times> tool_scope) option" where
  "sync_find_curated cat slug = find (\<lambda>tool. eq_ignore_case (fst tool) slug) cat"

definition main_find_curated :: "catalog \<Rightarrow> str \<Rightarrow> (str \<times> tool_scope) option" where
  "main_find_curated cat slug = find (\<lambda>t. eq_ignore_case (fst t) slug) cat"

lemma one_lookup: "sync_find_curated = find_curated" "main_find_curated = find_curated"
  by (simp_all add: fun_eq_iff sync_find_curated_def main_find_curated_def find_curated_def)

section \<open>Registries\<close>

definition registry_with :: "provider list \<Rightarrow> provider \<Rightarrow> provider list" where
  "registry_with reg p = register_provider p reg"

definition registry_all :: "provider list \<Rightarrow> provider list" where "registry_all reg = reg"

definition registry_len :: "provider list \<Rightarrow> nat" where "registry_len reg = length reg"

definition registry_is_empty :: "provider list \<Rightarrow> bool" where "registry_is_empty reg \<longleftrightarrow> reg = []"

text \<open>Registering a provider of a known toolkit replaces the one it had.\<close>

lemma override_length:
  "registry_ok reg \<Longrightarrow> pv_toolkit_slug p \<in> set (map pv_toolkit_slug (registry_all reg)) \<Longrightarrow>
     registry_len (registry_with reg p) = registry_len reg"
  unfolding registry_with_def registry_all_def registry_len_def
proof (induction p reg rule: register_provider.induct)
  case (2 p q qs)
  then show ?case by (auto simp: registry_ok_def)
qed simp

lemma registry_grows: "\<not> registry_is_empty (registry_with reg p)"
  by (cases reg) (simp_all add: registry_is_empty_def registry_with_def)

end
