(* ===== verification/Confinement.thy ===== *)
theory Confinement
  imports Module_Config
begin

text \<open>
  How far an action reaches: which steps of the world it is made of. An action over a route is made
  of the route's own members and of sleeps; a route's members are made of requests over its
  transport, of sleeps and of counts at the key's gate (\<open>crates/tinyconnectors/src/client\<close>). The
  steps are a relation, and an action is steady for it when it only goes from a state to one its
  steps lead to.
\<close>

definition steady :: "('s \<Rightarrow> 's \<Rightarrow> bool) \<Rightarrow> ('s, 'x, 'a) op \<Rightarrow> bool" where
  "steady X m \<longleftrightarrow> (\<forall>s. X\<^sup>*\<^sup>* s (snd (m s)))"

named_theorems calm \<open>what is steady for a relation\<close>

lemma steadyI: "(\<And>s. X\<^sup>*\<^sup>* s (snd (m s))) \<Longrightarrow> steady X m"
  by (simp add: steady_def)

lemma steadyD: "steady X m \<Longrightarrow> m s = (r, t) \<Longrightarrow> X\<^sup>*\<^sup>* s t"
  unfolding steady_def by (metis snd_conv)

lemma steady_mono:
  assumes "steady X m" "\<And>s t. X s t \<Longrightarrow> Y\<^sup>*\<^sup>* s t"
  shows "steady Y m"
proof (rule steadyI)
  fix s
  have "X\<^sup>*\<^sup>* s (snd (m s))" using assms(1) by (simp add: steady_def)
  then show "Y\<^sup>*\<^sup>* s (snd (m s))"
    by (induction rule: rtranclp_induct) (auto intro: rtranclp_trans assms(2))
qed

lemma steady_then [calm]:
  assumes "steady X m" "\<And>r. steady X (f r)"
  shows "steady X (thenA m f)"
  using assms by (auto simp: steady_def thenA_def split: prod.split) (metis rtranclp_trans snd_conv)

lemma steady_bindO [calm]:
  assumes "steady X m" "\<And>a. steady X (f a)"
  shows "steady X (bindO m f)"
  using assms
  by (auto simp: steady_def bindO_def split: prod.split sum.split) (metis rtranclp_trans snd_conv)+

lemma bindA_bindO: "bindA m f = bindO m f"
  by (rule ext) (simp add: bindA_def bindO_def)

lemma steady_bind [calm]: "steady X m \<Longrightarrow> (\<And>a. steady X (f a)) \<Longrightarrow> steady X (bindA m f)"
  unfolding bindA_bindO by (rule steady_bindO)

lemma steady_pure [calm]: "steady X (retA a)" "steady X (failA e)" "steady X (liftA r)"
  by (simp_all add: steady_def)

lemma steady_pureO [calm]: "steady X (retO b)" "steady X (failO x)" "steady X (\<lambda>s. (g s, s))"
  by (simp_all add: steady_def retO_def failO_def)

lemma steady_map [calm]: "steady X m \<Longrightarrow> steady X (mapA g m)"
  unfolding mapA_def by (intro steady_bind steady_pure)

lemma steady_map_err [calm]: "steady X m \<Longrightarrow> steady X (map_errO g m)"
  by (auto simp: steady_def map_errO_def split: prod.split sum.split) (metis snd_conv)+

lemma steady_cases [calm]:
  "steady X m1 \<Longrightarrow> steady X m2 \<Longrightarrow> steady X (if c then m1 else m2)"
  "steady X m1 \<Longrightarrow> (\<And>x. steady X (n x)) \<Longrightarrow> steady X (case v of None \<Rightarrow> m1 | Some x \<Rightarrow> n x)"
  "(\<And>x. steady X (k x)) \<Longrightarrow> (\<And>y. steady X (l y)) \<Longrightarrow> steady X (case u of Inl x \<Rightarrow> k x | Inr y \<Rightarrow> l y)"
  "(\<And>x y. steady X (h x y)) \<Longrightarrow> steady X (case p of (x, y) \<Rightarrow> h x y)"
  by (simp_all split: option.split sum.split prod.split)

section \<open>Requests over a transport\<close>

text \<open>What a route does to the world: a request, a sleep, a count at the gate.\<close>

inductive transport_step :: "'e transport \<Rightarrow> 'e world \<Rightarrow> 'e world \<Rightarrow> bool" for tr where
  got: "transport_step tr w (snd (transport_get tr path w))"
| posted: "transport_step tr w (snd (transport_post tr path body w))"
| deleted: "transport_step tr w (snd (transport_delete tr path w))"
| slept: "transport_step tr w (snd (sleepA n w))"
| counted: "transport_step tr w (w\<lparr>gate := g\<rparr>)"

lemma steady_transport [calm]:
  "steady (transport_step tr) (transport_get tr path)"
  "steady (transport_step tr) (transport_post tr path body)"
  "steady (transport_step tr) (transport_delete tr path)"
  "steady (transport_step tr) (sleepA n)"
  by (rule steadyI, blast intro: transport_step.intros)+

lemma steady_call [calm]:
  assumes "steady (transport_step tr) m"
  shows "steady (transport_step tr) (call d m)"
proof -
  have gate: "steady (transport_step tr) (check_gate d)"
    by (rule steadyI) (simp add: check_gate_def)
  have "(transport_step tr)\<^sup>*\<^sup>* w (record_outcome d r w)" for r :: "json res" and w
    using transport_step.counted [of tr w] by (auto simp: record_outcome_def split: sum.split)
  then have "steady (transport_step tr) (\<lambda>w. case m w of (r, w') \<Rightarrow> (r, record_outcome d r w'))"
    using assms by (auto simp: steady_def split: prod.split) (metis rtranclp_trans snd_conv)
  with gate show ?thesis unfolding call_def by (intro steady_bind)
qed

section \<open>The direct route\<close>

lemma steady_pages [calm]: "steady (transport_step tr) (page_loop d tr path n cursor rows)"
  by (induction n arbitrary: cursor rows) (simp_all add: Let_def calm)

lemma steady_direct_parts [calm]:
  "steady (transport_step tr) (list_pages d tr path)"
  "steady (transport_step tr) (account_owner d tr connid)"
  "steady (transport_step tr) (require_webhooks d name)"
  unfolding list_pages_def account_owner_def require_webhooks_def
  by (auto intro!: calm split: error.split)

lemma steady_owned [calm]:
  "steady (transport_step tr) (ensure_owned d tr connid)"
  "steady (transport_step tr) (find_active_trigger d tr slug c config)"
  unfolding ensure_owned_def find_active_trigger_def by (auto intro!: calm)

lemma steady_upsert [calm]: "steady (transport_step tr) (upsert d tr slug c config)"
  unfolding upsert_def Let_def by (auto intro!: calm)

text \<open>The members of a route are made of the steps \<open>X\<close>.\<close>

definition quiet_route :: "('e world \<Rightarrow> 'e world \<Rightarrow> bool) \<Rightarrow> ('e, 'x, 'y) route \<Rightarrow> bool" where
  "quiet_route X r \<longleftrightarrow>
     steady X (r_list_toolkits r) \<and> steady X (r_list_connections r) \<and>
     (\<forall>t b. steady X (r_authorize r t b)) \<and> (\<forall>ts gs. steady X (r_list_tools r ts gs)) \<and>
     (\<forall>t a c. steady X (r_execute r t a c)) \<and> (\<forall>c. steady X (r_delete_connection r c)) \<and>
     (\<forall>c. steady X (r_list_github_repos r c)) \<and> (\<forall>t c. steady X (r_list_available_triggers r t c)) \<and>
     (\<forall>t. steady X (r_list_triggers r t)) \<and> (\<forall>s c g. steady X (r_create_trigger r s c g)) \<and>
     (\<forall>c s g. steady X (r_enable_trigger r c s g)) \<and> (\<forall>i. steady X (r_disable_trigger r i))"

lemma steady_direct [calm]:
  "steady (transport_step tr) (direct_list_connections d tr)"
  "steady (transport_step tr) (direct_authorize d tr toolkit body)"
  "steady (transport_step tr) (direct_list_tools d tr toolkits tags)"
  "steady (transport_step tr) (direct_execute d tr tool arguments c)"
  "steady (transport_step tr) (direct_list_available_triggers d tr toolkit c)"
  "steady (transport_step tr) (direct_list_triggers d tr tk)"
  "steady (transport_step tr) (direct_create_trigger d tr slug c config)"
  "steady (transport_step tr) (direct_enable_trigger d tr i slug config)"
  "steady (transport_step tr) (direct_disable_trigger d tr i)"
  unfolding direct_list_connections_def direct_authorize_def direct_list_tools_def direct_execute_def
    direct_list_available_triggers_def direct_list_triggers_def direct_create_trigger_def
    direct_enable_trigger_def direct_disable_trigger_def Let_def
  by (auto intro!: calm)

lemma direct_quiet: "quiet_route (transport_step tr) (direct_as_route d tr)"
  by (simp add: quiet_route_def direct_as_route_def direct_list_toolkits_def direct_delete_connection_def
      direct_list_github_repos_def calm)

section \<open>The proxied route\<close>

lemma steady_proxy [calm]:
  "steady (transport_step tr) (proxy_get dec shape tr path)"
  "steady (transport_step tr) (proxy_post dec shape tr path body)"
  "steady (transport_step tr) (proxy_delete dec shape tr path)"
  unfolding proxy_get_def proxy_post_def proxy_delete_def by (auto intro!: calm)

lemma proxy_quiet: "quiet_route (transport_step tr) (proxy_as_route dc tr)"
  unfolding quiet_route_def proxy_as_route_def
  by (auto simp: proxy_list_toolkits_def proxy_list_connections_def proxy_authorize_def proxy_list_tools_def
      proxy_execute_def proxy_delete_connection_def proxy_list_github_repos_def
      proxy_list_available_triggers_def proxy_list_triggers_def proxy_create_trigger_def
      proxy_enable_trigger_def proxy_disable_trigger_def Let_def intro!: calm)

section \<open>The client over a route\<close>

text \<open>
  Where the members of a route and sleeps can lead, and the actions that go nowhere else: those the
  client makes of its route.
\<close>

definition client_reach :: "('e, 'x, 'y) route \<Rightarrow> 'e world \<Rightarrow> 'e world \<Rightarrow> bool" where
  "client_reach r w w' \<longleftrightarrow> (\<forall>X. quiet_route X r \<longrightarrow> (\<forall>n. steady X (sleepA n)) \<longrightarrow> X\<^sup>*\<^sup>* w w')"

definition client_act :: "('e, 'x, 'y) route \<Rightarrow> ('e, 'a) act \<Rightarrow> bool" where
  "client_act r m \<longleftrightarrow> (\<forall>w. client_reach r w (snd (m w)))"

lemma client_act_steady:
  "client_act r m \<longleftrightarrow> (\<forall>X. quiet_route X r \<longrightarrow> (\<forall>n. steady X (sleepA n)) \<longrightarrow> steady X m)"
  by (auto simp: client_act_def client_reach_def steady_def)

lemma client_actI:
  "(\<And>X. quiet_route X r \<Longrightarrow> (\<And>n. steady X (sleepA n)) \<Longrightarrow> steady X m) \<Longrightarrow> client_act r m"
  by (simp add: client_act_steady)

lemma quiet_routeD:
  assumes "quiet_route X r"
  shows "steady X (r_list_toolkits r)" "steady X (r_list_connections r)" "steady X (r_authorize r t b)"
    "steady X (r_list_tools r ts gs)" "steady X (r_execute r t a c)" "steady X (r_delete_connection r i)"
    "steady X (r_list_github_repos r c)" "steady X (r_list_available_triggers r t c)"
    "steady X (r_list_triggers r c)" "steady X (r_create_trigger r s c g)"
    "steady X (r_enable_trigger r i s g)" "steady X (r_disable_trigger r i)"
  using assms by (simp_all add: quiet_route_def)

lemma client_act_route [calm]:
  "client_act r (r_list_toolkits r)" "client_act r (r_list_connections r)"
  by (simp_all add: client_act_steady quiet_routeD)

text \<open>The retries are made of the attempt and of sleeps.\<close>

lemma steady_rate_loop:
  assumes "\<And>t a c. steady X (exec t a c)" "\<And>n. steady X (sleepA n)"
  shows "steady X (rate_loop exec tool arguments conn attempts delay)"
  by (induction attempts arbitrary: delay)
    (auto simp: with_post_oauth_retry_def intro!: calm assms)

lemma steady_authorize_loop:
  assumes "steady X m" "\<And>n. steady X (sleepA n)"
  shows "steady X (authorize_loop m attempts delay)"
  by (induction attempts arbitrary: delay) (auto intro!: calm assms)

lemma steady_clear_loop: "quiet_route X r \<Longrightarrow> steady X (clear_loop r wanted cs n)"
  by (induction cs arbitrary: n) (auto intro!: calm quiet_routeD)

lemma client_acts [calm]:
  "client_act r (client_execute show_json r tool arguments connid)"
  "client_act r (authorize_with_rate_limit_retry (client_authorize r toolkit extra))"
  "client_act r (client_delete_connection r i)"
  "client_act r (client_list_tools r ts gs)"
  "client_act r (client_list_github_repos r c)"
  "client_act r (client_list_available_triggers r toolkit c)"
  "client_act r (client_list_triggers r c)"
  "client_act r (client_create_trigger r slug c config)"
  "client_act r (client_enable_trigger r i slug config)"
  "client_act r (client_disable_trigger r i)"
  unfolding client_execute_def execute_action_def with_rate_limit_retry_def
    authorize_with_rate_limit_retry_def client_authorize_def clear_stale_handoffs_def
    client_delete_connection_def client_list_tools_def client_list_github_repos_def
    client_list_available_triggers_def client_list_triggers_def client_create_trigger_def
    client_enable_trigger_def client_disable_trigger_def Let_def
  by (rule client_actI, auto intro!: calm quiet_routeD steady_rate_loop steady_authorize_loop steady_clear_loop)+

lemma client_act_read [calm]: "client_act r (read_through r operation)"
  by (cases operation) (auto simp: client_act_steady intro!: calm quiet_routeD intro: client_acts [unfolded client_act_steady, rule_format])

end
