(* ===== verification/Dispatch_Laws.thy ===== *)
theory Dispatch_Laws
  imports Dispatch Confinement
begin

text \<open>
  What holds of the module as a whole, whatever its host asks in whatever order: laws of every
  member, each proved once over an abstract relation between the state before and after, and the
  reachable states of a served instance.
\<close>

section \<open>Laws of a member\<close>

text \<open>
  \<open>lawful R m\<close>: from every state the operation leads to a related one and keeps the client;
  \<open>connected R r m\<close>: it does so from the states whose client is \<open>r\<close>.
\<close>

definition lawful :: "(('e, 'y) svc \<Rightarrow> ('e, 'y) svc \<Rightarrow> bool) \<Rightarrow> (('e, 'y) svc, 'z, 'a) op \<Rightarrow> bool" where
  "lawful R m \<longleftrightarrow> (\<forall>s. R s (snd (m s)) \<and> sv_client (snd (m s)) = sv_client s)"

definition connected ::
  "(('e, 'y) svc \<Rightarrow> ('e, 'y) svc \<Rightarrow> bool) \<Rightarrow> ('e, toolkits_response, 'y) route \<Rightarrow> (('e, 'y) svc, 'z, 'a) op \<Rightarrow> bool"
where
  "connected R r m \<longleftrightarrow>
     (\<forall>s. sv_client s = Some r \<longrightarrow> R s (snd (m s)) \<and> sv_client (snd (m s)) = sv_client s)"

lemma lawful_connected: "lawful R m \<Longrightarrow> connected R r m"
  by (simp add: lawful_def connected_def)

lemma lawfulD: "lawful R m \<Longrightarrow> m s = (r, t) \<Longrightarrow> R s t \<and> sv_client t = sv_client s"
  unfolding lawful_def by (metis snd_conv)

lemma connectedD: "connected R c m \<Longrightarrow> sv_client s = Some c \<Longrightarrow> m s = (r, t) \<Longrightarrow> R s t \<and> sv_client t = sv_client s"
  unfolding connected_def by (metis snd_conv)

lemma lawfulI: "(\<And>s r t. m s = (r, t) \<Longrightarrow> R s t \<and> sv_client t = sv_client s) \<Longrightarrow> lawful R m"
  unfolding lawful_def by (metis prod.collapse)

lemma connectedI:
  "(\<And>s r t. sv_client s = Some c \<Longrightarrow> m s = (r, t) \<Longrightarrow> R s t \<and> sv_client t = sv_client s) \<Longrightarrow> connected R c m"
  unfolding connected_def by (metis prod.collapse)

text \<open>Reading preferences takes the store nowhere but where its own reads take it.\<close>

inductive row_read :: "'e prefs_store \<Rightarrow> 'e \<Rightarrow> 'e \<Rightarrow> bool" for ps where
  "row_read ps e (snd (ps_get ps k e))"

lemma steady_row [calm]: "steady (row_read ps) (ps_get ps k)"
  by (rule steadyI) (blast intro: row_read.intros)

lemma steady_load_pref [calm]: "steady (row_read ps) (load_pref refusal ps toolkit)"
  unfolding load_pref_def Let_def by (auto intro!: calm)

lemma steady_pref_for [calm]: "steady (row_read ps) (pref_for refusal ps action)"
proof -
  have "steady (row_read ps) (pref_loop refusal ps slug ns)" for slug ns
    by (induction ns) (auto intro!: calm)
  then show ?thesis by (simp add: pref_for_def Let_def)
qed

locale member_law =
  fixes ho :: "('p, 'e, 'y) host" and R :: "('e, 'y) svc \<Rightarrow> ('e, 'y) svc \<Rightarrow> bool"
  assumes same: "R s s"
    and again: "R s t \<Longrightarrow> R t u \<Longrightarrow> R s u"
    and row: "row_read (ho_prefs ho) (env (sv_world s)) e \<Longrightarrow> R s (s\<lparr>sv_world := (sv_world s)\<lparr>env := e\<rparr>\<rparr>)"
    and acted: "sv_client s = Some r \<Longrightarrow> client_reach r (sv_world s) w \<Longrightarrow> R s (s\<lparr>sv_world := w\<rparr>)"
begin

lemma rows:
  "(row_read (ho_prefs ho))\<^sup>*\<^sup>* (env (sv_world s)) e \<Longrightarrow> R s (s\<lparr>sv_world := (sv_world s)\<lparr>env := e\<rparr>\<rparr>)"
proof (induction rule: rtranclp_induct)
  case base
  show ?case using same [of s] by simp
next
  case (step e e')
  have "R (s\<lparr>sv_world := (sv_world s)\<lparr>env := e\<rparr>\<rparr>) (s\<lparr>sv_world := (sv_world s)\<lparr>env := e'\<rparr>\<rparr>)"
    using row [of "s\<lparr>sv_world := (sv_world s)\<lparr>env := e\<rparr>\<rparr>" e'] step.hyps(2) by simp
  with step.IH show ?case by (rule again)
qed

lemma l_ret [intro]: "lawful R (retO a)"
  by (simp add: lawful_def retO_def same)

lemma l_fail [intro]: "lawful R (failO m)"
  by (simp add: lawful_def failO_def same)

lemma l_bind [intro]:
  assumes "lawful R m" "\<And>a. lawful R (g a)"
  shows "lawful R (bindO m g)"
proof (rule lawfulI)
  fix s r t
  assume "bindO m g s = (r, t)"
  then show "R s t \<and> sv_client t = sv_client s"
    using lawfulD [OF assms(1)] lawfulD [OF assms(2)]
    by (fastforce simp: bindO_def intro: again split: prod.splits sum.splits)
qed

lemma c_bind [intro]:
  assumes "connected R c m" "\<And>a. connected R c (g a)"
  shows "connected R c (bindO m g)"
proof (rule connectedI)
  fix s r t
  assume s: "sv_client s = Some c" and "bindO m g s = (r, t)"
  then obtain r1 s1 where m: "m s = (r1, s1)"
    and rest: "case r1 of Inl e \<Rightarrow> t = s1 | Inr a \<Rightarrow> g a s1 = (r, t)"
    by (auto simp: bindO_def split: prod.splits sum.splits)
  have s1: "R s s1" "sv_client s1 = sv_client s" using connectedD [OF assms(1) s m] by simp_all
  show "R s t \<and> sv_client t = sv_client s"
  proof (cases r1)
    case (Inr a)
    then have "R s1 t" "sv_client t = sv_client s1"
      using rest s1(2) s connectedD [OF assms(2), of s1] by simp_all
    then show ?thesis using s1 again by metis
  qed (use rest s1 in simp)
qed

lemma l_map_err [intro]: "lawful R m \<Longrightarrow> lawful R (map_errO f m)"
  by (auto simp: lawful_def map_errO_def split: prod.split sum.split) (metis snd_conv)+

lemma l_storing [intro]: "steady (row_read (ho_prefs ho)) m \<Longrightarrow> lawful R (storing m)"
  by (simp add: lawful_def storing_def rows steady_def split: prod.split) (metis rows snd_conv)

lemma c_acting [intro]: "client_act r m \<Longrightarrow> connected R r (acting f m)"
  using acted unfolding connected_def acting_def client_act_def
  by (auto split: prod.split sum.split) (metis snd_conv)+

lemma l_client [intro]:
  assumes "\<And>r. connected R r (g r)"
  shows "lawful R (bindO service_client g)"
proof (rule lawfulI)
  fix s r t
  assume e: "bindO service_client g s = (r, t)"
  show "R s t \<and> sv_client t = sv_client s"
  proof (cases "sv_client s")
    case None
    then show ?thesis using e by (simp add: bindO_def service_client_def same)
  next
    case (Some c)
    then have "g c s = (r, t)" using e by (simp add: bindO_def service_client_def)
    then show ?thesis using connectedD [OF assms [of c], of s r t] Some by simp
  qed
qed

lemma l_forward [intro]: "(\<And>r. client_act r (g r)) \<Longrightarrow> lawful R (forward f g)"
  unfolding forward_def by (intro l_client c_acting)

lemma l_if [intro]: "lawful R a \<Longrightarrow> lawful R b \<Longrightarrow> lawful R (if c then a else b)"
  by simp

lemma l_state [intro]: "lawful R (\<lambda>s. (g s, s))"
  by (simp add: lawful_def same)

lemma l_option [intro]:
  "lawful R a \<Longrightarrow> (\<And>x. lawful R (b x)) \<Longrightarrow> lawful R (case c of None \<Rightarrow> a | Some x \<Rightarrow> b x)"
  by (cases c) simp_all

lemma l_sum [intro]:
  "(\<And>x. lawful R (a x)) \<Longrightarrow> (\<And>x. lawful R (b x)) \<Longrightarrow> lawful R (case c of Inl x \<Rightarrow> a x | Inr x \<Rightarrow> b x)"
  by (cases c) simp_all

lemma l_prod [intro]: "(\<And>x y. lawful R (a x y)) \<Longrightarrow> lawful R (case c of (x, y) \<Rightarrow> a x y)"
  by (cases c) simp

subsection \<open>The members that leave the caches alone\<close>

lemma l_stored_pref [intro]: "lawful R (stored_pref ho toolkit)"
  unfolding stored_pref_def by (blast intro: calm)

lemma l_permits [intro]: "lawful R (permits ho tool)"
  unfolding permits_def by (blast intro: calm)

lemma l_listed [intro]: "lawful R (listed ho tool)"
  unfolding listed_def by (blast intro: calm)

lemma l_execute [intro]: "lawful R (execute_checked ho tool arguments connid)"
  unfolding execute_checked_def by (blast intro: calm)

lemma l_first_active [intro]: "lawful R (first_active_connection toolkit)"
  unfolding first_active_connection_def Let_def by (blast intro: calm)

lemma l_keep_listed [intro]: "lawful R (keep_listed ho tools)"
  by (induction tools) (simp_all, blast+)

lemma l_list_tools [intro]: "lawful R (list_tools ho toolkits tags scoped)"
  unfolding list_tools_def Let_def by (blast intro: calm)

text \<open>A provider's action looks the client up as the members do, under an error of its own.\<close>

lemma l_run_action [intro]: "lawful R (run_action ho action arguments connid)"
proof (rule lawfulI)
  fix s r t
  assume e: "run_action ho action arguments connid s = (r, t)"
  show "R s t \<and> sv_client t = sv_client s"
  proof (cases "sv_client s")
    case None
    then show ?thesis using e by (auto simp: run_action_def bindO_def same)
  next
    case (Some c)
    let ?m = "bindO (acting (\<lambda>e. Action action (error_text e))
        (client_execute (ho_show_json ho) c action (Some arguments) (Some connid))) (\<lambda>response.
          if \<not> successful response then failO (Action action (refusal_message (resp_error response)))
          else retO (resp_data response))"
    have "?m s = (r, t)" using e Some by (simp add: run_action_def bindO_def)
    moreover have "connected R c ?m" by (intro c_bind c_acting client_acts) (rule lawful_connected, blast)
    ultimately show ?thesis using connectedD [of R c ?m s r t] Some by simp
  qed
qed

lemma l_profile_of [intro]: "lawful R (profile_of ho toolkit connid)"
  unfolding profile_of_def by blast

lemma l_user_profile [intro]: "lawful R (get_user_profile ho toolkit connid)"
  unfolding get_user_profile_def by blast

lemma l_refresh_loop [intro]: "lawful R (refresh_loop ho cs)"
proof (induction cs)
  case (Cons c cs)
  show ?case
  proof (rule lawfulI)
    fix s r t
    assume e: "refresh_loop ho (c # cs) s = (r, t)"
    obtain q s1 where q: "profile_of ho (normalized_toolkit c) (conn_id c) s = (q, s1)" by fastforce
    then have s1: "R s s1" "sv_client s1 = sv_client s" using lawfulD [OF l_profile_of] by blast+
    define g where "g = (\<lambda>(ps, fs). retO (case q of Inr p \<Rightarrow> (p # ps, fs)
        | Inl m \<Rightarrow> (ps, \<lparr>if_connection_id = conn_id c, if_toolkit = normalized_toolkit c,
            if_message = ho_show_failure ho m\<rparr> # fs)) :: (('e, 'y) svc, str, _) op)"
    have "bindO (refresh_loop ho cs) g s1 = (r, t)" using e q by (simp add: g_def)
    moreover have "lawful R (bindO (refresh_loop ho cs) g)" unfolding g_def using Cons.IH by blast
    ultimately have "R s1 t \<and> sv_client t = sv_client s1" by (rule lawfulD [rotated])
    then show "R s t \<and> sv_client t = sv_client s" using s1 again by metis
  qed
qed (simp, blast)

lemma l_refresh [intro]: "lawful R (refresh_all_identities ho)"
  unfolding refresh_all_identities_def by (blast intro: calm)

lemma l_load_preferences [intro]: "lawful R (load_preferences ho ts)"
  by (induction ts) (simp_all, blast+)

lemma l_assembled [intro]: "lawful R (assembled ho allowlist connections tools descriptions)"
  unfolding assembled_def by blast

lemma c_if [intro]: "connected R r a \<Longrightarrow> connected R r b \<Longrightarrow> connected R r (if c then a else b)"
  by simp

lemma c_ret [intro]: "connected R r (retO a)"
  by (rule lawful_connected) blast

lemma c_assembled [intro]: "connected R r (assembled ho allowlist connections tools descriptions)"
  by (rule lawful_connected) blast

lemma c_acting_or_empty [intro]:
  "client_act r m \<Longrightarrow>
     connected R r (\<lambda>s. case acting f m s of (Inl e, s') \<Rightarrow> (Inr [], s') | (Inr a, s') \<Rightarrow> (Inr a, s'))"
  using acted unfolding connected_def acting_def client_act_def
  by (auto split: prod.split sum.split) (metis snd_conv)+

lemma c_backend [intro]: "connected R r (backend_overview ho r)"
  unfolding backend_overview_def Let_def by (intro c_bind c_acting c_if c_ret c_assembled calm)

lemma c_direct [intro]: "connected R r (direct_overview ho r)"
  unfolding direct_overview_def Let_def
  by (intro c_bind c_acting c_acting_or_empty c_if c_ret c_assembled calm)

lemma l_overview [intro]: "lawful R (connected_integrations ho mode)"
  unfolding connected_integrations_def
  by (rule l_client, rule c_if, rule lawful_connected) (blast, cases mode, simp_all, blast+)

lemmas forwarding = list_connections_def service_authorize_def delete_connection_def
  list_github_repos_def list_available_triggers_def list_triggers_def create_trigger_def
  enable_trigger_def disable_trigger_def

lemma l_forwarding:
  "lawful R list_connections" "lawful R (service_authorize toolkit extra)" "lawful R (delete_connection i)"
  "lawful R (list_github_repos c)" "lawful R (list_available_triggers toolkit c)"
  "lawful R (list_triggers tk)" "lawful R (create_trigger slug c config)"
  "lawful R (enable_trigger i slug config)" "lawful R (disable_trigger i)"
  unfolding forwarding by (rule l_forward, rule client_acts client_act_route)+

lemma l_listings:
  "lawful R (list_toolkits ho)" "lawful R (get_user_scopes ho toolkit)"
  "lawful R (filter_response_member ho tool response since)"
  "lawful R (visible_tools_member ho toolkit preference)"
  unfolding list_toolkits_def get_user_scopes_def filter_response_member_def visible_tools_member_def Let_def
  by (blast intro: calm)+

lemmas plain_members = l_forwarding l_listings l_list_tools l_execute l_user_profile l_refresh l_overview

end

text \<open>One member writes a preference.\<close>

locale writing_law = member_law ho R
  for ho :: "('p, 'e, 'y) host" and R :: "('e, 'y) svc \<Rightarrow> ('e, 'y) svc \<Rightarrow> bool" +
  fixes toolkit :: str and pref :: scope_pref
  assumes written: "R s (snd (storing (save_pref (ho_prefs ho) pref toolkit) s))"
begin

lemma l_set_user_scopes: "lawful R (set_user_scopes ho toolkit pref)"
proof -
  have "snd (storing (map_errO sync_error_text (save_pref (ho_prefs ho) pref toolkit)) s) =
      snd (storing (save_pref (ho_prefs ho) pref toolkit) s)"
    and "sv_client (snd (storing (save_pref (ho_prefs ho) pref toolkit) s)) = sv_client s" for s :: "('e, 'y) svc"
    by (simp_all add: storing_def map_errO_def split: prod.split sum.split)
  then have "lawful R (storing (map_errO sync_error_text (save_pref (ho_prefs ho) pref toolkit)))"
    using written by (simp add: lawful_def)
  then show ?thesis unfolding set_user_scopes_def by blast
qed

end

lemma client_actD: "client_act r m \<Longrightarrow> m w = (a, w') \<Longrightarrow> client_reach r w w'"
  unfolding client_act_def by (metis snd_conv)

lemma client_act_list_tools: "client_act r (r_list_tools r ts gs)"
  by (simp add: client_act_steady quiet_routeD)

lemma client_act_probe: "client_act r (probed_call ho r slug args)"
  unfolding probed_call_def by (rule client_acts)

text \<open>
  The members that read contracts store the listing the client answers for the toolkit they were
  asked about.
\<close>

locale listing_law = member_law ho R
  for ho :: "('p, 'e, 'y) host" and R :: "('e, 'y) svc \<Rightarrow> ('e, 'y) svc \<Rightarrow> bool" +
  fixes wanted :: "str \<Rightarrow> bool"
  assumes learned: "wanted key \<Longrightarrow> sv_client s = Some r \<Longrightarrow>
    r_list_tools r [key] [] (sv_world s) = (Inr listing, w) \<Longrightarrow>
    R s (snd (catalog_store ho key listing (s\<lparr>sv_world := w\<rparr>)))"
begin

lemma l_contracts:
  assumes "wanted (to_lower (trim toolkit))"
  shows "lawful R (toolkit_contracts ho toolkit)"
proof (rule lawfulI)
  fix s q t
  assume e: "toolkit_contracts ho toolkit s = (q, t)"
  let ?key = "to_lower (trim toolkit)"
  consider "t = s" | r where "?key \<noteq> []" "sv_client s = Some r" "catalog_lookup ho ?key s = (Inr None, s)"
    using e toolkit_contracts_hit [of toolkit ho s] toolkit_contracts_missed [of ho toolkit s]
    by (cases "cached_catalog (clock_now ho s) (sv_caches s) ?key"; cases "sv_client s"; cases "?key = []")
      (auto simp: catalog_lookup_def)
  then show "R s t \<and> sv_client t = sv_client s"
  proof cases
    case 2
    obtain answer w where l: "r_list_tools r [?key] [] (sv_world s) = (answer, w)" by fastforce
    have "client_reach r (sv_world s) w" by (rule client_actD [OF client_act_list_tools l])
    then show ?thesis
      using e acted 2 l learned [OF assms 2(2)] toolkit_contracts_missed [OF 2(3) 2(1)]
      by (cases answer) (auto simp: catalog_store_def Let_def)
  qed (simp add: same)
qed

lemma l_list_contracts: "wanted (to_lower (trim toolkit)) \<Longrightarrow> lawful R (list_tool_contracts ho toolkit)"
  unfolding list_tool_contracts_def by (intro l_bind l_contracts l_prod l_state)

lemma l_contract:
  "(\<And>toolkit. bus_toolkit_from_slug (trim slug) = Some toolkit \<Longrightarrow> wanted (to_lower (trim toolkit))) \<Longrightarrow>
     lawful R (contract_with_probe ho slug)"
  unfolding contract_with_probe_def Let_def
  by (cases "bus_toolkit_from_slug (trim slug)") (auto intro!: l_ret l_bind l_contracts l_prod l_state)

end

text \<open>A probe stores the shape of the response its one call was answered with.\<close>

locale probing_law = member_law ho R
  for ho :: "('p, 'e, 'y) host" and R :: "('e, 'y) svc \<Rightarrow> ('e, 'y) svc \<Rightarrow> bool" +
  fixes slug :: str and args :: json
  assumes observed: "confirmed_read slug = Some toolkit \<Longrightarrow> sv_client s = Some r \<Longrightarrow>
    probed_call ho r slug args (sv_world s) = (Inr response, w) \<Longrightarrow> successful response \<Longrightarrow>
    R s (snd (probe_record ho (trim slug) response (s\<lparr>sv_world := w\<rparr>)))"
begin

lemma called:
  assumes "sv_client s = Some r" "probed_call ho r slug args (sv_world s) = (answer, w)"
  shows "R s (s\<lparr>sv_world := w\<rparr>)"
proof -
  have "client_reach r (sv_world s) w" by (rule client_actD [OF client_act_probe assms(2)])
  with acted assms(1) show ?thesis .
qed

lemma l_probe: "lawful R (probe_output ho slug args)"
proof (rule lawfulI)
  fix s q t
  assume e: "probe_output ho slug args s = (q, t)"
  show "R s t \<and> sv_client t = sv_client s"
  proof (cases "confirmed_read slug = None \<or> sv_client s = None")
    case True
    then show ?thesis
      using e unconfirmed_refused [of slug ho args s] probe_without_client [of s ho slug args] same by auto
  next
    case False
    then obtain toolkit r where c: "confirmed_read slug = Some toolkit" "sv_client s = Some r" by auto
    obtain listing w where l: "r_list_connections r (sv_world s) = (listing, w)" by fastforce
    have "client_reach r (sv_world s) w" by (rule client_actD [OF client_act_route(2) l])
    then have w: "R s (s\<lparr>sv_world := w\<rparr>)" using acted c(2) by blast
    show ?thesis
    proof (cases "lists_active listing toolkit")
      case False
      then show ?thesis using e probe_listing [OF c l False, of ho args] w by auto
    next
      case True
      obtain allowed s1 where p: "permits ho (trim slug) (s\<lparr>sv_world := w\<rparr>) = (allowed, s1)" by fastforce
      have s1: "R s s1" "sv_client s1 = Some r"
        using lawfulD [OF l_permits p] w again c(2) by auto
      obtain answer w' where a: "probed_call ho r slug args (sv_world s1) = (answer, w')" by fastforce
      have "R s1 t \<and> sv_client t = sv_client s1"
        using e probe_checked [OF c l True p, of args] a called [OF s1(2) a] same
          observed [OF c(1) s1(2)]
        by (cases answer) (auto simp: probe_record_def split: if_splits)
      then show ?thesis using s1 again c(2) by metis
    qed
  qed
qed

end

text \<open>A law that allows any entry to be written to the caches is a law of all of these members.\<close>

locale contract_law = member_law ho R
  for ho :: "('p, 'e, 'y) host" and R :: "('e, 'y) svc \<Rightarrow> ('e, 'y) svc \<Rightarrow> bool" +
  assumes cached: "caches_step (sv_caches s) cc \<Longrightarrow> R s (s\<lparr>sv_caches := cc\<rparr>)"

sublocale contract_law \<subseteq> listing: listing_law ho R "\<lambda>_. True"
proof
  fix key listing w r and s :: "('e, 'y) svc"
  assume s: "sv_client s = Some r" and l: "r_list_tools r [key] [] (sv_world s) = (Inr listing, w)"
  have "client_reach r (sv_world s) w" by (rule client_actD [OF client_act_list_tools l])
  then have "R s (s\<lparr>sv_world := w\<rparr>)" using acted s by blast
  moreover have "R (s\<lparr>sv_world := w\<rparr>) (snd (catalog_store ho key listing (s\<lparr>sv_world := w\<rparr>)))"
    using cached [of "s\<lparr>sv_world := w\<rparr>"] caches_step.catalog by (simp add: catalog_store_def Let_def)
  ultimately show "R s (snd (catalog_store ho key listing (s\<lparr>sv_world := w\<rparr>)))" by (rule again)
qed

sublocale contract_law \<subseteq> probing: probing_law ho R slug args for slug args
proof
  fix slug args toolkit response w r and s :: "('e, 'y) svc"
  assume s: "sv_client s = Some r" and a: "probed_call ho r slug args (sv_world s) = (Inr response, w)"
  have "client_reach r (sv_world s) w" by (rule client_actD [OF client_act_probe a])
  then have "R s (s\<lparr>sv_world := w\<rparr>)" using acted s by blast
  moreover have "R (s\<lparr>sv_world := w\<rparr>) (snd (probe_record ho (trim slug) response (s\<lparr>sv_world := w\<rparr>)))"
    using cached [of "s\<lparr>sv_world := w\<rparr>"] caches_step.probe by (simp add: probe_record_def failO_def same)
  ultimately show "R s (snd (probe_record ho (trim slug) response (s\<lparr>sv_world := w\<rparr>)))" by (rule again)
qed

context contract_law begin

lemmas contract_members =
  listing.l_contract [OF TrueI] listing.l_list_contracts [OF TrueI] probing.l_probe

end

interpretation unchanged: writing_law ho "\<lambda>s t. sv_caches t = sv_caches s" toolkit pref for ho toolkit pref
  by unfold_locales (simp_all add: storing_def split: prod.split)

interpretation evolving: contract_law ho "\<lambda>s t. caches_step\<^sup>*\<^sup>* (sv_caches s) (sv_caches t)" for ho
  by unfold_locales (auto intro: rtranclp_trans)

interpretation offline: contract_law ho
    "\<lambda>s t. sv_client s = None \<longrightarrow> sv_client t = None \<and> trace (sv_world t) = trace (sv_world s)" for ho
  by unfold_locales auto

section \<open>Laws of the dispatch\<close>

lemmas plain_kept = unchanged.plain_members [unfolded lawful_def, rule_format]
  unchanged.l_set_user_scopes [unfolded lawful_def, rule_format]

lemmas contracts_evolve = evolving.contract_members [unfolded lawful_def, rule_format]

lemmas stays_offline = offline.plain_members [unfolded lawful_def, rule_format]
  offline.contract_members [unfolded lawful_def, rule_format]

lemma on_svc_state [simp]:
  "in_svc (snd (on_svc f m i)) = snd (m (in_svc i))" "in_leases (snd (on_svc f m i)) = in_leases i"
  by (simp_all add: on_svc_def split: prod.split)

lemma on_world_state [simp]:
  "sv_client (in_svc (snd (on_world f m i))) = sv_client (in_svc i)"
  "sv_caches (in_svc (snd (on_world f m i))) = sv_caches (in_svc i)"
  "in_leases (snd (on_world f m i)) = in_leases i"
  by (simp_all add: on_world_def split: prod.split)

lemma on_env_state [simp]:
  "sv_client (in_svc (snd (on_env f m i))) = sv_client (in_svc i)"
  "sv_caches (in_svc (snd (on_env f m i))) = sv_caches (in_svc i)"
  "trace (sv_world (in_svc (snd (on_env f m i)))) = trace (sv_world (in_svc i))"
  "in_leases (snd (on_env f m i)) = in_leases i"
  by (simp_all add: on_env_def storing_def split: prod.split)

lemma on_archive_state [simp]:
  "sv_client (in_svc (snd (on_archive f m i))) = sv_client (in_svc i)"
  "sv_caches (in_svc (snd (on_archive f m i))) = sv_caches (in_svc i)"
  "trace (sv_world (in_svc (snd (on_archive f m i)))) = trace (sv_world (in_svc i))"
  "in_leases (snd (on_archive f m i)) = snd (snd (m (env (sv_world (in_svc i)), in_leases i)))"
  by (simp_all add: on_archive_def split: prod.split)

lemma snd_retO [simp]: "snd (retO a s) = s"
  by (simp add: retO_def)

lemma archive_leases:
  "snd (snd (record_trigger ae handle event x)) = snd x"
  "snd (snd (read_archive ae handle limit x)) = snd x"
  "lease_step\<^sup>*\<^sup>* (snd x) (snd (snd (open_archive connect draw x)))"
  "lease_step\<^sup>*\<^sup>* (snd x) (snd (snd (close_archive handle x)))"
proof -
  have "snd (lease_get handle ls) = ls" for ls :: "'a stream_port leases"
    by (simp add: lease_get_def split: option.split)
  then have "ls' = ls" if "lease_get handle ls = (r, ls')" for ls ls' :: "'a stream_port leases" and r
    using that by (metis snd_conv)
  then show "snd (snd (record_trigger ae handle event x)) = snd x"
    "snd (snd (read_archive ae handle limit x)) = snd x"
    by (auto simp: record_trigger_def read_archive_def with_lease_def split: prod.splits sum.splits)
  have opened: "lease_step\<^sup>*\<^sup>* ls ls'" if "lease_open entropy sp ls = (r, ls')"
    for entropy and sp :: "'a stream_port" and ls ls' r
    using lease_step.opened [of ls entropy sp] that by simp
  have closed: "lease_step\<^sup>*\<^sup>* ls ls'" if "lease_close handle ls = (r, ls')" for ls ls' :: "'a stream_port leases" and r
    using lease_step.closed [of ls handle] that by simp
  show "lease_step\<^sup>*\<^sup>* (snd x) (snd (snd (open_archive connect draw x)))"
    by (auto simp: open_archive_def intro: opened split: prod.splits sum.splits)
  show "lease_step\<^sup>*\<^sup>* (snd x) (snd (snd (close_archive handle x)))"
    by (auto simp: close_archive_def intro: closed split: prod.splits)
qed

lemma configure_caches: "caches_step\<^sup>*\<^sup>* (sv_caches s) (sv_caches (snd (configure ho c s)))"
  by (auto simp: configure_def caches_step.clear split: sum.split)

text \<open>
  The module simulates the two small systems of its parts: whatever member is asked for, the caches
  and the leases only take steps of their own.
\<close>

lemma dispatch_evolves:
  "caches_step\<^sup>*\<^sup>* (sv_caches (in_svc i)) (sv_caches (in_svc (snd (dispatch st q i))))"
  "lease_step\<^sup>*\<^sup>* (in_leases i) (in_leases (snd (dispatch st q i)))"
  using archive_leases [where x = "(env (sv_world (in_svc i)), in_leases i)"]
  by (cases q; simp add: plain_kept contracts_evolve configure_caches)+

section \<open>Who may change what\<close>

definition cache_writers :: "str list" where
  "cache_writers = [''Configure'', ''GetToolContract'', ''ListToolContracts'', ''ProbeToolOutput'']"

definition lease_writers :: "str list" where
  "lease_writers = [''OpenArchive'', ''CloseArchive'']"

text \<open>The members that never use the network.\<close>

definition silent_members :: "str list" where
  "silent_members =
     [''Configure'', ''GetUserScopes'', ''SetUserScopes'', ''PrepareArguments'', ''FilterResponse'',
      ''ClassifyError'', ''RecordTrigger'', ''OpenArchive'', ''ReadArchive'', ''CloseArchive'',
      ''ListCapabilities'', ''ListAgentReadyToolkits'', ''ListTriggerHistory'', ''GetVocabulary'',
      ''ListCuratedCatalog'', ''ListVisibleTools'', ''EvaluateActions'', ''NormalizeIdentities'',
      ''PrepareTaskFilter'', ''RuntimeMode'']"

lemma silent_kept:
  "trace (sv_world (snd (get_user_scopes ho toolkit s))) = trace (sv_world s)"
  "trace (sv_world (snd (set_user_scopes ho toolkit pref s))) = trace (sv_world s)"
  "trace (sv_world (snd (filter_response_member ho tool response since s))) = trace (sv_world s)"
  "trace (sv_world (snd (visible_tools_member ho toolkit preference s))) = trace (sv_world s)"
  "trace (sv_world (snd (configure ho c s))) = trace (sv_world s)"
proof -
  have k: "keeps (\<lambda>s. trace (sv_world s)) (stored_pref ho toolkit)" for toolkit
    unfolding stored_pref_def by (blast intro: calm)
  have "keeps (\<lambda>s. trace (sv_world s)) (get_user_scopes ho toolkit)"
    "keeps (\<lambda>s. trace (sv_world s)) (set_user_scopes ho toolkit pref)"
    "keeps (\<lambda>s. trace (sv_world s)) (filter_response_member ho tool response since)"
    "keeps (\<lambda>s. trace (sv_world s)) (visible_tools_member ho toolkit preference)"
    unfolding get_user_scopes_def set_user_scopes_def filter_response_member_def visible_tools_member_def Let_def
    by (blast intro: k, blast, auto split: sum.split option.split intro: k)
  then show "trace (sv_world (snd (get_user_scopes ho toolkit s))) = trace (sv_world s)"
    "trace (sv_world (snd (set_user_scopes ho toolkit pref s))) = trace (sv_world s)"
    "trace (sv_world (snd (filter_response_member ho tool response since s))) = trace (sv_world s)"
    "trace (sv_world (snd (visible_tools_member ho toolkit preference s))) = trace (sv_world s)"
    by (simp_all add: keeps_def)
  show "trace (sv_world (snd (configure ho c s))) = trace (sv_world s)"
    by (simp add: configure_def split: sum.split prod.split)
qed

text \<open>
  C4. What a member may change follows from its name alone: only \<open>Configure\<close> exchanges the route,
  only it and the three contract members write the contract caches, only opening and closing an
  archive changes the leases, and the twenty members that need no route never use the network.
\<close>

theorem member_footprint:
  "let i' = snd (dispatch st q i); name = member_name q in
     (if name = ''Configure'' then True else sv_client (in_svc i') = sv_client (in_svc i)) \<and>
     (if List.member cache_writers name then True else sv_caches (in_svc i') = sv_caches (in_svc i)) \<and>
     (if List.member lease_writers name then True else in_leases i' = in_leases i) \<and>
     (if List.member silent_members name then trace (sv_world (in_svc i')) = trace (sv_world (in_svc i)) else True)"
  using archive_leases(1,2) [where x = "(env (sv_world (in_svc i)), in_leases i)"]
  by (cases q) (simp_all add: plain_kept contracts_evolve silent_kept cache_writers_def lease_writers_def silent_members_def)

section \<open>Every reachable state\<close>

text \<open>Between two requests the outside may change in any way.\<close>

inductive served_step :: "('p, 'e, 'y) site \<Rightarrow> ('e, 'y) inst \<Rightarrow> ('e, 'y) inst \<Rightarrow> bool" for st where
  asked: "served_step st i (snd (dispatch st q i))"
| elsewhere: "served_step st i (i\<lparr>in_svc := (in_svc i)\<lparr>sv_world := (sv_world (in_svc i))\<lparr>env := e\<rparr>\<rparr>\<rparr>)"

definition secure_transport :: "'p proxy_builder \<Rightarrow> 'p http_transport \<Rightarrow> bool" where
  "secure_transport pb t \<longleftrightarrow>
     (\<exists>u. parse_url pb (ht_base_url t) = Some u \<and> u_username u = [] \<and> u_password u = None \<and>
        (u_scheme u = ''https'' \<or> u_scheme u = ''http'' \<and> (\<exists>h. u_host u = Some h \<and> is_loopback h))) \<and>
     (ht_scheme t = Api_Key \<longrightarrow> ag_max_redirects (ht_agent t) = Some 0)"

text \<open>A route over a transport that sends its credential nowhere else.\<close>

definition secure_route ::
  "('p, 'e, toolkits_response, 'y) outside \<Rightarrow> ('e, toolkits_response, 'y) route \<Rightarrow> bool" where
  "secure_route ou r \<longleftrightarrow>
     (\<exists>t. secure_transport (ou_proxies ou) t \<and>
        (r = proxy_as_route (ou_decoders ou) (http_transport_of ou t) \<or>
         (\<exists>d. r = direct_as_route d (http_transport_of ou t))))"

lemma with_network_secure:
  assumes "with_network pb network t = Inr t'"
  shows "secure_transport pb t'"
proof -
  obtain host a where h: "check_base_url pb (ht_base_url t) = Inr host"
    and a: "build_agent pb request_timeout (scheme_strictness (ht_scheme t)) network host = Inr a"
    and t': "t' = t\<lparr>ht_agent := a\<rparr>"
    using assms by (auto simp: with_network_def split: sum.splits)
  show ?thesis
    using check_base_url_ok [OF h] build_agent_base [OF a] by (simp add: secure_transport_def t')
qed

lemma into_route_secure: "into_route ou c = Inr r \<Longrightarrow> secure_route ou r"
  by (cases c) (auto simp: secure_route_def dest: with_network_secure split: sum.splits)

definition secure_client :: "('p, 'e, 'y) host \<Rightarrow> ('e, 'y) svc \<Rightarrow> bool" where
  "secure_client ho s = (case sv_client s of None \<Rightarrow> True | Some r \<Rightarrow> secure_route (ho_outside ho) r)"

lemma configure_secure: "secure_client ho s \<Longrightarrow> secure_client ho (snd (configure ho c s))"
  using into_route_secure
  by (cases "config_of_request c")
    (auto simp: configure_def secure_client_def split: sum.splits option.splits)

lemma dispatch_client:
  "if member_name q = ''Configure'' then True else sv_client (in_svc (snd (dispatch st q i))) = sv_client (in_svc i)"
  by (cases q) (simp_all add: plain_kept contracts_evolve)

lemma dispatch_secure:
  assumes "secure_client (st_host st) (in_svc i)"
  shows "secure_client (st_host st) (in_svc (snd (dispatch st q i)))"
proof (cases "member_name q = ''Configure''")
  case True
  then obtain c where "q = Configure c" by (cases q) simp_all
  then show ?thesis using configure_secure [OF assms] by simp
next
  case False
  then show ?thesis using dispatch_client [of q st i] assms by (simp add: secure_client_def)
qed

lemma redacted_steps: "caches_step\<^sup>*\<^sup>* cc cc' \<Longrightarrow> redacted cc \<Longrightarrow> redacted cc'"
  by (induction rule: rtranclp_induct) (auto intro: redacted_step)

lemma leases_ok_steps: "lease_step\<^sup>*\<^sup>* ls ls' \<Longrightarrow> leases_ok ls \<Longrightarrow> leases_ok ls'"
  by (induction rule: rtranclp_induct) (auto intro: lease_step_ok)

definition sound_instance :: "('p, 'e, 'y) site \<Rightarrow> ('e, 'y) inst \<Rightarrow> bool" where
  "sound_instance st i \<longleftrightarrow>
     secure_client (st_host st) (in_svc i) \<and> redacted (sv_caches (in_svc i)) \<and> leases_ok (in_leases i)"

lemma dispatch_sound: "sound_instance st i \<Longrightarrow> sound_instance st (snd (dispatch st q i))"
  unfolding sound_instance_def
  using dispatch_secure redacted_steps [OF dispatch_evolves(1)] leases_ok_steps [OF dispatch_evolves(2)] by blast

lemma served_step_sound:
  assumes "served_step st i i'" "sound_instance st i"
  shows "sound_instance st i'"
  using assms(1)
proof cases
  case (asked q)
  then show ?thesis using dispatch_sound [OF assms(2)] by simp
next
  case (elsewhere e)
  then show ?thesis using assms(2) by (simp add: sound_instance_def secure_client_def)
qed

text \<open>
  C3. In every state a served instance can reach, through any requests in any order and whatever
  happens outside in between: the configured route, if there is one, sends its credential only
  over HTTPS or to a loopback address, without redirects for an API key; at most sixty-four
  archive leases are held under distinct handles; and no cached probe holds a response.
\<close>

theorem reachable_instance_sound:
  assumes "setup_service (ho_outside (st_host st)) c = Inr (Serve_Connectors r offered)"
    and "(served_step st)\<^sup>*\<^sup>* (fresh_instance w r) i"
  shows "(case sv_client (in_svc i) of None \<Rightarrow> True | Some r \<Rightarrow> secure_route (ho_outside (st_host st)) r) \<and>
    length (in_leases i) \<le> 64 \<and> distinct (map fst (in_leases i)) \<and> redacted (sv_caches (in_svc i))"
proof -
  have "sound_instance st (fresh_instance w r)"
    using assms(1) into_route_secure [of "ho_outside (st_host st)"]
    by (auto simp: sound_instance_def secure_client_def fresh_instance_def setup_service_def into_route_opt_def
        leases_ok_def redacted_def default_caches_def caches_with_ttl_def split: option.splits sum.splits if_splits)
  with assms(2) have "sound_instance st i"
    by (induction rule: rtranclp_induct) (auto intro: served_step_sound)
  then show ?thesis by (simp add: sound_instance_def secure_client_def leases_ok_def max_archives_def)
qed

section \<open>Signed out\<close>

fun serve_all :: "('p, 'e, 'y) site \<Rightarrow> request list \<Rightarrow> ('e, 'y) inst \<Rightarrow> (str + 'y reply) list \<times> ('e, 'y) inst" where
  "serve_all st [] i = ([], i)"
| "serve_all st (q # qs) i =
     (case dispatch st q i of (r, i1) \<Rightarrow> (case serve_all st qs i1 of (rs, i2) \<Rightarrow> (r # rs, i2)))"

text \<open>The requests that bring a route with them.\<close>

fun carries_route :: "request \<Rightarrow> bool" where
  "carries_route (Configure c) = (c \<noteq> Configure_None)"
| "carries_route (List_Connections_Direct credential) = True"
| "carries_route (List_Tools_Direct credential toolkits tags) = True"
| "carries_route (Routed_Read rt operation) = True"
| "carries_route _ = False"

lemma dispatch_offline:
  assumes "sv_client (in_svc i) = None" "\<not> carries_route q"
  shows "sv_client (in_svc (snd (dispatch st q i))) = None \<and>
    trace (sv_world (in_svc (snd (dispatch st q i)))) = trace (sv_world (in_svc i))"
  using assms by (cases q) (simp_all add: stays_offline plain_kept silent_kept, simp add: configure_def)

text \<open>
  C7. A signed-out module reaches nobody: as long as no request brings a route of its own, no
  sequence of requests makes an instance without a client send anything or gain a client.
\<close>

theorem signed_out_silent:
  assumes "sv_client (in_svc i) = None" "list_all (\<lambda>q. \<not> carries_route q) qs"
  shows "let i' = snd (serve_all st qs i) in
    sv_client (in_svc i') = None \<and> trace (sv_world (in_svc i')) = trace (sv_world (in_svc i))"
  using assms
proof (induction qs arbitrary: i)
  case (Cons q qs)
  obtain r i1 where d: "dispatch st q i = (r, i1)" by fastforce
  obtain rs i2 where e: "serve_all st qs i1 = (rs, i2)" by fastforce
  show ?case using dispatch_offline [of i q st] Cons by (auto simp: d e Let_def dest!: meta_spec [of _ i1])
qed simp

section \<open>The restricted instance\<close>

definition restricted_members :: "str list" where
  "restricted_members = [''RoutedRead'', ''RuntimeMode'', ''ListCapabilities'', ''ListAgentReadyToolkits'']"

text \<open>
  A restricted instance answers exactly four members. A routed read leaves the outside as the
  full module's routed read would and answers the same; the other three change nothing.
\<close>

theorem restricted_keeps_nothing:
  "case restricted_dispatch (ho_outside (st_host st)) q of
     None \<Rightarrow> \<not> List.member restricted_members (member_name q)
   | Some m \<Rightarrow> List.member restricted_members (member_name q) \<and>
       (if member_name q = ''RoutedRead''
        then m (sv_world (in_svc i)) = (case dispatch st q i of (r, i') \<Rightarrow> (r, sv_world (in_svc i')))
        else snd (m w) = w)"
  by (cases q) (simp_all add: restricted_members_def on_world_def on_svc_def split: prod.split)

text \<open>Every declared member has its request, in the order they are declared.\<close>

lemma declared_order:
  "methods = map member_name
     [Configure undefined, List_Toolkits, List_Connections, Authorize undefined undefined,
      Delete_Connection undefined, List_Tools undefined undefined undefined, Get_User_Scopes undefined,
      Set_User_Scopes undefined undefined, Prepare_Arguments undefined undefined undefined undefined,
      Filter_Response undefined undefined undefined, Classify_Error undefined undefined,
      Record_Trigger undefined undefined, Open_Archive, Read_Archive undefined undefined,
      Close_Archive undefined, Execute undefined undefined undefined, List_Capabilities,
      List_Agent_Ready_Toolkits, Get_User_Profile undefined undefined, Refresh_All_Identities,
      List_Github_Repos undefined, List_Available_Triggers undefined undefined, List_Triggers undefined,
      Create_Trigger undefined undefined undefined, Enable_Trigger undefined undefined undefined,
      Disable_Trigger undefined, List_Trigger_History undefined, List_Connections_Direct undefined,
      List_Tools_Direct undefined undefined undefined, Routed_Read undefined undefined,
      Get_Vocabulary undefined, List_Curated_Catalog undefined, List_Visible_Tools undefined undefined,
      Evaluate_Actions undefined, Normalize_Identities undefined undefined undefined,
      Prepare_Task_Filter undefined, Get_Tool_Contract undefined, List_Tool_Contracts undefined,
      Probe_Tool_Output undefined undefined, List_Connected_Integrations undefined, Runtime_Mode]"
  by (simp add: methods_def)

lemma methods_distinct: "distinct methods"
  by (simp add: methods_def)

lemma all_members: "range member_name = set methods"
proof -
  have "member_name q \<in> set methods" for q by (cases q) (simp_all add: methods_def)
  moreover have "set methods \<subseteq> range member_name" unfolding declared_order set_map by (rule image_mono) simp
  ultimately show ?thesis by blast
qed

lemma compatible_iff: "is_compatible (major, minor) \<longleftrightarrow> major = 1 \<and> 22 \<le> minor"
  by (auto simp: is_compatible_def contract_version_def)

lemma binds_trans: "binds a b \<Longrightarrow> binds b c \<Longrightarrow> binds a c"
  by (cases a; cases b; cases c) simp

section \<open>Prepared arguments\<close>

definition typed_arguments :: "json option \<Rightarrow> bool" where
  "typed_arguments a = (case a of None \<Rightarrow> True | Some v \<Rightarrow> wf_json v)"

lemma wf_empty: "wf_json (JObj [])"
  by simp

lemma map_error_Inr: "map_error f x = Inr v \<longleftrightarrow> x = Inr v"
  by (cases x) (simp_all add: map_error_def)

lemma calendar_typed: "typed_arguments a \<Longrightarrow> typed_arguments (apply_calendar_query_defaults tool a zone)"
  by (cases a)
    (auto simp: apply_calendar_query_defaults_def typed_arguments_def simp del: wf_json.simps(2)
      intro!: wf_obj_or_insert wf_empty split: json.split)

lemma order_typed: "wf_json (JObj m) \<Longrightarrow> wf_json (JObj (order_default ord m))"
  by (auto simp: order_default_def simp del: wf_json.simps(2) intro!: wf_obj_or_insert split: option.split)

lemma window_typed: "typed_arguments a \<Longrightarrow> typed_arguments (apply_window_args ch tool a since)"
  by (cases a)
    (auto simp: apply_window_args_def typed_arguments_def Let_def simp del: wf_json.simps(2)
      intro!: wf_obj_or_insert order_typed wf_empty split: option.split json.split)

text \<open>
  C8. What \<open>PrepareArguments\<close> answers for well-formed arguments is a well-formed object with its
  fields in key order, and \<open>Execute\<close>'s own preparation accepts it unchanged.
\<close>

theorem prepared_arguments_typed:
  assumes "prepare_arguments ho tool arguments zone since = Inr v"
    and "case arguments of None \<Rightarrow> True | Some a \<Rightarrow> wf_json a"
  shows "(\<exists>m. v = JObj m \<and> sorted_keys m \<and> list_all (\<lambda>kv. wf_json (snd kv)) m) \<and>
    prepare_execute_arguments (ho_show_json ho) tool (Some v) = Inr v"
proof -
  have start: "typed_arguments arguments" using assms(2) by (simp add: typed_arguments_def)
  define zoned where "zoned = (case zone of Some z \<Rightarrow> apply_calendar_query_defaults tool arguments z | None \<Rightarrow> arguments)"
  have zoned: "typed_arguments zoned" using start calendar_typed by (simp add: zoned_def split: option.split)
  have windowed: "typed_arguments (apply_window_args (ho_chrono ho) tool zoned t)" for t
    using zoned by (rule window_typed)
  obtain prepared where p: "prepare_execute_arguments (ho_show_json ho) tool prepared = Inr v"
    and typed: "typed_arguments prepared"
    using assms(1) zoned windowed
    by (cases since) (auto simp: prepare_arguments_def zoned_def [symmetric] map_error_Inr split: sum.splits)
  have "wf_json (JObj (sent_fields prepared))"
    using typed
    by (auto simp: sent_fields_def typed_arguments_def simp del: wf_json.simps(2) intro: wf_empty
        split: option.splits json.splits)
  then show ?thesis
    using prepare_frame [OF p] prepare_wf [OF p] prepare_again [OF p] by (auto simp: list_all_iff)
qed

section \<open>Examples\<close>

definition example_site :: "(unit, unit, unit) site" where
  "example_site = \<lparr>st_host = example_host nothing_saved, st_lower = to_lower, st_archive = fixed_env,
     st_connect = (\<lambda>s. (Inr fixed_port, s)), st_draw = (\<lambda>s. (Some 7, s))\<rparr>"

definition routeless :: module_config where
  "routeless = \<lparr>mc_route = None, mc_mode = Classic, mc_offered = \<lparr>allow = [], deny = []\<rparr>\<rparr>"

theorem reachable_instance_sound_witness:
  "let i = snd (dispatch example_site Open_Archive (fresh_instance fresh_world None))
   in map fst (in_leases i) = [handle_of 7] \<and> redacted (sv_caches (in_svc i))"
proof -
  have start: "setup_service (ho_outside (st_host example_site)) routeless =
      Inr (Serve_Connectors None (mc_offered routeless))"
    by (simp add: setup_service_def routeless_def into_route_opt_def)
  have step: "(served_step example_site)\<^sup>*\<^sup>* (fresh_instance fresh_world None)
      (snd (dispatch example_site Open_Archive (fresh_instance fresh_world None)))"
    by (rule r_into_rtranclp) (rule served_step.asked)
  have "map fst (in_leases (snd (dispatch example_site Open_Archive (fresh_instance fresh_world None)))) = [handle_of 7]"
    by (simp add: example_site_def fresh_instance_def open_archive_def lease_open_def max_archives_def)
  then show ?thesis using reachable_instance_sound [OF start step] by (simp add: Let_def)
qed

theorem signed_out_silent_witness:
  "trace (sv_world (in_svc (snd (serve_all example_site
     [Execute ''GMAIL_SEND_EMAIL'' None None, List_Toolkits, Open_Archive] (fresh_instance fresh_world None))))) = []"
  using signed_out_silent [of "fresh_instance fresh_world None"
      "[Execute ''GMAIL_SEND_EMAIL'' None None, List_Toolkits, Open_Archive]" example_site]
  by (simp add: fresh_instance_def fresh_world_def Let_def)

theorem prepared_arguments_typed_witness:
  "prepare_execute_arguments (\<lambda>_. []) ''GMAIL_FETCH_EMAILS'' (Some (JObj [(''max_results'', JNum (PosInt 5))])) =
     Inr (JObj [(''max_results'', JNum (PosInt 5))])"
proof -
  have p: "prepare_arguments (example_host nothing_saved) ''GMAIL_FETCH_EMAILS''
      (Some (JObj [(''max_results'', JNum (PosInt 5))])) (Some ''Europe/Paris'') None =
      Inr (JObj [(''max_results'', JNum (PosInt 5))])"
    by code_simp
  show ?thesis using prepared_arguments_typed [OF p] by (simp add: example_host_def)
qed

end
