(* ===== verification/Outside_Laws.thy ===== *)
theory Outside_Laws
  imports Dispatch_Laws
begin

text \<open>
  What the module does to its surroundings, whatever its host asks: the requests it sends, the rows of
  the preference store it reads and writes, the archive streams it touches. Each way is a step of a
  small relation, and the members of \<open>crates/tinyconnectors/src/tinybus_module/mod.rs\<close> take no
  other. What the surroundings keep of a preference is then an invariant of those steps.
\<close>

section \<open>The steps\<close>

text \<open>The stream ports the host has ever handed out.\<close>

definition granted_port :: "('p, 'e, 'y) site \<Rightarrow> 'e stream_port \<Rightarrow> bool" where
  "granted_port st sp \<longleftrightarrow> (\<exists>e. fst (st_connect st e) = Inr sp)"

text \<open>
  While a request is served: a request is sent over an accepted transport, under its credential and
  its agent; a row is read, or written where the request is to save it; the archive's storage is
  connected, listed, measured, read and sealed, and appended to only to record a delivery, in the
  stream of the day.
\<close>

inductive outside_step :: "('p, 'e, 'y) site \<Rightarrow> request \<Rightarrow> 'e \<Rightarrow> 'e \<Rightarrow> bool" for st q where
  sent: "secure_transport (ou_proxies (ho_outside (st_host st))) t \<Longrightarrow>
    outside_step st q e (snd (ou_send (ho_outside (st_host st)) (ht_agent t) (request_for t meth path body) e))"
| row_read: "outside_step st q e (snd (ps_get (ho_prefs (st_host st)) k e))"
| row_saved: "q = Set_User_Scopes toolkit pref \<Longrightarrow>
    outside_step st q e (snd (save_pref (ho_prefs (st_host st)) pref toolkit e))"
| connect: "outside_step st q e (snd (st_connect st e))"
| draw: "q = Open_Archive \<Longrightarrow> outside_step st q e (snd (st_draw st e))"
| streams: "granted_port st sp \<Longrightarrow> List.member [stream_prefix, legacy_stream_prefix] p \<Longrightarrow>
    outside_step st q e (snd (sp_streams sp p e))"
| measured: "granted_port st sp \<Longrightarrow> outside_step st q e (snd (sp_len sp stream e))"
| read: "granted_port st sp \<Longrightarrow> outside_step st q e (snd (sp_read_window sp stream i n e))"
| looked: "granted_port st sp \<Longrightarrow> outside_step st q e (snd (sp_info sp stream e))"
| sealed: "granted_port st sp \<Longrightarrow> outside_step st q e (snd (sp_seal sp stream e))"
| appended: "q = Record_Trigger handle event \<Longrightarrow> granted_port st sp \<Longrightarrow>
    outside_step st q e (snd (sp_append sp (day_stream (ae_day (st_archive st) e)) (entry_value entry) e))"

section \<open>The members over the service\<close>

text \<open>From a client that is secure to one that is, through steps outside.\<close>

definition confined :: "('p, 'e, 'y) site \<Rightarrow> request \<Rightarrow> ('e, 'y) svc \<Rightarrow> ('e, 'y) svc \<Rightarrow> bool" where
  "confined st q s t \<longleftrightarrow>
     (secure_client (st_host st) s \<longrightarrow> secure_client (st_host st) t \<and>
        (outside_step st q)\<^sup>*\<^sup>* (env (sv_world s)) (env (sv_world t)))"

lemma confined_trans: "confined st q s t \<Longrightarrow> confined st q t u \<Longrightarrow> confined st q s u"
  unfolding confined_def by (meson rtranclp_trans)

text \<open>A step over a secure transport is a request of that transport, or nothing outside at all.\<close>

lemma http_call_env:
  "snd (http_call parse send t meth path body e) = snd (send (ht_agent t) (request_for t meth path body) e)"
  by (simp add: http_call_def split: prod.split sum.split)

lemma reply_env: "env (snd (reply ev send w)) = snd (send (env w))"
  by (simp add: reply_def split: prod.split)

lemma http_step:
  assumes "transport_step (http_transport_of (ho_outside (st_host st)) t) w w'"
    and "secure_transport (ou_proxies (ho_outside (st_host st))) t"
  shows "(outside_step st q)\<^sup>*\<^sup>* (env w) (env w')"
  using assms(1) outside_step.sent [OF assms(2), of q "env w"]
  by cases
    (auto simp: transport_get_def transport_post_def transport_delete_def reply_env http_transport_of_def
      http_as_transport_def http_call_env sleepA_def)

lemma http_steps:
  assumes "(transport_step (http_transport_of (ho_outside (st_host st)) t))\<^sup>*\<^sup>* w w'"
    and "secure_transport (ou_proxies (ho_outside (st_host st))) t"
  shows "(outside_step st q)\<^sup>*\<^sup>* (env w) (env w')"
  using assms(1) by (induction rule: rtranclp_induct) (auto intro: rtranclp_trans http_step [OF _ assms(2)])

lemma route_steps:
  assumes "secure_route (ho_outside (st_host st)) r" "client_reach r w w'"
  shows "(outside_step st q)\<^sup>*\<^sup>* (env w) (env w')"
proof -
  obtain t where t: "secure_transport (ou_proxies (ho_outside (st_host st))) t"
    and "quiet_route (transport_step (http_transport_of (ho_outside (st_host st)) t)) r"
    using assms(1) proxy_quiet direct_quiet unfolding secure_route_def by blast
  then have "(transport_step (http_transport_of (ho_outside (st_host st)) t))\<^sup>*\<^sup>* w w'"
    using assms(2) steady_transport(4) unfolding client_reach_def by blast
  then show ?thesis using t by (rule http_steps)
qed

lemma confined_law: "contract_law (st_host st) (confined st q)"
proof
  fix s :: "('b, 'c) svc" and e
  assume "row_read (ho_prefs (st_host st)) (env (sv_world s)) e"
  then show "confined st q s (s\<lparr>sv_world := (sv_world s)\<lparr>env := e\<rparr>\<rparr>)"
    by cases (auto simp: confined_def secure_client_def intro: outside_step.row_read)
next
  fix s :: "('b, 'c) svc" and r w
  assume "sv_client s = Some r" "client_reach r (sv_world s) w"
  then show "confined st q s (s\<lparr>sv_world := w\<rparr>)"
    using route_steps [of st r "sv_world s" w q] by (simp add: confined_def secure_client_def)
qed (auto simp: confined_def secure_client_def intro: rtranclp_trans)

interpretation confined: contract_law "st_host st" "confined st q" for st q
  by (rule confined_law)

interpretation saving: writing_law "st_host st" "confined st (Set_User_Scopes toolkit pref)" toolkit pref
  for st toolkit pref
proof (unfold_locales)
  fix s :: "('b, 'c) svc"
  have "outside_step st (Set_User_Scopes toolkit pref) (env (sv_world s))
      (snd (save_pref (ho_prefs (st_host st)) pref toolkit (env (sv_world s))))"
    by (rule outside_step.row_saved) simp
  then show "confined st (Set_User_Scopes toolkit pref) s (snd (storing (save_pref (ho_prefs (st_host st)) pref toolkit) s))"
    by (auto simp: confined_def storing_def secure_client_def split: prod.split)
qed

lemmas confined_members = confined.plain_members [unfolded lawful_def, rule_format]
  confined.contract_members [unfolded lawful_def, rule_format]
  saving.l_set_user_scopes [unfolded lawful_def, rule_format]

lemma configure_confined: "confined st q s (snd (configure (st_host st) c s))"
proof -
  have "env (sv_world (snd (configure (st_host st) c s))) = env (sv_world s)"
    by (simp add: configure_def split: sum.split prod.split)
  then show ?thesis using configure_secure [of "st_host st" s c] by (simp add: confined_def)
qed

section \<open>The archive\<close>

lemma steady_streams [calm]:
  assumes "granted_port st sp"
  shows "steady (outside_step st q) (sp_streams sp stream_prefix)"
    "steady (outside_step st q) (sp_streams sp legacy_stream_prefix)"
    "steady (outside_step st q) (sp_len sp stream)"
    "steady (outside_step st q) (sp_read_window sp stream i n)"
    "steady (outside_step st q) (sp_info sp stream)"
    "steady (outside_step st q) (sp_seal sp stream)"
  using assms by (auto intro!: steadyI r_into_rtranclp outside_step.intros)

lemma steady_connect [calm]: "steady (outside_step st q) (st_connect st)"
  by (auto intro!: steadyI r_into_rtranclp outside_step.intros)

lemma steady_seal [calm]:
  "granted_port st sp \<Longrightarrow> steady (outside_step st q) (seal_streams sp now streams)"
  by (induction streams) (auto intro!: calm)

lemma steady_seal_idle [calm]:
  assumes "granted_port st sp"
  shows "steady (outside_step st q) (seal_idle_days ae sp)"
proof (rule steadyI)
  fix s
  have "steady (outside_step st q) (bindO (bindO (sp_streams sp stream_prefix) (seal_streams sp (seal_now ae s)))
      (\<lambda>_. bindO (sp_streams sp legacy_stream_prefix) (seal_streams sp (seal_now ae s))))"
    using assms by (intro calm)
  then show "(outside_step st q)\<^sup>*\<^sup>* s (snd (seal_idle_days ae sp s))"
    by (simp add: steady_def seal_idle_days_def Let_def)
qed

lemma window_steps:
  assumes "granted_port st sp"
  shows "(outside_step st q)\<^sup>*\<^sup>* s (snd (window_loop ae sp limit stream till got acc s))"
  using assms
proof (induction ae sp limit stream till got acc s rule: window_loop.induct)
  case (1 ae sp limit stream till got acc s)
  show ?case
  proof (cases "till = 0 \<or> limit \<le> got")
    case False
    obtain r s1 where r: "sp_read_window sp stream (till - (limit - got)) (till - (till - (limit - got))) s = (r, s1)"
      by fastforce
    have s1: "(outside_step st q)\<^sup>*\<^sup>* s s1" using steadyD [OF steady_streams(4) [OF 1(2)] r] .
    show ?thesis
    proof (cases r)
      case (Inl e)
      with False r s1 show ?thesis by (subst window_loop.simps) (simp add: Let_def)
    next
      case (Inr records)
      obtain got' acc' where t: "take_records ae (rev records) got acc = (got', acc')"
        by (cases "take_records ae (rev records) got acc")
      have "(outside_step st q)\<^sup>*\<^sup>* s1 (snd (window_loop ae sp limit stream (till - (limit - got)) got' acc' s1))"
        using 1(1) [OF False refl refl r [symmetric] Inr t [symmetric] 1(2)] .
      with False r Inr t s1 show ?thesis
        by (subst window_loop.simps) (auto simp: Let_def intro: rtranclp_trans)
    qed
  qed (simp add: window_loop.simps [of ae])
qed

lemma steady_stream_loop [calm]:
  "granted_port st sp \<Longrightarrow> steady (outside_step st q) (stream_loop ae sp limit streams acc)"
  by (induction streams arbitrary: acc) (auto intro!: calm steadyI [of _ "window_loop ae sp limit x n 0 a" for x n a] window_steps)

lemma steady_list_recent [calm]:
  "granted_port st sp \<Longrightarrow> steady (outside_step st q) (list_recent ae sp limit)"
  unfolding list_recent_def Let_def by (auto intro!: calm)

lemma steady_record:
  assumes "granted_port st sp"
  shows "steady (outside_step st (Record_Trigger handle event)) (record_delivery (st_archive st) sp tk tg a b payload)"
proof (rule steadyI)
  fix s
  let ?entry = "\<lparr>he_received_at_ms = ae_now (st_archive st) s, he_toolkit = tk, he_trigger = tg,
    he_metadata_id = a, he_metadata_uuid = b, he_payload = payload\<rparr>"
  have "snd (record_delivery (st_archive st) sp tk tg a b payload s) =
      snd (sp_append sp (day_stream (ae_day (st_archive st) s)) (entry_value ?entry) s)"
    by (simp add: record_delivery_def Let_def current_day_file_def bindO_def map_errO_def retO_def
        split: prod.split sum.split)
  then show "(outside_step st (Record_Trigger handle event))\<^sup>*\<^sup>* s (snd (record_delivery (st_archive st) sp tk tg a b payload s))"
    using outside_step.appended [OF refl assms, where e = s and entry = ?entry] by auto
qed

section \<open>Every request\<close>

definition leases_granted :: "('p, 'e, 'y) site \<Rightarrow> ('e, 'y) inst \<Rightarrow> bool" where
  "leases_granted st i \<longleftrightarrow> list_all (granted_port st) (map snd (in_leases i))"

lemma leases_got:
  assumes "leases_granted st i" "map_of (in_leases i) handle = Some sp"
  shows "granted_port st sp"
  using assms map_of_SomeD [OF assms(2)] by (auto simp: leases_granted_def list_all_iff)

lemma leased_steps:
  assumes "leases_granted st i" "\<And>sp. granted_port st sp \<Longrightarrow> steady (outside_step st q) (f sp)"
  shows "(outside_step st q)\<^sup>*\<^sup>* (env (sv_world (in_svc i)))
    (env (sv_world (in_svc (snd (on_archive g (with_lease handle f) i)))))"
proof (cases "map_of (in_leases i) handle")
  case None
  then show ?thesis by (simp add: on_archive_def with_lease_def lease_get_def)
next
  case (Some sp)
  then have "steady (outside_step st q) (f sp)" using assms(2) leases_got [OF assms(1)] by blast
  with Some show ?thesis
    by (auto simp: on_archive_def with_lease_def lease_get_def dest: steadyD split: prod.split)
qed

lemma open_steps:
  "(outside_step st Open_Archive)\<^sup>*\<^sup>* (fst x) (fst (snd (open_archive (st_connect st) (st_draw st) x)))"
proof -
  obtain s ls where x: "x = (s, ls)" by fastforce
  obtain r s1 where c: "st_connect st s = (r, s1)" by fastforce
  obtain w s2 where d: "st_draw st s1 = (w, s2)" by fastforce
  have s1: "(outside_step st Open_Archive)\<^sup>*\<^sup>* s s1" using steadyD [OF steady_connect c] .
  have "outside_step st Open_Archive s1 s2" using outside_step.draw [OF refl, of st s1] d by simp
  with s1 have "(outside_step st Open_Archive)\<^sup>*\<^sup>* s s2" by (rule rtranclp.rtrancl_into_rtrancl)
  with s1 show ?thesis by (cases r) (auto simp: x c d open_archive_def split: prod.split)
qed

lemma set_AList_update: "set (AList.update k v al) \<subseteq> insert (k, v) (set al)"
  by (induction al) auto

lemma opened_granted:
  assumes "list_all (granted_port st) (map snd ls)"
  shows "list_all (granted_port st) (map snd (snd (snd (open_archive (st_connect st) (st_draw st) (e, ls)))))"
proof -
  have "list_all (granted_port st) (map snd (snd (lease_open w sp ls)))" if "granted_port st sp" for w sp
    using assms that set_AList_update [of _ sp ls]
    by (fastforce simp: lease_open_def list_all_iff split: option.split)
  moreover have "granted_port st sp" if "st_connect st e = (Inr sp, e')" for sp e'
    using that unfolding granted_port_def by (metis fst_conv)
  ultimately show ?thesis
    using assms by (auto simp: open_archive_def split: prod.split sum.split) (metis snd_conv)
qed

lemma closed_granted:
  "list_all (granted_port st) (map snd ls) \<Longrightarrow>
     list_all (granted_port st) (map snd (snd (snd (close_archive handle (e, ls)))))"
  by (auto simp: close_archive_def lease_close_def AList.delete_eq list_all_iff split: prod.split)

lemma granted_kept: "leases_granted st i \<Longrightarrow> leases_granted st (snd (dispatch st q i))"
  using archive_leases(1,2) [where x = "(env (sv_world (in_svc i)), in_leases i)"]
  by (cases q) (simp_all add: leases_granted_def opened_granted closed_granted)

text \<open>Reads with a credential or a route of their own go through a transport accepted for the call.\<close>

lemma credential_secure:
  assumes "route_for_credential ou cr = Inr (d, tr)"
  shows "\<exists>t. secure_transport (ou_proxies ou) t \<and> tr = http_transport_of ou t"
  using assms
  by (auto simp: route_for_credential_def Let_def dest: with_network_secure split: if_splits sum.splits)

lemma world_steps:
  assumes "secure_transport (ou_proxies (ho_outside (st_host st))) t"
    and "steady (transport_step (http_transport_of (ho_outside (st_host st)) t)) m"
  shows "(outside_step st q)\<^sup>*\<^sup>* (env w) (env (snd (m w)))"
  using http_steps [OF _ assms(1)] assms(2) by (simp add: steady_def)

text \<open>The counts of a route of the call's own are nothing outside.\<close>

lemma own_gate_steps:
  assumes "\<And>w. X\<^sup>*\<^sup>* (env w) (env (snd (m w)))"
  shows "X\<^sup>*\<^sup>* (env w) (env (snd (own_gate m w)))"
  using assms [of "w\<lparr>gate := Map.empty\<rparr>"]
  by (cases "m (w\<lparr>gate := Map.empty\<rparr>)") (simp add: own_gate_def)

lemma direct_steps:
  "(outside_step st q)\<^sup>*\<^sup>* (env w) (env (snd (list_connections_direct (ho_outside (st_host st)) cr w)))"
  "(outside_step st q)\<^sup>*\<^sup>* (env w) (env (snd (list_tools_direct (ho_outside (st_host st)) cr toolkits tags w)))"
  "(outside_step st q)\<^sup>*\<^sup>* (env w) (env (snd (routed_read (ho_outside (st_host st)) rt operation w)))"
proof -
  let ?ou = "ho_outside (st_host st)"
  show "(outside_step st q)\<^sup>*\<^sup>* (env w) (env (snd (list_connections_direct ?ou cr w)))"
  proof (cases "route_for_credential ?ou cr")
    case (Inr p)
    then obtain d t where p: "p = (d, http_transport_of ?ou t)" "secure_transport (ou_proxies ?ou) t"
      using credential_secure by (cases p) blast
    show ?thesis
      unfolding list_connections_direct_def Inr p(1) sum.case prod.case reading_def
      by (rule own_gate_steps, rule world_steps [OF p(2)]) (intro calm)
  qed (simp add: list_connections_direct_def failO_def)
  show "(outside_step st q)\<^sup>*\<^sup>* (env w) (env (snd (list_tools_direct ?ou cr toolkits tags w)))"
  proof (cases "route_for_credential ?ou cr")
    case (Inr p)
    then obtain d t where p: "p = (d, http_transport_of ?ou t)" "secure_transport (ou_proxies ?ou) t"
      using credential_secure by (cases p) blast
    show ?thesis
      unfolding list_tools_direct_def Inr p(1) sum.case prod.case reading_def
      by (rule own_gate_steps, rule world_steps [OF p(2)]) (intro calm)
  qed (simp add: list_tools_direct_def failO_def)
  show "(outside_step st q)\<^sup>*\<^sup>* (env w) (env (snd (routed_read ?ou rt operation w)))"
  proof (cases "routed_client ?ou rt")
    case (Inr r)
    then have "secure_route ?ou r"
      by (auto simp: routed_client_def map_error_Inr split: sum.splits intro: into_route_secure)
    moreover have "client_reach r v (snd (map_errO error_text (read_through r operation) v))" for v
      using client_act_read [of r operation]
      by (auto simp: map_errO_def client_act_def split: prod.split sum.split) (metis snd_conv)+
    ultimately show ?thesis
      unfolding routed_read_def Inr sum.case by (intro own_gate_steps) (rule route_steps)
  qed (simp add: routed_read_def failO_def)
qed

text \<open>A request is served by steps outside, from a secure client and granted leases to such.\<close>

lemma on_world_env: "env (sv_world (in_svc (snd (on_world f m i)))) = env (snd (m (sv_world (in_svc i))))"
  by (simp add: on_world_def split: prod.split)

lemma on_env_env: "env (sv_world (in_svc (snd (on_env f m i)))) = snd (m (env (sv_world (in_svc i))))"
  by (simp add: on_env_def storing_def split: prod.split)

lemma on_archive_env:
  "env (sv_world (in_svc (snd (on_archive f m i)))) = fst (snd (m (env (sv_world (in_svc i)), in_leases i)))"
  by (simp add: on_archive_def split: prod.split)

lemma steady_history: "steady (outside_step st q) (list_trigger_history ae (st_connect st) limit)"
proof (rule steadyI)
  fix s
  obtain r s1 where c: "st_connect st s = (r, s1)" by fastforce
  have s1: "(outside_step st q)\<^sup>*\<^sup>* s s1" using steadyD [OF steady_connect c] .
  show "(outside_step st q)\<^sup>*\<^sup>* s (snd (list_trigger_history ae (st_connect st) limit s))"
  proof (cases r)
    case (Inr sp)
    then have "granted_port st sp" using c unfolding granted_port_def by (metis fst_conv)
    then have "steady (outside_step st q) (map_errO error_text (list_recent ae sp limit))" by (intro calm)
    then have "(outside_step st q)\<^sup>*\<^sup>* s1 (snd (map_errO error_text (list_recent ae sp limit) s1))"
      by (simp add: steady_def)
    with s1 show ?thesis
      by (simp add: list_trigger_history_def bindO_def map_errO_def [of _ "st_connect st"] c Inr)
  qed (simp add: list_trigger_history_def bindO_def map_errO_def c s1)
qed

lemma closed_steps: "fst (snd (close_archive handle x)) = fst x"
  by (auto simp: close_archive_def split: prod.split)

lemma recorded_steps:
  assumes "leases_granted st i"
  shows "(outside_step st (Record_Trigger handle event))\<^sup>*\<^sup>* (env (sv_world (in_svc i)))
    (env (sv_world (in_svc (snd (on_archive g (record_trigger (st_archive st) handle event) i)))))"
  unfolding record_trigger_def by (rule leased_steps [OF assms]) (intro steady_map_err steady_record)

lemma archive_read_steps:
  assumes "leases_granted st i"
  shows "(outside_step st q)\<^sup>*\<^sup>* (env (sv_world (in_svc i)))
    (env (sv_world (in_svc (snd (on_archive g (read_archive (st_archive st) handle limit) i)))))"
  unfolding read_archive_def by (rule leased_steps [OF assms]) (intro calm)

lemma dispatch_steps:
  assumes "secure_client (st_host st) (in_svc i)" "leases_granted st i"
  shows "(outside_step st q)\<^sup>*\<^sup>* (env (sv_world (in_svc i))) (env (sv_world (in_svc (snd (dispatch st q i)))))"
proof -
  have svc: "(outside_step st q)\<^sup>*\<^sup>* (env (sv_world (in_svc i))) (env (sv_world s))"
    if "confined st q (in_svc i) s" for q s
    using that assms(1) by (simp add: confined_def)
  show ?thesis
    using open_steps [of st "(env (sv_world (in_svc i)), in_leases i)"]
    by (cases q; simp add: svc confined_members configure_confined on_world_env direct_steps on_env_env
        steady_history [unfolded steady_def, rule_format] closed_steps on_archive_env
        recorded_steps [OF assms(2), unfolded on_archive_env] archive_read_steps [OF assms(2), unfolded on_archive_env])
qed

lemma served_secure:
  assumes "setup_service (ho_outside (st_host st)) c = Inr (Serve_Connectors r offered)"
  shows "secure_client (st_host st) (in_svc (fresh_instance w r))"
  using assms into_route_secure [of "ho_outside (st_host st)"]
  by (auto simp: secure_client_def fresh_instance_def setup_service_def into_route_opt_def
      split: option.splits sum.splits if_splits)

lemma serve_all_safe:
  assumes "secure_client (st_host st) (in_svc i)" "leases_granted st i"
  shows "secure_client (st_host st) (in_svc (snd (serve_all st qs i))) \<and> leases_granted st (snd (serve_all st qs i))"
  using assms
proof (induction qs arbitrary: i)
  case (Cons q qs)
  show ?case
    using Cons.IH [of "snd (dispatch st q i)"] dispatch_secure [OF Cons.prems(1)] granted_kept [OF Cons.prems(2)]
    by (simp split: prod.split) (metis snd_conv)
qed simp

lemma serve_all_Cons: "snd (serve_all st (q # qs) i) = snd (serve_all st qs (snd (dispatch st q i)))"
  by (simp split: prod.split)

lemma steps_weaken: "X\<^sup>*\<^sup>* e e' \<Longrightarrow> (\<And>e e'. X e e' \<Longrightarrow> Y e e') \<Longrightarrow> Y\<^sup>*\<^sup>* e e'"
  by (induction rule: rtranclp_induct) (auto intro: rtranclp.rtrancl_into_rtrancl)

lemma serve_all_steps:
  assumes "secure_client (st_host st) (in_svc i)" "leases_granted st i"
  shows "(\<lambda>e e'. \<exists>q \<in> set qs. outside_step st q e e')\<^sup>*\<^sup>* (env (sv_world (in_svc i)))
    (env (sv_world (in_svc (snd (serve_all st qs i)))))"
  using assms
proof (induction qs arbitrary: i)
  case (Cons q qs)
  have "(outside_step st q)\<^sup>*\<^sup>* (env (sv_world (in_svc i))) (env (sv_world (in_svc (snd (dispatch st q i)))))"
    by (rule dispatch_steps [OF Cons.prems])
  then have first: "(\<lambda>e e'. \<exists>p \<in> set (q # qs). outside_step st p e e')\<^sup>*\<^sup>* (env (sv_world (in_svc i)))
      (env (sv_world (in_svc (snd (dispatch st q i)))))"
    by (rule steps_weaken) simp
  have "(\<lambda>e e'. \<exists>p \<in> set (q # qs). outside_step st p e e')\<^sup>*\<^sup>* (env (sv_world (in_svc (snd (dispatch st q i)))))
      (env (sv_world (in_svc (snd (serve_all st qs (snd (dispatch st q i)))))))"
    by (rule steps_weaken [OF Cons.IH [OF dispatch_secure [OF Cons.prems(1)] granted_kept [OF Cons.prems(2)]]]) auto
  with first show ?case unfolding serve_all_Cons by (rule rtranclp_trans)
qed simp

section \<open>Examples\<close>

text \<open>
  A host whose documents are a map, over a direct route whose key is refused; it serves no archive.
\<close>

type_synonym ledger = "str \<times> str \<Rightarrow> json option"

definition map_documents :: "(ledger, str, ledger doc_port) op" where
  "map_documents m = (Inr map_port, m)"

definition ledger_site :: "(unit, ledger, unit) site" where
  "ledger_site =
     \<lparr>st_host =
        \<lparr>ho_outside =
           \<lparr>ou_proxies = ou_proxies (refusing_outside :: (unit, unit, unit, unit) outside),
            ou_send = (\<lambda>a q e. (Inr (Inr \<lparr>rs_status = 401, rs_body = Inr ''{}''\<rparr>), e)),
            ou_parse = (\<lambda>b. Inr (JObj [(''message'', JStr ''Invalid API key'')])), ou_hash = (\<lambda>_. 0),
            ou_decoders = idle_decoders\<rparr>,
         ho_prefs = linked_prefs_store (\<lambda>d. d) Inr map_documents,
         ho_offered = \<lparr>allow = [], deny = []\<rparr>, ho_refusal = (\<lambda>_. []), ho_show_json = (\<lambda>_. []),
         ho_show_failure = id, ho_uppercase = to_upper,
         ho_chrono = \<lparr>parse_rfc3339 = (\<lambda>_. None), from_millis = (\<lambda>_. None), to_rfc3339 = (\<lambda>_. [])\<rparr>,
         ho_clock = (\<lambda>_. 0)\<rparr>,
      st_lower = to_lower,
      st_archive = \<lparr>ae_now = (\<lambda>_. 10), ae_day = (\<lambda>_. ''2026-01-02''), ae_text = he_trigger, ae_arrange = by_time\<rparr>,
      st_connect = (\<lambda>e. (Inl [], e)), st_draw = (\<lambda>e. (Some 7, e))\<rparr>"

definition keyed_config :: module_config where
  "keyed_config = \<lparr>mc_route = Some (Direct_Config ''k'' None None None True), mc_mode = Classic,
     mc_offered = \<lparr>allow = [], deny = []\<rparr>\<rparr>"

lemma keyed_setup:
  "\<exists>r. setup_service (ho_outside (st_host ledger_site)) keyed_config =
     Inr (Serve_Connectors (Some r) (mc_offered keyed_config))"
proof -
  have base: "trim_end_char CHR ''/'' (trim composio_api_base) = composio_api_base" by code_simp
  have plain: "CHR ''@'' \<notin> set composio_api_base" by code_simp
  show ?thesis
    by (simp add: setup_service_def keyed_config_def into_route_opt_def http_api_key_def build_http_def base
        check_base_url_def ledger_site_def refusing_outside_def plain build_agent_def with_network_def Let_def)
qed

definition read_only :: scope_pref where
  "read_only = \<lparr>pref_read = True, pref_write = False, pref_admin = False\<rparr>"

definition empty_ledger :: "ledger world" where
  "empty_ledger = \<lparr>env = Map.empty, gate = Map.empty, trace = []\<rparr>"

text \<open>Saving a preference for Gmail writes its document.\<close>

lemma ledger_saves:
  "dispatch ledger_site (Set_User_Scopes ''Gmail'' read_only) (fresh_instance empty_ledger r) =
     (Inr (User_Scopes (''gmail'', read_only)),
      fresh_instance (empty_ledger\<lparr>env := Map.empty((prefs_namespace, ''gmail'') \<mapsto> encode_preference (pref_to_value read_only))\<rparr>) r)"
proof -
  have key: "pref_key ''Gmail'' = ''gmail''" "to_lower (trim ''Gmail'') = ''gmail''" by code_simp+
  show ?thesis
    by (simp add: on_svc_def set_user_scopes_def bindO_def storing_def map_errO_def save_pref_def retO_def key
        ledger_site_def fresh_instance_def empty_ledger_def linked_prefs_store_def linked_set_def map_documents_def
        document_set_def document_id_def legacy_key_short short_key_def map_port_def scopes_response_def)
qed

section \<open>Confinement\<close>

text \<open>
  C5. Whatever a host asks of an instance, in whatever order, the module acts on its surroundings in a
  few ways only: it sends requests over transports whose base is HTTPS or a loopback address, with the
  credential of that transport; it reads preference rows, and writes one only to save the preference
  of a request that says so; it lists, measures, reads and seals streams of the ports it was given, and
  appends to one only to record a delivery, in the stream of the day.
\<close>

theorem module_confined:
  assumes "setup_service (ho_outside (st_host st)) c = Inr (Serve_Connectors r offered)"
  shows "(\<lambda>e e'. \<exists>q \<in> set qs. outside_step st q e e')\<^sup>*\<^sup>* (env w)
    (env (sv_world (in_svc (snd (serve_all st qs (fresh_instance w r))))))"
proof -
  have "leases_granted st (fresh_instance w r)" by (simp add: leases_granted_def fresh_instance_def)
  moreover have "env (sv_world (in_svc (fresh_instance w r))) = env w" by (simp add: fresh_instance_def)
  ultimately show ?thesis using serve_all_steps [OF served_secure [OF assms], of w qs] by (simp only:)
qed

theorem module_confined_witness:
  "\<exists>r. setup_service (ho_outside (st_host ledger_site)) keyed_config =
     Inr (Serve_Connectors (Some r) (mc_offered keyed_config)) \<and>
   (\<lambda>e e'. \<exists>q \<in> set [Set_User_Scopes ''Gmail'' read_only]. outside_step ledger_site q e e')\<^sup>*\<^sup>* Map.empty
     (Map.empty((prefs_namespace, ''gmail'') \<mapsto> encode_preference (pref_to_value read_only)))"
proof -
  obtain r where r: "setup_service (ho_outside (st_host ledger_site)) keyed_config =
      Inr (Serve_Connectors (Some r) (mc_offered keyed_config))"
    using keyed_setup by blast
  have "env (sv_world (in_svc (snd (serve_all ledger_site [Set_User_Scopes ''Gmail'' read_only] (fresh_instance empty_ledger (Some r)))))) =
      Map.empty((prefs_namespace, ''gmail'') \<mapsto> encode_preference (pref_to_value read_only))"
    by (simp only: serve_all_Cons serve_all.simps ledger_saves snd_conv) (simp add: fresh_instance_def)
  moreover have "env empty_ledger = Map.empty" by (simp add: empty_ledger_def)
  ultimately show ?thesis
    using r module_confined [OF r, of "[Set_User_Scopes ''Gmail'' read_only]" empty_ledger] by metis
qed

end
