(* ===== verification/Preference_Force.thy ===== *)
theory Preference_Force
  imports Outside_Laws
begin

text \<open>
  A saved preference stays in force: what a host saves with \<open>SetUserScopes\<close> governs \<open>Execute\<close> through
  whatever it asks in between, as long as nothing but the module writes the rows. The preference
  store, the outside and the archive meet here through the steps of \<open>Outside_Laws\<close>.
\<close>

section \<open>A store of rows\<close>

text \<open>
  What a preference store promises of the keys it can address: a read answers the row or fails, a
  write that succeeds is the row, neither touches another row, and either may fail.
\<close>

locale row_store =
  fixes ps :: "'e prefs_store" and able :: "str \<Rightarrow> bool" and rows :: "'e \<Rightarrow> str \<Rightarrow> json option"
  assumes read_keeps: "rows (snd (ps_get ps k e)) = rows e"
    and read_row: "able k \<Longrightarrow> ps_get ps k e = (Inr found, e') \<Longrightarrow> found = rows e k"
    and written_row: "able k \<Longrightarrow> ps_set ps k v e = (Inr (), e') \<Longrightarrow> rows e' k = Some v"
    and write_keeps: "able k \<Longrightarrow> able l \<Longrightarrow> l \<noteq> k \<Longrightarrow> rows (snd (ps_set ps k v e)) l = rows e l"
begin

text \<open>The row of the first name that has one governs, or a read fails.\<close>

lemma pref_loop_governed:
  assumes "map (\<lambda>n. pref_key (take n slug)) ns = longer @ k # rest"
    and "list_all able (longer @ [k])" "list_all (\<lambda>l. rows e l = None) longer"
    and "rows e k = Some (pref_to_value p)"
  shows "case fst (pref_loop refusal ps slug ns e) of Inl m \<Rightarrow> True | Inr q \<Rightarrow> q = p"
  using assms
proof (induction longer arbitrary: ns e)
  case Nil
  then obtain n ms where ns: "ns = n # ms" "pref_key (take n slug) = k" by (cases ns) auto
  obtain r e1 where g: "ps_get ps k e = (r, e1)" by fastforce
  have k: "rows e1 k = Some (pref_to_value p)" using read_keeps [of k e] g Nil.prems(4) by simp
  obtain r2 e2 where g2: "ps_get ps k e1 = (r2, e2)" by fastforce
  show ?case
    using g g2 read_row [of k e _ e1] read_row [of k e1 _ e2] k Nil.prems(2,4) ns
    by (cases r; cases r2)
      (auto simp: bindO_def map_errO_def load_pref_def Let_def retO_def pref_value_round split: option.split)
next
  case (Cons l longer)
  then obtain n ms where ns: "ns = n # ms" "pref_key (take n slug) = l" by (cases ns) auto
  obtain r e1 where g: "ps_get ps l e = (r, e1)" by fastforce
  have same: "rows e1 = rows e" using read_keeps [of l e] g by simp
  have "case fst (pref_loop refusal ps slug ms e1) of Inl m \<Rightarrow> True | Inr q \<Rightarrow> q = p"
    using Cons.IH [of ms e1] Cons.prems ns same by simp
  then show ?case
    using g read_row [of l e _ e1] Cons.prems(2,3) ns
    by (cases r) (auto simp: bindO_def map_errO_def)
qed

end

section \<open>The document store is one\<close>

text \<open>A document port over documents that can be observed.\<close>

definition observed_port :: "'e doc_port \<Rightarrow> ('e \<Rightarrow> str \<times> str \<Rightarrow> json option) \<Rightarrow> bool" where
  "observed_port port docs \<longleftrightarrow>
     (\<forall>c i e. docs (snd (doc_get port c i e)) = docs e) \<and>
     (\<forall>c i e v e'. doc_get port c i e = (Inr v, e') \<longrightarrow> v = docs e (c, i)) \<and>
     (\<forall>c i body n e e'. doc_put port c i body n e = (Inr (), e') \<longrightarrow> docs e' (c, i) = Some body) \<and>
     (\<forall>c i body n e d j. (d, j) \<noteq> (c, i) \<longrightarrow> docs (snd (doc_put port c i body n e)) (d, j) = docs e (d, j))"

definition document_row ::
  "(str \<Rightarrow> str) \<Rightarrow> (str \<Rightarrow> str + str) \<Rightarrow> ('e \<Rightarrow> str \<times> str \<Rightarrow> json option) \<Rightarrow> 'e \<Rightarrow> str \<Rightarrow> json option" where
  "document_row digest mk_key docs e k =
     (case document_id digest mk_key k of
        Inl m \<Rightarrow> None | Inr i \<Rightarrow> map_option decode_preference (docs e (prefs_namespace, i)))"

lemma document_id_short:
  assumes "exact_keys mk_key" "short_key k" "document_id digest mk_key k = Inr i"
  shows "i = escape_part True k"
  using assms by (auto simp: document_id_def legacy_key_short exact_keys_def split: sum.splits)

lemma document_row_store:
  assumes "exact_keys mk_key" "observed_port port docs"
  shows "row_store (document_prefs_store digest mk_key port) short_key (document_row digest mk_key docs)"
proof
  note port = assms(2) [unfolded observed_port_def]
  let ?ps = "document_prefs_store digest mk_key port" and ?rows = "document_row digest mk_key docs"
  fix k l :: str and v :: json and w e e'
  have "docs (snd (document_get digest mk_key port k e)) = docs e"
    using port by (auto simp: document_get_def failO_def bindO_def map_errO_def retO_def
        split: sum.split prod.split dest: arg_cong [of _ _ snd]) (metis snd_conv)+
  then show "?rows (snd (ps_get ?ps k e)) = ?rows e"
    by (rule_tac ext) (simp add: document_prefs_store_def document_row_def split: sum.split)
  show "w = ?rows e k" if "ps_get ?ps k e = (Inr w, e')"
    using that port
    by (auto simp: document_prefs_store_def document_get_def document_row_def failO_def bindO_def map_errO_def
        retO_def split: sum.splits prod.splits)
  show "?rows e' k = Some v" if "ps_set ?ps k v e = (Inr (), e')"
    using that port
    by (auto simp: document_prefs_store_def document_set_def document_row_def failO_def map_errO_def
        decode_preference_encode split: sum.splits prod.splits)
  show "?rows (snd (ps_set ?ps k v e)) l = ?rows e l" if "short_key k" "short_key l" "l \<noteq> k"
  proof (cases "document_id digest mk_key k")
    case (Inr i)
    have "j \<noteq> i" if "document_id digest mk_key l = Inr j" for j
      using document_id_short [OF assms(1) _ Inr] document_id_short [OF assms(1) _ that] \<open>short_key k\<close> \<open>short_key l\<close>
        \<open>l \<noteq> k\<close> escape_part_inj by blast
    then show ?thesis
      using port Inr
      by (auto simp: document_prefs_store_def document_set_def document_row_def map_errO_def
          split: sum.split prod.split) (metis Pair_inject snd_conv)+
  qed (simp add: document_prefs_store_def document_set_def failO_def)
qed

text \<open>So is the store the module runs with, which connects to the host's documents before each call.\<close>

definition observed_link :: "('e, str, 'e doc_port) op \<Rightarrow> ('e \<Rightarrow> str \<times> str \<Rightarrow> json option) \<Rightarrow> bool" where
  "observed_link documents docs \<longleftrightarrow>
     (\<forall>e. docs (snd (documents e)) = docs e) \<and>
     (\<forall>e port e'. documents e = (Inr port, e') \<longrightarrow> observed_port port docs)"

lemma linked_run:
  "ps_get (linked_prefs_store digest mk_key documents) k e =
     (case documents e of (Inl m, e') \<Rightarrow> (Inl (link_failed k m), e')
      | (Inr port, e') \<Rightarrow> ps_get (document_prefs_store digest mk_key port) k e')"
  "ps_set (linked_prefs_store digest mk_key documents) k v e =
     (case documents e of (Inl m, e') \<Rightarrow> (Inl (link_failed k m), e')
      | (Inr port, e') \<Rightarrow> ps_set (document_prefs_store digest mk_key port) k v e')"
  by (simp_all add: linked_prefs_store_def linked_get_def linked_set_def document_prefs_store_def bindO_def
      map_errO_def split: prod.split sum.split)

lemma document_row_cong: "docs e = docs e' \<Longrightarrow> document_row digest mk_key docs e = document_row digest mk_key docs e'"
  by (rule ext) (simp add: document_row_def split: sum.split)

lemma linked_row_store:
  assumes "exact_keys mk_key" "observed_link documents docs"
  shows "row_store (linked_prefs_store digest mk_key documents) short_key (document_row digest mk_key docs)"
proof
  let ?ps = "linked_prefs_store digest mk_key documents" and ?rows = "document_row digest mk_key docs"
  fix k l :: str and v :: json and w e e'
  obtain r e1 where d: "documents e = (r, e1)" by fastforce
  have e1: "?rows e1 = ?rows e"
    using assms(2) d unfolding observed_link_def by (intro document_row_cong) (metis snd_conv)
  have store: "row_store (document_prefs_store digest mk_key port) short_key ?rows" if "r = Inr port" for port
    using assms(2) d that document_row_store [OF assms(1)] unfolding observed_link_def by blast
  show "?rows (snd (ps_get ?ps k e)) = ?rows e"
    using e1 row_store.read_keeps [OF store, of _ k e1] by (cases r) (simp_all add: linked_run d)
  show "w = ?rows e k" if "short_key k" "ps_get ?ps k e = (Inr w, e')"
    using that e1 row_store.read_row [OF store, of _ k e1 w e'] by (cases r) (simp_all add: linked_run d)
  show "?rows e' k = Some v" if "short_key k" "ps_set ?ps k v e = (Inr (), e')"
    using that row_store.written_row [OF store, of _ k v e1 e'] by (cases r) (simp_all add: linked_run d)
  show "?rows (snd (ps_set ?ps k v e)) l = ?rows e l" if "short_key k" "short_key l" "l \<noteq> k"
    using that e1 row_store.write_keeps [OF store, of _ k l v e1] by (cases r) (simp_all add: linked_run d)
qed

text \<open>A host whose documents are a map has one.\<close>

lemma map_observed: "observed_link map_documents (\<lambda>m. m)"
  by (simp add: observed_link_def observed_port_def map_documents_def map_port_def)

interpretation ledger: row_store "linked_prefs_store digest Inr map_documents" short_key "document_row digest Inr (\<lambda>m. m)"
  for digest
  by (rule linked_row_store [OF _ map_observed]) (simp add: exact_keys_def)

section \<open>Through the steps outside\<close>

text \<open>What is not the preference store leaves the documents alone.\<close>

definition port_leaves :: "('e \<Rightarrow> 'd) \<Rightarrow> 'e stream_port \<Rightarrow> bool" where
  "port_leaves docs sp \<longleftrightarrow>
     (\<forall>p e. docs (snd (sp_streams sp p e)) = docs e) \<and> (\<forall>x e. docs (snd (sp_len sp x e)) = docs e) \<and>
     (\<forall>x i n e. docs (snd (sp_read_window sp x i n e)) = docs e) \<and>
     (\<forall>x v e. docs (snd (sp_append sp x v e)) = docs e) \<and>
     (\<forall>x e. docs (snd (sp_info sp x e)) = docs e) \<and> (\<forall>x e. docs (snd (sp_seal sp x e)) = docs e)"

definition leaves_documents :: "('p, 'e, 'y) site \<Rightarrow> ('e \<Rightarrow> 'd) \<Rightarrow> bool" where
  "leaves_documents st docs \<longleftrightarrow>
     (\<forall>a rq e. docs (snd (ou_send (ho_outside (st_host st)) a rq e)) = docs e) \<and>
     (\<forall>e. docs (snd (st_connect st e)) = docs e) \<and> (\<forall>e. docs (snd (st_draw st e)) = docs e) \<and>
     (\<forall>sp. granted_port st sp \<longrightarrow> port_leaves docs sp)"

fun saves_row :: "request \<Rightarrow> str option" where
  "saves_row (Set_User_Scopes toolkit pref) = Some (pref_key toolkit)"
| "saves_row _ = None"

lemma step_keeps_row:
  assumes "outside_step st q e e'" "row_store (ho_prefs (st_host st)) able rows"
    and "leaves_documents st docs" "\<And>e e'. docs e = docs e' \<Longrightarrow> rows e = rows e'"
    and "able k" "case saves_row q of None \<Rightarrow> True | Some l \<Rightarrow> able l \<and> l \<noteq> k"
  shows "rows e' k = rows e k"
proof -
  have left: "rows x k = rows y k" if "docs x = docs y" for x y using assms(4) that by metis
  from assms(1) show ?thesis
  proof cases
    case (row_read l)
    then show ?thesis using row_store.read_keeps [OF assms(2), of l e] by simp
  next
    case (row_saved toolkit pref)
    then show ?thesis
      using assms(5,6) row_store.write_keeps [OF assms(2), of "pref_key toolkit" k "pref_to_value pref" e]
      by (auto simp: save_pref_def)
  qed (rule left, use assms(3) in \<open>simp add: leaves_documents_def port_leaves_def\<close>)+
qed

text \<open>
  The rows of the names an action is looked up under stay as they are through a run that saves none of
  them, whatever else it asks.
\<close>

definition spares :: "(str \<Rightarrow> bool) \<Rightarrow> str list \<Rightarrow> request list \<Rightarrow> bool" where
  "spares able names qs \<longleftrightarrow>
     list_all (\<lambda>q. case saves_row q of None \<Rightarrow> True | Some l \<Rightarrow> able l \<and> \<not> List.member names l) qs"

lemma run_keeps_row:
  assumes "secure_client (st_host st) (in_svc i)" "leases_granted st i"
    and "row_store (ho_prefs (st_host st)) able rows" "leaves_documents st docs"
    and "\<And>e e'. docs e = docs e' \<Longrightarrow> rows e = rows e'"
    and "able k" "List.member names k" "spares able names qs"
  shows "rows (env (sv_world (in_svc (snd (serve_all st qs i))))) k = rows (env (sv_world (in_svc i))) k"
  using serve_all_steps [OF assms(1,2), of qs]
proof (induction rule: rtranclp_induct)
  case (step e e')
  then obtain q where q: "q \<in> set qs" "outside_step st q e e'" by blast
  then have "case saves_row q of None \<Rightarrow> True | Some l \<Rightarrow> able l \<and> l \<noteq> k"
    using assms(7,8) by (auto simp: spares_def list_all_iff split: option.splits)
  from step_keeps_row [OF q(2) assms(3-6) this] step.IH show ?case by simp
qed simp

text \<open>The names an action's preference is looked up under, the longest first.\<close>

definition governing_names :: "str \<Rightarrow> str list" where
  "governing_names tool =
     (let slug = to_lower (trim tool) in map (\<lambda>n. pref_key (take n slug)) (underscore_ends slug))"

lemma permits_governed:
  assumes "row_store (ho_prefs ho) able rows"
    and "governing_names tool = longer @ k # rest" "list_all able (longer @ [k])"
    and "list_all (\<lambda>l. rows (env (sv_world s)) l = None) longer"
    and "rows (env (sv_world s)) k = Some (pref_to_value pref)"
    and "sync_toolkit_from_slug tool = Some t"
    and "\<not> allows pref (unwrap_or (sync_classify_unknown tool) (curated_scope t tool))"
  shows "\<forall>b. fst (permits ho tool s) = Inr b \<longrightarrow> \<not> b"
proof -
  have "case fst (pref_for (ho_refusal ho) (ho_prefs ho) tool (env (sv_world s))) of Inl m \<Rightarrow> True | Inr p \<Rightarrow> p = pref"
    unfolding pref_for_def Let_def
    by (rule row_store.pref_loop_governed [OF assms(1) _ assms(3-5)])
      (use assms(2) in \<open>simp add: governing_names_def Let_def\<close>)
  then show ?thesis
    using assms(6,7) by (auto simp: permits_def bindO_def storing_def retO_def split: prod.split sum.split)
qed

lemma execute_refused:
  assumes "\<forall>b. fst (permits ho tool s) = Inr b \<longrightarrow> \<not> b"
  shows "case execute_checked ho tool arguments connid s of
    (answer, s') \<Rightarrow> (\<exists>m. answer = Inl m) \<and> trace (sv_world s') = trace (sv_world s)"
proof -
  obtain b s1 where p: "permits ho tool s = (b, s1)" by fastforce
  moreover have "trace (sv_world s1) = trace (sv_world s)" using p keepsD [OF keeps_permits(1)] by metis
  ultimately show ?thesis
    using assms by (cases b) (auto simp: execute_checked_def bindO_def failO_def)
qed

lemma serve_all_append: "snd (serve_all st (a @ b) i) = snd (serve_all st b (snd (serve_all st a i)))"
  by (induction a arbitrary: i) (simp_all del: serve_all.simps(2) add: serve_all_Cons)

lemma saved_row:
  assumes "row_store (ho_prefs (st_host st)) able rows" "able (pref_key toolkit)"
    and "dispatch st (Set_User_Scopes toolkit pref) i = (Inr saved, i')"
  shows "rows (env (sv_world (in_svc i'))) (pref_key toolkit) = Some (pref_to_value pref)"
proof -
  obtain e where "ps_set (ho_prefs (st_host st)) (pref_key toolkit) (pref_to_value pref) (env (sv_world (in_svc i))) = (Inr (), e)"
    and "env (sv_world (in_svc i')) = e"
    using assms(3)
    by (auto simp: on_svc_def set_user_scopes_def bindO_def storing_def map_errO_def save_pref_def retO_def
        split: prod.splits sum.splits)
  then show ?thesis using row_store.written_row [OF assms(1,2)] by simp
qed

section \<open>Properties\<close>

text \<open>
  C2. A preference a host saves is enforced until it is changed. Once \<open>SetUserScopes\<close> has answered for a
  toolkit whose name governs an action, because no longer name of the action has a row, \<open>Execute\<close>
  refuses the action, with nothing sent, if the preference does not allow its scope: through any run of
  other requests, over any route, and whatever fails in between, as long as the run saves none of these
  names and what is not the preference store leaves the documents alone.
\<close>

theorem saved_preference_in_force:
  assumes "setup_service (ho_outside (st_host st)) c = Inr (Serve_Connectors r offered)"
    and "ho_prefs (st_host st) = linked_prefs_store digest mk_key documents"
    and "exact_keys mk_key" "observed_link documents docs" "leaves_documents st docs"
    and "dispatch st (Set_User_Scopes toolkit pref) (snd (serve_all st before (fresh_instance w r))) = (Inr saved, i)"
    and "governing_names tool = longer @ pref_key toolkit # rest"
    and "list_all short_key (longer @ [pref_key toolkit])"
    and "list_all (\<lambda>l. document_row digest mk_key docs (env (sv_world (in_svc i))) l = None) longer"
    and "spares short_key (longer @ [pref_key toolkit]) after"
    and "sync_toolkit_from_slug tool = Some t"
    and "\<not> allows pref (unwrap_or (sync_classify_unknown tool) (curated_scope t tool))"
  shows "case dispatch st (Execute tool arguments connid) (snd (serve_all st after i)) of
    (answer, i') \<Rightarrow> (\<exists>m. answer = Inl m) \<and>
      trace (sv_world (in_svc i')) = trace (sv_world (in_svc (snd (serve_all st after i))))"
proof -
  let ?rows = "document_row digest mk_key docs" and ?i0 = "snd (serve_all st before (fresh_instance w r))"
  let ?i2 = "snd (serve_all st after i)" and ?k = "pref_key toolkit"
  have store: "row_store (ho_prefs (st_host st)) short_key ?rows"
    unfolding assms(2) by (rule linked_row_store [OF assms(3,4)])
  have start: "leases_granted st (fresh_instance w r)" by (simp add: leases_granted_def fresh_instance_def)
  have i: "i = snd (serve_all st (before @ [Set_User_Scopes toolkit pref]) (fresh_instance w r))"
    using assms(6) by (simp add: serve_all_append)
  have safe: "secure_client (st_host st) (in_svc i)" "leases_granted st i"
    unfolding i using serve_all_safe [OF served_secure [OF assms(1)] start] by blast+
  have now: "?rows (env (sv_world (in_svc i))) ?k = Some (pref_to_value pref)"
    by (rule saved_row [OF store _ assms(6)]) (use assms(8) in simp)
  have kept: "?rows (env (sv_world (in_svc ?i2))) l = ?rows (env (sv_world (in_svc i))) l"
    if "l \<in> set (longer @ [?k])" for l
    using run_keeps_row [OF safe store assms(5) document_row_cong _ _ assms(10)] assms(8) that
    by (auto simp: list_all_iff)
  have "\<forall>b. fst (permits (st_host st) tool (in_svc ?i2)) = Inr b \<longrightarrow> \<not> b"
    using permits_governed [OF store assms(7,8) _ _ assms(11,12), of "in_svc ?i2"] kept now assms(9)
    by (simp add: list_all_iff)
  from execute_refused [OF this, of arguments connid] show ?thesis by (auto simp: on_svc_def split: prod.split)
qed

theorem saved_preference_in_force_witness:
  "\<exists>r. setup_service (ho_outside (st_host ledger_site)) keyed_config =
     Inr (Serve_Connectors (Some r) (mc_offered keyed_config)) \<and>
   (\<exists>m. fst (dispatch ledger_site (Execute ''GMAIL_SEND_EMAIL'' None None)
     (snd (serve_all ledger_site [List_Connections, Set_User_Scopes ''slack'' default_pref, Open_Archive]
       (snd (dispatch ledger_site (Set_User_Scopes ''Gmail'' read_only) (fresh_instance empty_ledger (Some r))))))) = Inl m)"
proof -
  obtain r where r: "setup_service (ho_outside (st_host ledger_site)) keyed_config =
      Inr (Serve_Connectors (Some r) (mc_offered keyed_config))"
    using keyed_setup by blast
  let ?i = "fresh_instance (empty_ledger\<lparr>env := Map.empty((prefs_namespace, ''gmail'') \<mapsto>
    encode_preference (pref_to_value read_only))\<rparr>) (Some r)"
  let ?after = "[List_Connections, Set_User_Scopes ''slack'' default_pref, Open_Archive]"
  have saved: "dispatch ledger_site (Set_User_Scopes ''Gmail'' read_only) (snd (serve_all ledger_site [] (fresh_instance empty_ledger (Some r)))) =
      (Inr (User_Scopes (''gmail'', read_only)), ?i)"
    using ledger_saves by simp
  have store: "ho_prefs (st_host ledger_site) = linked_prefs_store (\<lambda>d. d) Inr map_documents"
    by (simp add: ledger_site_def)
  have leaves: "leaves_documents ledger_site (\<lambda>m. m)"
    by (simp add: leaves_documents_def ledger_site_def granted_port_def)
  have keys: "pref_key ''Gmail'' = ''gmail''" "pref_key ''slack'' = ''slack''" by code_simp+
  have names: "governing_names ''GMAIL_SEND_EMAIL'' = [''gmail_send''] @ pref_key ''Gmail'' # []" by code_simp
  have short: "list_all short_key ([''gmail_send''] @ [pref_key ''Gmail''])" by (simp add: keys short_key_def)
  have free: "list_all (\<lambda>l. document_row (\<lambda>d. d) Inr (\<lambda>m. m) (env (sv_world (in_svc ?i))) l = None) [''gmail_send'']"
    by (simp add: document_row_def document_id_def legacy_key_short short_key_def fresh_instance_def)
  have spared: "spares short_key ([''gmail_send''] @ [pref_key ''Gmail'']) ?after"
    by (simp add: spares_def keys short_key_def)
  have scope: "sync_toolkit_from_slug ''GMAIL_SEND_EMAIL'' = Some ''gmail''"
    "\<not> allows read_only (unwrap_or (sync_classify_unknown ''GMAIL_SEND_EMAIL'') (curated_scope ''gmail'' ''GMAIL_SEND_EMAIL''))"
    by code_simp+
  have "exact_keys Inr" by (simp add: exact_keys_def)
  from saved_preference_in_force [OF r store this map_observed leaves saved names short free spared scope, of None None]
  have "\<exists>m. fst (dispatch ledger_site (Execute ''GMAIL_SEND_EMAIL'' None None) (snd (serve_all ledger_site ?after ?i))) = Inl m"
    by (simp only: split_beta)
  moreover have "snd (dispatch ledger_site (Set_User_Scopes ''Gmail'' read_only) (fresh_instance empty_ledger (Some r))) = ?i"
    by (simp only: ledger_saves snd_conv)
  ultimately show ?thesis using r by metis
qed

end
