(* ===== verification/Renderings.thy ===== *)
theory Renderings
  imports Module_Config
begin

text \<open>
  What a value prints for a developer (\<open>fmt::Debug\<close>): the types that hold a credential write their own
  rendering, in \<open>crates/tinyconnectors-bus/src/composio/{direct,routed,connections}/types.rs\<close>,
  \<open>crates/tinyconnectors/src/client/http.rs\<close> and \<open>tinybus_module/mod.rs\<close>; what wraps them derives
  one; so do \<open>tinybus_module/storage.rs\<close> and \<open>tinyconnectors-sync/src/provider/context.rs\<close>. A text is printed quoted and escaped by the standard library, over its Unicode tables: \<open>quoted\<close>
  is that function.
\<close>

section \<open>The formatter\<close>

definition debug_fields :: "(str \<times> str) list \<Rightarrow> str" where
  "debug_fields fs = join '', '' (map (\<lambda>(k, v). k @ '': '' @ v) fs)"


definition finish_non_exhaustive :: "str \<Rightarrow> (str \<times> str) list \<Rightarrow> str" where
  "finish_non_exhaustive name fs =
     (if fs = [] then name @ '' { .. }'' else name @ '' { '' @ debug_fields fs @ '', .. }'')"




definition debug_bool :: "bool \<Rightarrow> str" where
  "debug_bool b = (if b then ''true'' else ''false'')"

section \<open>The types that hold a credential\<close>





fun debug_configure :: "configure_request \<Rightarrow> str" where
  "debug_configure Configure_None = ''ComposioConfigureRequest::None''"
| "debug_configure (Configure_Proxy base_url auth_token timezone network) =
     ''ComposioConfigureRequest::Proxy(<redacted>)''"
| "debug_configure (Configure_Direct api_key entity base_url network hooks) =
     ''ComposioConfigureRequest::Direct(<redacted>)''"

fun debug_route_config :: "route_config \<Rightarrow> str" where
  "debug_route_config (Proxy_Config base_url auth_token timezone network) = ''RouteConfig::Proxy(<redacted>)''"
| "debug_route_config (Direct_Config api_key entity base_url network hooks) = ''RouteConfig::Direct(<redacted>)''"



section \<open>What wraps them\<close>







text \<open>A link to the host's storage says only whether it has a connection; a provider's context hides its runner.\<close>

definition debug_storage_link :: "bool \<Rightarrow> str" where
  "debug_storage_link connected_now =
     finish_non_exhaustive ''StorageLink'' [(''connected'', debug_bool connected_now)]"

definition debug_provider_context :: "(str \<Rightarrow> str) \<Rightarrow> str \<Rightarrow> str \<Rightarrow> str" where
  "debug_provider_context quoted toolkit connection_id =
     finish_non_exhaustive ''ProviderContext''
       [(''toolkit'', quoted toolkit), (''connection_id'', quoted connection_id)]"

section \<open>Laws\<close>

text \<open>Two values are alike when they differ in their secrets only.\<close>

definition same_network :: "transport_config \<Rightarrow> transport_config \<Rightarrow> bool" where
  "same_network n n' \<longleftrightarrow>
     (proxy_url n' = None) = (proxy_url n = None) \<and>
     no_proxy n' = no_proxy n \<and> tls_root_store n' = tls_root_store n"

definition same_but_key :: "direct_credential \<Rightarrow> direct_credential \<Rightarrow> bool" where
  "same_but_key cr cr' \<longleftrightarrow>
     cr_entity_id cr' = cr_entity_id cr \<and> cr_base_url cr' = cr_base_url cr \<and>
     rel_option same_network (cr_network cr) (cr_network cr') \<and> cr_webhooks cr' = cr_webhooks cr"




lemma same_but_key_key: "same_but_key cr (cr\<lparr>cr_api_key := k\<rparr>)"
  by (cases "cr_network cr") (auto simp: same_but_key_def same_network_def)

section \<open>Properties\<close>



end
