(* ===== verification/Session_Laws.thy ===== *)
theory Session_Laws
  imports Dispatch_Laws
begin

text \<open>
  What a served instance of \<open>crates/tinyconnectors/src/tinybus_module/mod.rs\<close> keeps between requests,
  specified as a session with guarded events of its own, and the refinement of that specification by
  the whole dispatch.
\<close>

section \<open>The session\<close>

text \<open>
  A session has the surroundings, the client in use, what it knows of tools and what it saw of
  outputs, each with the time of learning it, and the archives it holds open by handle.
\<close>

record ('e, 'y) session =
  ss_world :: "'e world"
  ss_client :: "('e, toolkits_response, 'y) route option"
  ss_life :: nat
  ss_known :: "str \<Rightarrow> (nat \<times> tool_contract list) option"
  ss_seen :: "str \<Rightarrow> (nat \<times> probed_sample) option"
  ss_open :: "str \<Rightarrow> 'e stream_port option"

text \<open>The requests that learn of tools, and the toolkit each asks about.\<close>

fun asks_about :: "request \<Rightarrow> str option" where
  "asks_about (Get_Tool_Contract slug) =
     map_option (\<lambda>toolkit. to_lower (trim toolkit)) (bus_toolkit_from_slug (trim slug))"
| "asks_about (List_Tool_Contracts toolkit) = Some (to_lower (trim toolkit))"
| "asks_about _ = None"

definition learns :: "request \<Rightarrow> bool" where
  "learns q \<longleftrightarrow> List.member [''GetToolContract'', ''ListToolContracts'', ''ProbeToolOutput''] (member_name q)"

text \<open>The client a configuration asks for.\<close>

definition asked_client ::
  "('p, 'e, 'y) host \<Rightarrow> configure_request \<Rightarrow> ('e, toolkits_response, 'y) route option \<Rightarrow> bool" where
  "asked_client ho c client \<longleftrightarrow>
     (case config_of_request c of
        None \<Rightarrow> client = None
      | Some rc \<Rightarrow> (case client of None \<Rightarrow> False | Some r \<Rightarrow> into_route (ho_outside ho) rc = Inr r))"

text \<open>
  The events of a session while a request is served. The surroundings move as the client's own calls
  and reads of preferences lead them, and freely only for a request that learns nothing. A new client
  comes with nothing known, seen or counted. Tools become known only by the client's own answer for
  the toolkit asked about, outputs only by its successful answer to the one call of a confirmed read,
  kept without the response. An archive is held only under a drawn handle, over a connected port and
  next to fewer than sixty-four others, and is let go only by closing it.
\<close>

inductive session_step :: "('p, 'e, 'y) site \<Rightarrow> request \<Rightarrow> ('e, 'y) session \<Rightarrow> ('e, 'y) session \<Rightarrow> bool"
  for st q where
  reached:
    "ss_client a = Some r \<Longrightarrow> client_reach r (ss_world a) w \<Longrightarrow> session_step st q a (a\<lparr>ss_world := w\<rparr>)"
| row:
    "row_read (ho_prefs (st_host st)) (env (ss_world a)) e \<Longrightarrow>
     session_step st q a (a\<lparr>ss_world := (ss_world a)\<lparr>env := e\<rparr>\<rparr>)"
| elsewhere:
    "\<not> learns q \<Longrightarrow> session_step st q a (a\<lparr>ss_world := w\<rparr>)"
| switched:
    "q = Configure c \<Longrightarrow> asked_client (st_host st) c client \<Longrightarrow>
     session_step st q a (a\<lparr>ss_client := client, ss_known := Map.empty, ss_seen := Map.empty,
       ss_world := (ss_world a)\<lparr>gate := Map.empty\<rparr>\<rparr>)"
| learned:
    "asks_about q = Some key \<Longrightarrow> ss_client a = Some r \<Longrightarrow>
     r_list_tools r [key] [] (ss_world a) = (Inr listing, w) \<Longrightarrow>
     session_step st q a (a\<lparr>ss_world := w,
       ss_known := (ss_known a)(key \<mapsto>
         (ho_clock (st_host st) (env w), map (\<lambda>tool. contract_of key (ts_function tool)) listing))\<rparr>)"
| observed:
    "q = Probe_Tool_Output slug args \<Longrightarrow> confirmed_read slug = Some toolkit \<Longrightarrow> ss_client a = Some r \<Longrightarrow>
     probed_call (st_host st) r slug args (ss_world a) = (Inr response, w) \<Longrightarrow> successful response \<Longrightarrow>
     session_step st q a (a\<lparr>ss_world := w,
       ss_seen := (ss_seen a)(to_upper (trim slug) \<mapsto>
         (ho_clock (st_host st) (env w), (sample_of response)\<lparr>pb_sample := JNull\<rparr>))\<rparr>)"
| opened:
    "q = Open_Archive \<Longrightarrow> card (dom (ss_open a)) < 64 \<Longrightarrow>
     fst (st_connect st e) = Inr port \<Longrightarrow> fst (st_draw st e') = Some bits \<Longrightarrow>
     session_step st q a (a\<lparr>ss_open := (ss_open a)(handle_of bits \<mapsto> port)\<rparr>)"
| closed:
    "q = Close_Archive handle \<Longrightarrow>
     session_step st q a (a\<lparr>ss_open := (ss_open a)(handle := None)\<rparr>)"

text \<open>What the session says of a tool it knows, with the newest output seen of it.\<close>

definition fresh_entry :: "('p, 'e, 'y) site \<Rightarrow> ('e, 'y) session \<Rightarrow> (nat \<times> 'v) option \<Rightarrow> 'v option" where
  "fresh_entry st a entry = (case entry of
     None \<Rightarrow> None
   | Some (learnt, v) \<Rightarrow> if ho_clock (st_host st) (env (ss_world a)) - learnt < ss_life a then Some v else None)"

definition told :: "('p, 'e, 'y) site \<Rightarrow> ('e, 'y) session \<Rightarrow> tool_contract \<Rightarrow> tool_contract" where
  "told st a c = (case fresh_entry st a (ss_seen a (to_upper (trim (tc_slug c)))) of
     None \<Rightarrow> c
   | Some smp \<Rightarrow> c\<lparr>tc_primary_array_path := pb_primary_array_path smp,
       tc_output_fields := (if pb_output_fields smp = [] then tc_output_fields c else pb_output_fields smp)\<rparr>)"

text \<open>
  What an answer says of the session it leaves. A failure leaves client, knowledge and archives as
  they were; a member that reads contracts answers from what is then known, and what a probe answers
  has been seen.
\<close>

fun faithful ::
  "('p, 'e, 'y) site \<Rightarrow> request \<Rightarrow> str + 'y reply \<Rightarrow> ('e, 'y) session \<Rightarrow> ('e, 'y) session \<Rightarrow> bool" where
  "faithful st q (Inl m) a b \<longleftrightarrow>
     ss_client b = ss_client a \<and> ss_known b = ss_known a \<and> ss_seen b = ss_seen a \<and> ss_open b = ss_open a"
| "faithful st q (Inr said) a b \<longleftrightarrow>
     (case said of
        Configured name \<Rightarrow> name = (case ss_client b of None \<Rightarrow> ''none'' | Some r \<Rightarrow> route_name r)
      | Tool_Contracts (key, contracts) \<Rightarrow>
          asks_about q = Some key \<and>
          (if 0 < ss_life b
           then map_option (map (told st b)) (fresh_entry st b (ss_known b key)) = Some contracts
           else True)
      | Contract found \<Rightarrow>
          (case (q, asks_about q) of
             (Get_Tool_Contract slug, Some key) \<Rightarrow>
               (if 0 < ss_life b
                then map_option (\<lambda>known. map_option (told st b)
                       (find (\<lambda>c. eq_ignore_case (tc_slug c) (trim slug)) known))
                     (fresh_entry st b (ss_known b key)) = Some found
                else True)
           | _ \<Rightarrow> found = None)
      | Probed smp \<Rightarrow>
          (case q of
             Probe_Tool_Output slug args \<Rightarrow>
               ss_seen b (to_upper (trim slug)) =
                 Some (ho_clock (st_host st) (env (ss_world b)), smp\<lparr>pb_sample := JNull\<rparr>)
           | _ \<Rightarrow> False)
      | Archive_Handle handle \<Rightarrow> ss_open b handle \<noteq> None
      | Closed \<Rightarrow> (case q of Close_Archive handle \<Rightarrow> ss_open a handle \<noteq> None \<and> ss_open b handle = None | _ \<Rightarrow> False)
      | Recorded entry \<Rightarrow> (case q of Record_Trigger handle event \<Rightarrow> ss_open a handle \<noteq> None | _ \<Rightarrow> False)
      | _ \<Rightarrow> True)"

text \<open>A run of requests with their answers.\<close>

fun session_run ::
  "('p, 'e, 'y) site \<Rightarrow> (request \<times> (str + 'y reply)) list \<Rightarrow> ('e, 'y) session \<Rightarrow> ('e, 'y) session \<Rightarrow> bool" where
  "session_run st [] a c \<longleftrightarrow> c = a"
| "session_run st ((q, r) # qs) a c \<longleftrightarrow>
     (\<exists>b. (session_step st q)\<^sup>*\<^sup>* a b \<and> faithful st q r a b \<and> session_run st qs b c)"

text \<open>The session an instance keeps.\<close>

definition session_of :: "('e, 'y) inst \<Rightarrow> ('e, 'y) session" where
  "session_of i =
     \<lparr>ss_world = sv_world (in_svc i), ss_client = sv_client (in_svc i), ss_life = cc_ttl (sv_caches (in_svc i)),
      ss_known = cc_catalogs (sv_caches (in_svc i)), ss_seen = cc_probes (sv_caches (in_svc i)),
      ss_open = map_of (in_leases i)\<rparr>"

section \<open>Every member is made of these events\<close>

definition evolves ::
  "('p, 'e, 'y) site \<Rightarrow> request \<Rightarrow> 'e stream_port leases \<Rightarrow> ('e, 'y) svc \<Rightarrow> ('e, 'y) svc \<Rightarrow> bool" where
  "evolves st q ls s t \<longleftrightarrow>
     (session_step st q)\<^sup>*\<^sup>* (session_of \<lparr>in_svc = s, in_leases = ls\<rparr>) (session_of \<lparr>in_svc = t, in_leases = ls\<rparr>)"

lemma session_moved:
  "session_of \<lparr>in_svc = s\<lparr>sv_world := w\<rparr>, in_leases = ls\<rparr> = (session_of \<lparr>in_svc = s, in_leases = ls\<rparr>)\<lparr>ss_world := w\<rparr>"
  by (simp add: session_of_def)

interpretation session: member_law "st_host st" "evolves st q ls" for st q ls
proof
  fix s :: "('b, 'c) svc" and e
  assume "row_read (ho_prefs (st_host st)) (env (sv_world s)) e"
  then show "evolves st q ls s (s\<lparr>sv_world := (sv_world s)\<lparr>env := e\<rparr>\<rparr>)"
    using session_step.row [of st "session_of \<lparr>in_svc = s, in_leases = ls\<rparr>" e q]
    by (auto simp: evolves_def session_moved session_of_def)
next
  fix s :: "('b, 'c) svc" and r w
  assume "sv_client s = Some r" "client_reach r (sv_world s) w"
  then show "evolves st q ls s (s\<lparr>sv_world := w\<rparr>)"
    using session_step.reached [of "session_of \<lparr>in_svc = s, in_leases = ls\<rparr>" r w st q]
    by (auto simp: evolves_def session_moved session_of_def)
qed (auto simp: evolves_def)

interpretation asking: listing_law "st_host st" "evolves st q ls" "\<lambda>key. asks_about q = Some key" for st q ls
proof
  fix key listing w r and s :: "('b, 'c) svc"
  assume "asks_about q = Some key" "sv_client s = Some r" "r_list_tools r [key] [] (sv_world s) = (Inr listing, w)"
  then show "evolves st q ls s (snd (catalog_store (st_host st) key listing (s\<lparr>sv_world := w\<rparr>)))"
    using session_step.learned [of q key "session_of \<lparr>in_svc = s, in_leases = ls\<rparr>" r listing w st]
    by (auto simp: evolves_def session_of_def catalog_store_def Let_def clock_now_def remember_catalog_def
        ttl_insert_def contracts_from_listing_def)
qed

interpretation seeing: probing_law "st_host st" "evolves st (Probe_Tool_Output slug args) ls" slug args
  for st ls slug args
proof
  fix toolkit response w r and s :: "('b, 'c) svc"
  assume "confirmed_read slug = Some toolkit" "sv_client s = Some r"
    "probed_call (st_host st) r slug args (sv_world s) = (Inr response, w)" "successful response"
  then show "evolves st (Probe_Tool_Output slug args) ls s
      (snd (probe_record (st_host st) (trim slug) response (s\<lparr>sv_world := w\<rparr>)))"
    using session_step.observed [of _ slug args toolkit "session_of \<lparr>in_svc = s, in_leases = ls\<rparr>" r st response w]
    by (auto simp: evolves_def session_of_def probe_record_def clock_now_def remember_probe_def ttl_insert_def)
qed

interpretation scoping: writing_law "st_host st" "evolves st (Set_User_Scopes toolkit pref) ls" toolkit pref
  for st ls toolkit pref
proof
  fix s :: "('b, 'c) svc"
  show "evolves st (Set_User_Scopes toolkit pref) ls s (snd (storing (save_pref (ho_prefs (st_host st)) pref toolkit) s))"
    using session_step.elsewhere [of "Set_User_Scopes toolkit pref" st "session_of \<lparr>in_svc = s, in_leases = ls\<rparr>"]
    by (auto simp: evolves_def storing_def session_moved learns_def split: prod.split)
qed

lemmas members_evolve = session.plain_members [unfolded lawful_def, rule_format, THEN conjunct1]
  asking.l_list_contracts [unfolded lawful_def, rule_format, THEN conjunct1]
  asking.l_contract [unfolded lawful_def, rule_format, THEN conjunct1]
  seeing.l_probe [unfolded lawful_def, rule_format, THEN conjunct1]
  scoping.l_set_user_scopes [unfolded lawful_def, rule_format, THEN conjunct1]

lemma on_svc_evolves:
  "evolves st q (in_leases i) (in_svc i) (snd (m (in_svc i))) \<Longrightarrow>
     (session_step st q)\<^sup>*\<^sup>* (session_of i) (session_of (snd (on_svc f m i)))"
proof -
  have "session_of (snd (on_svc f m i)) = session_of \<lparr>in_svc = snd (m (in_svc i)), in_leases = in_leases i\<rparr>"
    "session_of i = session_of \<lparr>in_svc = in_svc i, in_leases = in_leases i\<rparr>"
    by (simp_all add: session_of_def)
  then show "evolves st q (in_leases i) (in_svc i) (snd (m (in_svc i))) \<Longrightarrow> ?thesis" by (simp add: evolves_def)
qed

text \<open>A request that learns nothing may leave the surroundings as it likes.\<close>

lemma moved_evolves:
  assumes "\<not> learns q" "sv_client (in_svc j) = sv_client (in_svc i)" "sv_caches (in_svc j) = sv_caches (in_svc i)"
    and "in_leases j = in_leases i"
  shows "(session_step st q)\<^sup>*\<^sup>* (session_of i) (session_of j)"
proof -
  have "session_of j = (session_of i)\<lparr>ss_world := sv_world (in_svc j)\<rparr>"
    using assms by (simp add: session_of_def)
  with session_step.elsewhere [OF assms(1)] show ?thesis by auto
qed

lemma configure_evolves: "evolves st (Configure c) ls s (snd (configure (st_host st) c s))"
proof (cases "fst (configure (st_host st) c s)")
  case (Inl m)
  then have "snd (configure (st_host st) c s) = s"
    by (auto simp: configure_def split: sum.splits prod.splits)
  then show ?thesis by (simp add: evolves_def)
next
  case (Inr name)
  then obtain client where c: "asked_client (st_host st) c client"
    "snd (configure (st_host st) c s) = s\<lparr>sv_client := client, sv_caches := caches_clear (sv_caches s),
       sv_world := (sv_world s)\<lparr>gate := Map.empty\<rparr>\<rparr>"
  proof (cases "config_of_request c")
    case None
    then show ?thesis using that [of None] by (simp add: configure_def asked_client_def)
  next
    case (Some rc)
    then obtain r where "into_route (ho_outside (st_host st)) rc = Inr r"
      using Inr by (cases "into_route (ho_outside (st_host st)) rc") (auto simp: configure_def)
    then show ?thesis using Some that [of "Some r"] by (simp add: configure_def asked_client_def)
  qed
  show ?thesis
    using session_step.switched [OF refl c(1), of "session_of \<lparr>in_svc = s, in_leases = ls\<rparr>"]
    by (auto simp: evolves_def session_of_def c(2) caches_clear_def)
qed

lemma card_held: "card (dom (map_of ls)) \<le> length ls"
  by (metis card_image_le card_length dom_map_of_conv_image_fst finite_set le_trans)

lemma opened_evolves:
  "(session_step st Open_Archive)\<^sup>*\<^sup>* (session_of i)
     (session_of (snd (on_archive Archive_Handle (open_archive (st_connect st) (st_draw st)) i)))"
proof -
  let ?i' = "snd (on_archive Archive_Handle (open_archive (st_connect st) (st_draw st)) i)"
  obtain w where w: "sv_world (in_svc ?i') = w" by simp
  have moved: "session_step st Open_Archive (session_of i) ((session_of i)\<lparr>ss_world := w\<rparr>)"
    by (rule session_step.elsewhere) (simp add: learns_def)
  consider "in_leases ?i' = in_leases i"
    | port bits e e' where "in_leases ?i' = AList.update (handle_of bits) port (in_leases i)"
      "length (in_leases i) < 64" "fst (st_connect st e) = Inr port" "fst (st_draw st e') = Some bits"
  proof -
    obtain p e1 where c: "st_connect st (env (sv_world (in_svc i))) = (p, e1)" by fastforce
    obtain v e2 where d: "st_draw st e1 = (v, e2)" by fastforce
    show ?thesis
    proof (cases p; cases v; cases "length (in_leases i) < 64")
      fix port bits
      assume a: "p = Inr port" "v = Some bits" "length (in_leases i) < 64"
      then have "in_leases ?i' = AList.update (handle_of bits) port (in_leases i)"
        using c d by (simp add: open_archive_def lease_open_def max_archives_def)
      then show ?thesis using that(2) a c d by (metis fst_conv)
    qed (use that(1) c d in \<open>auto simp: open_archive_def lease_open_def max_archives_def\<close>)
  qed
  then show ?thesis
  proof cases
    case 1
    then have "session_of ?i' = (session_of i)\<lparr>ss_world := w\<rparr>" using w by (simp add: session_of_def)
    with moved show ?thesis by auto
  next
    case 2
    let ?a = "(session_of i)\<lparr>ss_world := w\<rparr>"
    have "card (dom (ss_open ?a)) < 64" using 2(2) card_held [of "in_leases i"] by (simp add: session_of_def)
    then have "session_step st Open_Archive ?a (?a\<lparr>ss_open := (ss_open ?a)(handle_of bits \<mapsto> port)\<rparr>)"
      by (rule session_step.opened [OF refl _ 2(3,4)])
    moreover have "session_of ?i' = ?a\<lparr>ss_open := (ss_open ?a)(handle_of bits \<mapsto> port)\<rparr>"
      using 2(1) w by (simp add: session_of_def update_conv')
    ultimately show ?thesis using moved by auto
  qed
qed

lemma closed_evolves:
  "(session_step st (Close_Archive h))\<^sup>*\<^sup>* (session_of i)
     (session_of (snd (on_archive (\<lambda>_. Closed) (close_archive h) i)))"
proof -
  have "session_of (snd (on_archive (\<lambda>_. Closed) (close_archive h) i)) =
      (session_of i)\<lparr>ss_open := (ss_open (session_of i))(h := None)\<rparr>"
    by (auto simp: on_archive_def close_archive_def lease_close_def session_of_def delete_conv' fun_upd_idem
        split: prod.splits)
  then show ?thesis using session_step.closed [OF refl, of st h "session_of i"] by auto
qed

lemma dispatch_session:
  "(session_step st q)\<^sup>*\<^sup>* (session_of i) (session_of (snd (dispatch st q i)))"
  using archive_leases(1,2) [where x = "(env (sv_world (in_svc i)), in_leases i)"]
  by (cases q)
    (simp_all add: on_svc_evolves members_evolve configure_evolves opened_evolves closed_evolves,
     auto intro!: moved_evolves simp: learns_def)

section \<open>Every answer is faithful\<close>

lemma quiet_faithful:
  assumes "sv_client (in_svc j) = sv_client (in_svc i)" "sv_caches (in_svc j) = sv_caches (in_svc i)"
    and "in_leases j = in_leases i" "\<And>said. r = Inr said \<Longrightarrow> faithful st q r (session_of i) (session_of j)"
  shows "faithful st q r (session_of i) (session_of j)"
  using assms by (cases r) (simp_all add: session_of_def)

lemma on_svc_faithful:
  assumes "sv_client (snd (m (in_svc i))) = sv_client (in_svc i)" "sv_caches (snd (m (in_svc i))) = sv_caches (in_svc i)"
    and "\<And>a b c. faithful st q (Inr (f a)) b c"
  shows "faithful st q (fst (on_svc f m i)) (session_of i) (session_of (snd (on_svc f m i)))"
proof (rule quiet_faithful)
  fix said
  assume "fst (on_svc f m i) = Inr said"
  then obtain a where "said = f a"
    by (cases "fst (m (in_svc i))") (auto simp: on_svc_def split: prod.splits)
  then show "faithful st q (fst (on_svc f m i)) (session_of i) (session_of (snd (on_svc f m i)))"
    using assms(3) \<open>fst (on_svc f m i) = Inr said\<close> by simp
qed (simp_all add: assms)

text \<open>Knowledge that has not expired is what the caches answer.\<close>

lemma fresh_known:
  "fresh_entry st (session_of i) (ss_known (session_of i) key) =
     cached_catalog (clock_now (st_host st) (in_svc i)) (sv_caches (in_svc i)) key"
  by (auto simp: fresh_entry_def session_of_def cached_catalog_def ttl_get_def clock_now_def split: option.split)

lemma fresh_seen:
  "fresh_entry st (session_of i) (ss_seen (session_of i) (to_upper (trim slug))) =
     cached_probe (clock_now (st_host st) (in_svc i)) (sv_caches (in_svc i)) slug"
  by (auto simp: fresh_entry_def session_of_def cached_probe_def ttl_get_def clock_now_def split: option.split)

lemma told_overlaid: "told st (session_of i) = overlaid (st_host st) (in_svc i)"
  by (rule ext)
    (auto simp: told_def overlaid_def apply_probe_def fresh_seen Let_def split: option.split)

text \<open>A member that answers from the contracts leaves the session its lookup of them left.\<close>

lemma contracts_answer:
  assumes "toolkit_contracts (st_host st) toolkit (in_svc i) = (Inr (key, known), t)"
  defines "b \<equiv> session_of (i\<lparr>in_svc := t\<rparr>)"
  shows "key = to_lower (trim toolkit) \<and> told st b = overlaid (st_host st) t \<and>
    (0 < ss_life b \<longrightarrow> fresh_entry st b (ss_known b key) = Some known)"
  using toolkit_contracts_known [OF assms(1)] told_overlaid [of st "i\<lparr>in_svc := t\<rparr>"]
    fresh_known [of st "i\<lparr>in_svc := t\<rparr>" key]
  by (auto simp: b_def) (auto simp: session_of_def)

lemma contracts_refused:
  assumes "toolkit_contracts (st_host st) toolkit (in_svc i) = (Inl m, t)"
  shows "faithful st q (Inl m) (session_of i) (session_of (i\<lparr>in_svc := t\<rparr>))"
  using toolkit_contracts_failed [OF assms] lawfulD [OF evolving.listing.l_contracts [OF TrueI] assms]
  by (simp add: session_of_def)

lemma listed_faithful:
  "faithful st (List_Tool_Contracts toolkit) (fst (dispatch st (List_Tool_Contracts toolkit) i)) (session_of i)
     (session_of (snd (dispatch st (List_Tool_Contracts toolkit) i)))"
proof -
  obtain r t where c: "toolkit_contracts (st_host st) toolkit (in_svc i) = (r, t)" by fastforce
  show ?thesis
  proof (cases r)
    case (Inl m)
    then show ?thesis
      using c contracts_refused [OF c [unfolded Inl]] by (simp add: list_tool_contracts_def bindO_def on_svc_def)
  next
    case (Inr kc)
    obtain key known where kc: "kc = (key, known)" by fastforce
    show ?thesis
      using c contracts_answer [OF c [unfolded Inr kc]] Inr kc
      by (auto simp: list_tool_contracts_def bindO_def on_svc_def)
  qed
qed

lemma looked_up_faithful:
  "faithful st (Get_Tool_Contract slug) (fst (dispatch st (Get_Tool_Contract slug) i)) (session_of i)
     (session_of (snd (dispatch st (Get_Tool_Contract slug) i)))"
proof (cases "bus_toolkit_from_slug (trim slug)")
  case None
  then show ?thesis by (simp add: contract_with_probe_def retO_def on_svc_def)
next
  case (Some toolkit)
  obtain r t where c: "toolkit_contracts (st_host st) toolkit (in_svc i) = (r, t)" by fastforce
  show ?thesis
  proof (cases r)
    case (Inl m)
    then show ?thesis
      using c contracts_refused [OF c [unfolded Inl]] Some
      by (simp add: contract_with_probe_def Let_def bindO_def on_svc_def)
  next
    case (Inr kc)
    obtain key known where kc: "kc = (key, known)" by fastforce
    show ?thesis
      using c contracts_answer [OF c [unfolded Inr kc]] Inr kc Some
      by (auto simp: contract_with_probe_def Let_def bindO_def on_svc_def)
  qed
qed

lemma probed_faithful:
  "faithful st (Probe_Tool_Output slug args) (fst (dispatch st (Probe_Tool_Output slug args) i)) (session_of i)
     (session_of (snd (dispatch st (Probe_Tool_Output slug args) i)))"
proof -
  obtain r t where p: "probe_output (st_host st) slug args (in_svc i) = (r, t)" by fastforce
  show ?thesis
    using p probe_leaves [OF p] lawfulD [OF evolving.probing.l_probe p]
    by (cases r) (simp_all add: on_svc_def session_of_def remember_probe_def ttl_insert_def clock_now_def)
qed

lemma configured_faithful:
  "faithful st (Configure c) (fst (dispatch st (Configure c) i)) (session_of i)
     (session_of (snd (dispatch st (Configure c) i)))"
  by (auto simp: on_svc_def configure_def session_of_def split: sum.splits prod.splits option.splits)

lemma faithful_map:
  "faithful st q (map_sum id f x) a b \<longleftrightarrow>
     (case x of Inl m \<Rightarrow> faithful st q (Inl m) a b | Inr y \<Rightarrow> faithful st q (Inr (f y)) a b)"
  by (cases x) simp_all

lemma archive_faithful:
  "faithful st Open_Archive (fst (dispatch st Open_Archive i)) (session_of i) (session_of (snd (dispatch st Open_Archive i)))"
  "faithful st (Close_Archive h) (fst (dispatch st (Close_Archive h) i)) (session_of i)
     (session_of (snd (dispatch st (Close_Archive h) i)))"
  "faithful st (Record_Trigger h event) (fst (dispatch st (Record_Trigger h event) i)) (session_of i)
     (session_of (snd (dispatch st (Record_Trigger h event) i)))"
  "faithful st (Read_Archive h limit) (fst (dispatch st (Read_Archive h limit) i)) (session_of i)
     (session_of (snd (dispatch st (Read_Archive h limit) i)))"
  by (auto simp: on_archive_def open_archive_def lease_open_def close_archive_def lease_close_def
      record_trigger_def read_archive_def with_lease_def lease_get_def session_of_def update_conv' delete_conv' faithful_map
      split: sum.splits prod.splits option.splits if_splits)

lemma fst_retO: "fst (retO a s) = Inr a"
  by (simp add: retO_def)

lemma dispatch_faithful:
  "faithful st q (fst (dispatch st q i)) (session_of i) (session_of (snd (dispatch st q i)))"
proof (cases q)
  case (Configure c)
  then show ?thesis using configured_faithful by simp
next
  case (List_Tool_Contracts toolkit)
  then show ?thesis using listed_faithful by simp
next
  case (Get_Tool_Contract slug)
  then show ?thesis using looked_up_faithful by simp
next
  case (Probe_Tool_Output slug args)
  then show ?thesis using probed_faithful by simp
next
  case Open_Archive
  then show ?thesis using archive_faithful(1) by simp
next
  case (Close_Archive h)
  then show ?thesis using archive_faithful(2) by simp
next
  case (Record_Trigger h event)
  then show ?thesis using archive_faithful(3) by simp
next
  case (Read_Archive h limit)
  then show ?thesis using archive_faithful(4) by simp
qed (auto intro!: on_svc_faithful simp: on_world_def on_env_def storing_def plain_kept fst_retO split: prod.split)

section \<open>Properties\<close>

text \<open>
  C6. The module refines a session. Over any run of requests, whatever members they name, what an
  instance keeps changes only by the session's events: a new client starts with nothing known and
  nothing seen; tools are known only as the client in use answered for the toolkit asked about, an
  output is seen only in its successful answer to a confirmed read and kept without the response;
  an archive is held next to fewer than sixty-four others. And every answer is the session's: contracts
  are told from what is known then with the newest output seen, a probe's answer has been seen, an
  opened archive is held and a closed one is not, and a failure leaves all of it as it was.
\<close>

theorem runs_refine:
  "case serve_all st qs i of (answers, i') \<Rightarrow>
     length answers = length qs \<and> session_run st (zip qs answers) (session_of i) (session_of i')"
proof (induction qs arbitrary: i)
  case (Cons q qs)
  obtain r i1 where d: "dispatch st q i = (r, i1)" by fastforce
  obtain rs i2 where e: "serve_all st qs i1 = (rs, i2)" by fastforce
  have "(session_step st q)\<^sup>*\<^sup>* (session_of i) (session_of i1)" "faithful st q r (session_of i) (session_of i1)"
    using dispatch_session [of st q i] dispatch_faithful [of st q i] d by simp_all
  then show ?case using Cons [of i1] by (auto simp: d e)
qed simp

end
