(* ===== verification/Calendar_Bounds.thy ===== *)
theory Calendar_Bounds
  imports Prepare
begin

text \<open>
  Which time bounds a calendar call is accepted with (\<open>execute/prepare.rs\<close>): the hand-written date
  test against the calendar itself, and what becomes of every text bound. The documentation promises
  a real \<open>YYYY-MM-DD\<close> date or an RFC 3339 timestamp; the test asks for less of both.
\<close>

section \<open>Dates\<close>

definition number_of :: "str \<Rightarrow> nat" where
  "number_of ds = foldl (\<lambda>n c. 10 * n + digit_val c) 0 ds"

text \<open>The lengths of the months of the Gregorian calendar.\<close>

definition month_lengths :: "nat \<Rightarrow> nat list" where
  "month_lengths year =
     [31, if year mod 400 = 0 \<or> year mod 4 = 0 \<and> year mod 100 \<noteq> 0 then 29 else 28,
      31, 30, 31, 30, 31, 31, 30, 31, 30, 31]"

definition day_exists :: "nat \<Rightarrow> nat \<Rightarrow> nat \<Rightarrow> bool" where
  "day_exists year month day \<longleftrightarrow>
     1 \<le> month \<and> month \<le> 12 \<and> 1 \<le> day \<and> day \<le> month_lengths year ! (month - 1)"

text \<open>A text of three parts, four, two and two characters long, that name a day.\<close>

definition dated :: "(str \<Rightarrow> nat option) \<Rightarrow> str \<Rightarrow> bool" where
  "dated part t \<longleftrightarrow>
     (\<exists>y m d year month day. t = y @ ''-'' @ m @ ''-'' @ d \<and> length y = 4 \<and> length m = 2 \<and> length d = 2 \<and>
        part y = Some year \<and> part m = Some month \<and> part d = Some day \<and> day_exists year month day)"

definition digits_part :: "str \<Rightarrow> nat option" where
  "digits_part p = (if p \<noteq> [] \<and> list_all is_digit p then Some (number_of p) else None)"

definition signed_part :: "str \<Rightarrow> nat option" where
  "signed_part p = (case p of c # ds \<Rightarrow> digits_part (if c = CHR ''+'' then ds else p) | [] \<Rightarrow> None)"

definition real_date :: "str \<Rightarrow> bool" where
  "real_date t \<longleftrightarrow> dated digits_part t"

definition signed_date :: "str \<Rightarrow> bool" where
  "signed_date t \<longleftrightarrow> dated signed_part t"

section \<open>The test against the calendar\<close>

lemma digits_value_number:
  "digits_value acc ds = (if list_all is_digit ds then Some (foldl (\<lambda>n c. 10 * n + digit_val c) acc ds) else None)"
  by (induction ds arbitrary: acc) auto

lemma number_bound: "list_all is_digit ds \<Longrightarrow> number_of ds < 10 ^ length ds"
proof (induction ds rule: rev_induct)
  case (snoc c ds)
  then have "number_of ds < 10 ^ length ds" "digit_val c < 10" by (simp_all add: digit_val_bound)
  then show ?case by (simp add: number_of_def)
qed (simp add: number_of_def)

lemma short_number:
  assumes "list_all is_digit ds" "length ds \<le> 4"
  shows "number_of ds < 2 ^ 32"
proof -
  have "(10 :: nat) ^ length ds \<le> 10 ^ 4" using assms(2) by (rule power_increasing) simp
  with number_bound [OF assms(1)] show ?thesis by simp
qed

lemma parse_part: "length p \<le> 4 \<Longrightarrow> parse_unsigned 32 p = signed_part p"
  using short_number [of p] short_number [of "tl p"]
  by (cases p)
    (auto simp: parse_unsigned_def signed_part_def digits_part_def digits_value_number number_of_def [symmetric]
      opt_filter_def Let_def)

lemma month_days:
  assumes "1 \<le> month" "month \<le> 12"
  shows "days_in_month year month = month_lengths year ! (month - 1)"
proof -
  have "month = 1 \<or> month = 2 \<or> month = 3 \<or> month = 4 \<or> month = 5 \<or> month = 6 \<or> month = 7 \<or> month = 8 \<or>
      month = 9 \<or> month = 10 \<or> month = 11 \<or> month = 12" using assms by presburger
  moreover have "is_leap year \<longleftrightarrow> year mod 400 = 0 \<or> year mod 4 = 0 \<and> year mod 100 \<noteq> 0"
    using mod_mod_cancel [of 4 400 year] by (auto simp: is_leap_def)
  ultimately show ?thesis by (elim disjE) (simp_all add: days_in_month_def month_lengths_def)
qed

lemma parts_of_date:
  assumes "length t = 10" "t ! 4 = c" "t ! 7 = c'"
  shows "t = take 4 t @ [c] @ take 2 (drop 5 t) @ [c'] @ drop 8 t"
proof -
  have suc: "Suc 4 = 5" "Suc 2 = 3" by simp_all
  have len: "4 < length t" "2 < length (drop 5 t)" using assms(1) by simp_all
  have rest: "drop 5 t ! 2 = c'" "drop 3 (drop 5 t) = drop 8 t" using assms by simp_all
  note one = id_take_nth_drop [OF len(1), unfolded suc assms(2)]
  note two = id_take_nth_drop [OF len(2), unfolded suc rest]
  show ?thesis
    unfolding append_Cons append_Nil
    using trans [OF one arg_cong [OF two, of "\<lambda>x. take 4 t @ c # x"]] .
qed

lemma parts_date:
  assumes "length y = 4" "length m = 2" "length d = 2"
  shows "is_calendar_date (y @ ''-'' @ m @ ''-'' @ d) \<longleftrightarrow>
    (\<exists>year month day. signed_part y = Some year \<and> signed_part m = Some month \<and> signed_part d = Some day \<and>
       day_exists year month day)"
proof -
  let ?t = "y @ ''-'' @ m @ ''-'' @ d"
  have "length ?t = 10" "?t ! 4 = CHR ''-''" "?t ! 7 = CHR ''-''" "take 4 ?t = y" "take 2 (drop 5 ?t) = m"
    "take 2 (drop 8 ?t) = d"
    using assms by (simp_all add: nth_append)
  moreover have "parse_unsigned 32 y = signed_part y" "parse_unsigned 32 m = signed_part m"
    "parse_unsigned 32 d = signed_part d"
    using assms by (simp_all add: parse_part)
  ultimately have run: "is_calendar_date ?t = (case (signed_part y, signed_part m, signed_part d) of
      (Some year, Some month, Some day) \<Rightarrow>
        (if month < 1 \<or> 12 < month \<or> day = 0 then False else day \<le> days_in_month year month)
    | _ \<Rightarrow> False)"
    unfolding is_calendar_date_def by (simp only: de_Morgan_disj not_True_eq_False simp_thms if_False)
  have day: "(if month < 1 \<or> 12 < month \<or> day = 0 then False else day \<le> days_in_month year month) =
      day_exists year month day" for year month day
    using month_days [of month year] by (auto simp: day_exists_def)
  show ?thesis unfolding run day by (simp split: option.split)
qed

lemma calendar_date_signed: "is_calendar_date t \<longleftrightarrow> signed_date t"
proof
  assume t: "is_calendar_date t"
  then have "length t = 10" "t ! 4 = CHR ''-''" "t ! 7 = CHR ''-''"
    by (simp_all add: is_calendar_date_def split: if_splits)
  from parts_of_date [OF this] \<open>length t = 10\<close> obtain y m d
    where "t = y @ ''-'' @ m @ ''-'' @ d" "length y = 4" "length m = 2" "length d = 2"
    by (intro that [of "take 4 t" "take 2 (drop 5 t)" "drop 8 t"]) simp_all
  with t parts_date show "signed_date t" unfolding signed_date_def dated_def by metis
next
  assume "signed_date t"
  then show "is_calendar_date t" unfolding signed_date_def dated_def using parts_date by blast
qed

lemma real_signed: "real_date t \<Longrightarrow> signed_date t"
proof -
  have "digits_part p = Some n \<Longrightarrow> signed_part p = Some n" for p n
    by (cases p) (auto simp: digits_part_def signed_part_def split: if_splits)
  then show "real_date t \<Longrightarrow> signed_date t" unfolding real_date_def signed_date_def dated_def by blast
qed

lemma signed_real:
  assumes "signed_date t" "CHR ''+'' \<notin> set t"
  shows "real_date t"
proof -
  have part: "signed_part p = Some n \<Longrightarrow> CHR ''+'' \<notin> set p \<Longrightarrow> digits_part p = Some n" for p n
    by (cases p) (auto simp: digits_part_def signed_part_def split: if_splits)
  obtain y m d year month day where t: "t = y @ ''-'' @ m @ ''-'' @ d" "length y = 4" "length m = 2" "length d = 2"
    "signed_part y = Some year" "signed_part m = Some month" "signed_part d = Some day" "day_exists year month day"
    using assms(1) unfolding signed_date_def dated_def by blast
  then have "CHR ''+'' \<notin> set y" "CHR ''+'' \<notin> set m" "CHR ''+'' \<notin> set d" using assms(2) by auto
  then show ?thesis unfolding real_date_def dated_def using t part by blast
qed

lemma real_plain:
  assumes "real_date t"
  shows "CHR ''+'' \<notin> set t"
proof -
  have part: "digits_part p = Some n \<Longrightarrow> CHR ''+'' \<notin> set p" for p n
    by (auto simp: digits_part_def list_all_iff split: if_splits)
  obtain y m d where "t = y @ ''-'' @ m @ ''-'' @ d" "digits_part y \<noteq> None" "digits_part m \<noteq> None" "digits_part d \<noteq> None"
    using assms unfolding real_date_def dated_def by blast
  then show ?thesis using part by fastforce
qed

section \<open>Bounds of a call\<close>

lemma bad_bound_text:
  "bad_bound v \<longleftrightarrow> (\<exists>t. v = JStr t \<and> CHR ''T'' \<notin> set (trim t) \<and> \<not> signed_date (trim t))"
  by (cases v)
    (auto simp: bad_bound_def normalize_rfc3339_bound_def calendar_date_signed [symmetric] is_calendar_date_def Let_def)

definition sent_bound :: "json \<Rightarrow> json" where
  "sent_bound v =
     (case v of
        JStr t \<Rightarrow> JStr (if List.member (trim t) CHR ''T'' then trim t else trim t @ ''T00:00:00Z'')
      | _ \<Rightarrow> v)"

lemma settled_bound: "\<not> bad_bound v \<Longrightarrow> settled v = sent_bound v"
  by (cases v)
    (auto simp: bad_bound_def settled_def sent_bound_def normalize_rfc3339_bound_def Let_def split: if_splits)

lemma calendar_run:
  assumes "prefix ''GOOGLECALENDAR_'' (trim tool)"
  shows "prepare_execute_arguments show_json tool arguments = Inr v \<longleftrightarrow> is_sendable arguments \<and>
    (\<exists>m. normalize_bounds (trim tool) time_bound_keys (sent_fields arguments) = Inr m \<and> v = JObj m)"
  using prepare_sendable [of show_json tool arguments] assms
  by (cases "is_sendable arguments") (auto simp: prepare_unfold calendar_checked)

section \<open>Properties\<close>

text \<open>
  C35. What a calendar call's time bounds may be, and what is sent for them. A call is accepted exactly when
  its arguments are an object (or absent, or null) each of whose text bounds, trimmed, holds a capital
  T anywhere or is a date whose parts may also start with a plus sign. What is sent is the trimmed
  text, with midnight added when it holds no T; a bound that is no text is left alone. So every
  real date of the calendar is accepted and every other run of digits in that shape refused, but the
  promise that only real dates and timestamps pass is not kept: the dates beyond the calendar that
  pass are exactly those that hold a plus sign, and with a T any text passes as it is.
\<close>

theorem calendar_bounds_settled:
  assumes "prefix ''GOOGLECALENDAR_'' (trim tool)"
  shows "((\<exists>v. prepare_execute_arguments show_json tool arguments = Inr v) \<longleftrightarrow>
      (arguments = None \<or> arguments = Some JNull \<or> (\<exists>m. arguments = Some (JObj m))) \<and>
      (\<forall>k \<in> set time_bound_keys. \<forall>t. map_of (sent_fields arguments) k = Some (JStr t) \<longrightarrow>
         CHR ''T'' \<in> set (trim t) \<or> signed_date (trim t))) \<and>
    (\<forall>m. prepare_execute_arguments show_json tool arguments = Inr (JObj m) \<longrightarrow>
      (\<forall>k \<in> set time_bound_keys. map_of m k = map_option sent_bound (map_of (sent_fields arguments) k))) \<and>
    (\<forall>t. real_date t \<longleftrightarrow> signed_date t \<and> CHR ''+'' \<notin> set t)"
proof -
  have sendable: "is_sendable arguments \<longleftrightarrow>
      arguments = None \<or> arguments = Some JNull \<or> (\<exists>m. arguments = Some (JObj m))"
    by (auto simp: is_sendable_def split: option.splits json.splits)
  have ok: "(\<exists>v. prepare_execute_arguments show_json tool arguments = Inr v) \<longleftrightarrow>
      is_sendable arguments \<and>
      (\<forall>k \<in> set time_bound_keys. \<forall>v. map_of (sent_fields arguments) k = Some v \<longrightarrow> \<not> bad_bound v)"
    unfolding calendar_run [OF assms] using normalize_bounds_ok_iff [of "trim tool" time_bound_keys] by metis
  have sent: "map_of m k = map_option sent_bound (map_of (sent_fields arguments) k)"
    if run: "prepare_execute_arguments show_json tool arguments = Inr (JObj m)" and k: "k \<in> set time_bound_keys" for m k
  proof -
    have n: "normalize_bounds (trim tool) time_bound_keys (sent_fields arguments) = Inr m"
      using run by (simp add: calendar_run [OF assms])
    have "\<forall>v. map_of (sent_fields arguments) k = Some v \<longrightarrow> \<not> bad_bound v" using ok run k by blast
    then show ?thesis
      using normalize_bounds_Inr [OF n, of k] k settled_bound
      by (cases "map_of (sent_fields arguments) k") auto
  qed
  show ?thesis
    unfolding ok sendable bad_bound_text using sent real_signed signed_real real_plain by blast
qed

theorem calendar_bounds_settled_witness:
  "prefix ''GOOGLECALENDAR_'' (trim ''GOOGLECALENDAR_FIND_EVENT '') \<and>
   (\<nexists>v. prepare_execute_arguments (\<lambda>_. []) ''GOOGLECALENDAR_FIND_EVENT ''
     (Some (JObj [(''timeMax'', JStr ''2026-02-29'')])) = Inr v) \<and>
   (\<exists>v. prepare_execute_arguments (\<lambda>_. []) ''GOOGLECALENDAR_FIND_EVENT ''
     (Some (JObj [(''timeMax'', JStr ''+026-+5-+4''), (''timeMin'', JStr ''Tuesday'')])) = Inr v) \<and>
   \<not> real_date ''+026-+5-+4''"
proof -
  have p: "prefix ''GOOGLECALENDAR_'' (trim ''GOOGLECALENDAR_FIND_EVENT '')" by code_simp
  note law = calendar_bounds_settled [OF p, of "\<lambda>_. []"]
  have keys: "set time_bound_keys = {''timeMin'', ''timeMax'', ''time_min'', ''time_max''}" by code_simp
  have "\<not> (CHR ''T'' \<in> set (trim ''2026-02-29'') \<or> signed_date (trim ''2026-02-29''))"
    unfolding calendar_date_signed [symmetric]
    by (simp add: str_eval is_calendar_date_def days_in_month_def is_leap_def)
  moreover have "CHR ''T'' \<in> set (trim ''Tuesday'')" "signed_date (trim ''+026-+5-+4'')"
    unfolding calendar_date_signed [symmetric]
    by (simp_all add: str_eval is_calendar_date_def days_in_month_def is_leap_def)
  moreover have "\<not> real_date ''+026-+5-+4''" using real_plain by fastforce
  ultimately show ?thesis
    using p law [of "Some (JObj [(''timeMax'', JStr ''2026-02-29'')])"]
      law [of "Some (JObj [(''timeMax'', JStr ''+026-+5-+4''), (''timeMin'', JStr ''Tuesday'')])"]
    by (auto simp: keys sent_fields_def)
qed

end
