(* ===== verification/Spec2Isabelle.thy ===== *)
theory Spec2Isabelle
  imports Prepare Classify Slugs Task_Window Execute OAuth Url Direct_Laws Proxy_Route Client
    Contracts Overview Service_Contracts Archive Webhook Trigger_History Identity Tasks
    Storage_Grant Fetch_Race Payloads Preference_Force Renderings Session_Laws Calendar_Bounds
begin

text \<open>
  A model of tinyconnectors, the connector module a host loads to reach third-party applications
  through Composio, and of what it promises. File names are those of the repository; the three
  crates are \<open>crates/tinyconnectors-bus\<close> (the contract with the host), \<open>crates/tinyconnectors-sync\<close>
  (scopes, curated catalogs, preferences, providers) and \<open>crates/tinyconnectors\<close> (the module).

  \<^bold>\<open>The program.\<close> A host configures the module with a route: its own backend, or Composio directly
  under the user's API key. It then asks members: list tools and connections, authorize, execute an
  action, manage triggers, read contracts and probes, render identities, archive trigger
  deliveries. An action is prepared, narrowed to the task window, sent with the retry policies of
  the route, and a failure is classified and worded for the user. Whether it may run at all is
  the scope of its slug against the user's stored preference. Records live in a store the host
  links; on the first open the module copies there what an earlier release kept elsewhere.

  \<^bold>\<open>Shared ground.\<close> \<open>Rust_Str\<close>: the part of \<open>str\<close> in use, over UTF-8 bytes. \<open>Json\<close>: \<open>serde_json\<close>
  values with ordered objects. \<open>Prelude\<close>: collections of rewrite rules and the interfaces
  \<open>normaliser\<close> and \<open>codec\<close>. \<open>Types\<close>, \<open>Payloads\<close>: what crosses the bus
  (\<open>tinyconnectors-bus/src/composio\<close>, \<open>src/vocabulary\<close>). \<open>Errors\<close>: \<open>error/mod.rs\<close>. \<open>Effects\<close>: the
  world, \<open>client/transport.rs\<close> as three functions of an arbitrary environment, and the trace of
  requests and sleeps on which the bounds are stated.

  \<^bold>\<open>Running an action.\<close> \<open>Slugs\<close>: \<open>vocabulary/{slug,scopes}.rs\<close>, \<open>scope/types.rs\<close>. \<open>Prepare\<close>:
  \<open>execute/{prepare,calendar}.rs\<close>, with \<open>Calendar_Bounds\<close> on the bounds of a calendar query.
  \<open>Task_Window\<close>: \<open>execute/task_window.rs\<close>. \<open>Classify\<close>:
  \<open>execute/classify.rs\<close>. \<open>Execute\<close>: \<open>execute/retry.rs\<close>, over the interface \<open>priced_route\<close>, which both
  routes provide. \<open>OAuth\<close>: \<open>oauth/{status,retry}.rs\<close>.

  \<^bold>\<open>Routes and transport.\<close> \<open>Url\<close>: \<open>client/route/url.rs\<close>. \<open>V3_Rows\<close>, \<open>Direct_Route\<close>, \<open>Direct_Laws\<close>:
  \<open>client/route/{direct,direct_triggers}.rs\<close>, with the gate on a rejected key also as a step
  relation with calls in flight. \<open>Proxy_Route\<close>: \<open>client/route/proxy.rs\<close>. \<open>Client\<close>:
  \<open>client/composio.rs\<close>, \<open>client/route/mod.rs\<close>. \<open>Network\<close>: \<open>client/network.rs\<close>. \<open>Http\<close>:
  \<open>client/http.rs\<close>. \<open>Module_Config\<close>: \<open>into_route\<close> and the mode seal of \<open>tinybus_module/mod.rs\<close>,
  \<open>tinybus_module/routed.rs\<close>, \<open>client/direct_read.rs\<close>. \<open>Renderings\<close>: what the types that hold a
  credential print. \<open>Confinement\<close>: which steps an action over a route is made of.

  \<^bold>\<open>What a toolkit offers.\<close> \<open>Catalogs\<close>: \<open>toolkits/catalog\<close>. \<open>Vocabulary\<close>: \<open>vocabulary/{mod,scopes}.rs\<close>,
  \<open>vocabulary/catalogs\<close>. \<open>Providers\<close>: \<open>provider\<close>, \<open>toolkits/*.rs\<close>. \<open>Prefs\<close>: \<open>prefs\<close>,
  \<open>storage/preference.rs\<close>, \<open>state/document_store.rs\<close>. \<open>Schema_Walk\<close>, \<open>Contracts\<close>, \<open>Overview\<close>:
  \<open>contracts/{schema_walk,mod,overview}.rs\<close>. \<open>Identity\<close>: \<open>vocabulary/profile.rs\<close> of both crates.
  \<open>Tasks\<close>: \<open>vocabulary/{tasks,task_sources}.rs\<close>.

  \<^bold>\<open>The module.\<close> \<open>Service\<close>, \<open>Service_Laws\<close>: \<open>tinybus_module/{mod,processing}.rs\<close>,
  \<open>providers/actions.rs\<close>. \<open>Service_Contracts\<close>: \<open>tinybus_module/contracts.rs\<close>, one call at a time;
  \<open>Fetch_Race\<close>: the interleaved steps of its callers. \<open>Archive\<close>: \<open>triggers/archive.rs\<close>,
  \<open>tinybus_module/archives.rs\<close>. \<open>Webhook\<close>: \<open>composio/triggers/webhook.rs\<close>. \<open>Migration\<close>,
  \<open>Migration_Laws\<close>: \<open>state/migration.rs\<close>, \<open>tinybus_module/storage.rs\<close>. \<open>Trigger_History\<close>: the
  archive over what the migration leaves. \<open>Storage_Grant\<close>: \<open>storage/mod.rs\<close>. \<open>Dispatch\<close>,
  \<open>Dispatch_Laws\<close>: \<open>names/mod.rs\<close>, \<open>version/mod.rs\<close>, \<open>tinybus_module/restricted.rs\<close> and every
  request of a served instance. \<open>Session_Laws\<close>: what an instance keeps between requests, as a session of guarded
  events that the dispatch refines. \<open>Outside_Laws\<close>: what all requests do to their surroundings, as steps of
  one relation. \<open>Preference_Force\<close>: a saved preference against those steps. This theory joins the
  retry policies with both routes.

  \<^bold>\<open>State.\<close> \<open>world\<close> (environment, key failures, trace) is threaded through every action; the
  failures are those of the route in use, so \<open>Configure\<close> and loading start with none, and a route
  built for one call counts on its own (\<open>own_gate\<close>). The service
  state \<open>svc\<close> adds the client of the configured route and the contract caches; an instance adds the
  leases on archive readers. What is fixed when the module is loaded is the record \<open>host\<close>. An action
  yields \<open>Inl\<close> of an error or \<open>Inr\<close> of a reply, and the next state; a refusal that leaves the state
  alone says so by returning it.

  \<^bold>\<open>What the lemmas show.\<close> For each operation: every branch, errors included. Cost: the \<open>priced_route\<close>
  facts bound requests and sleeps of any action, and the \<open>grows\<close> facts those of every member. Text: what
  a value can contain after escaping, encoding or redaction. Enforcement: which stored row governs
  a slug, that a refused action sends nothing, and where the listing and the permission part. State:
  invariants of the gate, the caches and the leases, by induction over their step relations, and the
  fact that whole runs of the module, with their answers, are runs of the session of \<open>Session_Laws\<close>;
  the locales \<open>member_law\<close>, \<open>writing_law\<close>, \<open>listing_law\<close>, \<open>probing_law\<close> and \<open>contract_law\<close> prove a
  law of all members once, from what reading a preference, acting over a route and storing what the
  route answered may do, and are instantiated with five relations.
  Surroundings: \<open>outside_step\<close> lists the ways the module acts on the network and the host's storage,
  and whole runs are runs of it, so what those steps keep, a stored preference for one, every run
  keeps. Storage: the migration ends in a quiet store, copies once beside other writers, stays within the declared needs and leaves the history as it was.

  \<^bold>\<open>Bounds.\<close> They are the code's: 20 pages of a listing, 6 attempts on a rate limit, 3 rejections of
  a key until its gate closes (calls in flight can add to the count: with at most \<open>cap\<close> of them it
  stays within \<open>2 + cap\<close>), 240 characters of a failure's message, 245
  characters with what surrounds it, 64 leases, a history of 50 by default, pages of 128 records in the
  store. Retries and paged listings recurse on the attempts and pages left, so no fuel is chosen by
  the model. Only the migration's loops may run forever, on a store that never stops changing or
  never ends a stream: they are partial functions into \<open>option\<close>, and \<open>Migration_Laws\<close> proves
  that they return: in a store nobody else writes to, and for a legacy row that changes finitely often.

  \<^bold>\<open>Parameters.\<close> Code that is not in the repository is an argument: sending an HTTP request, parsing
  and printing JSON text, URL parsing and the percent decoder, the proxy builder, the keyed digest and
  base64, the calendar library, Unicode case mapping, the decoders the derive macros generate, and
  the storage driver's ports. A hypothesis about one is its documented behaviour and has a witness.

  \<^bold>\<open>Not modelled.\<close> Derived serialisation; delivery, registration and shutdown on the bus and loading the module; the lease and cache locks below one atomic step (\<open>Fetch_Race\<close> opens
  up the one a network call happens under, the gate's step relation the calls under one key, and the
  migration the writes of others between its own); re-exports; the example programs. Members otherwise
  run one at a time; \<open>Service_Contracts\<close> separates a fetch from the storing of its result and shows
  where the code depends on nothing coming between.
\<close>

section \<open>Properties across components\<close>

text \<open>
  C1. Running an action is bounded on both routes: over the direct route it sends at most
  fourteen requests, over the backend at most seven, and sleeps at most 68 seconds in all; for
  every action but the one on the retry list it is at most four and two requests and one sleep of
  eight seconds.
\<close>

theorem execute_bounded:
  "(\<exists>evs. trace (snd (client_execute show_json (direct_as_route d tr) tool arguments c w)) = trace w @ evs \<and>
      requests evs \<le> (if List.member rate_limit_retry_tools (trim tool) then 14 else 4) \<and>
      slept evs \<le> (if List.member rate_limit_retry_tools (trim tool) then 68 else 8)) \<and>
   (\<exists>evs. trace (snd (execute_action show_json (proxy_execute dec shape tr) tool arguments c w)) = trace w @ evs \<and>
      requests evs \<le> (if List.member rate_limit_retry_tools (trim tool) then 7 else 2) \<and>
      slept evs \<le> (if List.member rate_limit_retry_tools (trim tool) then 68 else 8))"
proof (cases "List.member rate_limit_retry_tools (trim tool)")
  case True
  then show ?thesis
    using direct.execute_action_cost [of show_json d tr tool arguments c]
      proxy.execute_action_cost [of show_json dec shape tr tool arguments c]
    by (simp add: grows_def client_execute_def direct_as_route_def)
next
  case False
  then show ?thesis
    using direct.execute_action_single [OF False, of show_json d tr arguments c]
      proxy.execute_action_single [OF False, of show_json dec shape tr arguments c]
    by (simp add: grows_def client_execute_def direct_as_route_def)
qed

end
